(* ===== verification/Go_Prelude.thy ===== *)
theory Go_Prelude
  imports Main "HOL-Library.Word" "HOL-Library.Multiset" "HOL-Library.Sublist"
begin

text \<open>
  What the components share of the Go language and its standard library.

  \<^item> Bytes are \<open>char\<close> (HOL's eight-bit characters), so a Go \<open>string\<close> and a Go \<open>[]byte\<close> are
    both \<open>char list\<close> and the conversions \<open>string(b)\<close> and \<open>[]byte(s)\<close> are the identity.
  \<^item> \<open>uint32\<close> and \<open>uint64\<close> are words, so every addition wraps; \<open>int64\<close> values (timestamps) are
    \<open>int\<close> and each narrowing conversion is written out.
  \<^item> A slice that may be nil is an \<open>'a list option\<close>; \<open>elems\<close> reads it and \<open>go_append\<close> is the
    built-in \<open>append\<close>, which keeps nil when there is nothing to append.
  \<^item> A pointer is an address, the memory a total function from addresses to values.
  \<^item> The functions of the packages \<open>strings\<close>, \<open>strconv\<close> (integers) and \<open>encoding/binary\<close> that
    the sources call, on byte strings.
  \<^item> Three interfaces as locales: a codec whose decoder undoes its encoder in front of any
    remaining input (\<open>prefix_codec\<close>), a transition system with an inductive invariant
    (\<open>invariant_system\<close>) and its refinement by another one (\<open>simulation_system\<close>).
\<close>

section \<open>Types\<close>

type_synonym byte = char
type_synonym bytes = "char list"
type_synonym uint32 = "32 word"
type_synonym uint64 = "64 word"
type_synonym int64 = int
type_synonym addr = nat
type_synonym ('e, 'a) result = "'e + 'a"

text \<open>Collections the component theories fill and hand to the simplifier.\<close>

named_theorems go_simps \<open>unfolding of the Go library functions\<close>
named_theorems codec_simps \<open>decoding of encoded bytes\<close>

section \<open>Slices and maps\<close>

definition elems :: "'a list option \<Rightarrow> 'a list" where
  "elems s = (case s of None \<Rightarrow> [] | Some xs \<Rightarrow> xs)"

definition go_append :: "'a list option \<Rightarrow> 'a list \<Rightarrow> 'a list option" where
  "go_append s xs = (if xs = [] then s else Some (elems s @ xs))"

text \<open>
  The order in which \<open>range\<close> visits a map is not specified: a definition that ranges over a map
  takes the visiting order, and \<open>visits\<close> says that it is one the runtime may choose.
\<close>

definition visits :: "'k list \<Rightarrow> ('k \<rightharpoonup> 'v) \<Rightarrow> bool" where
  "visits ks m \<longleftrightarrow> distinct ks \<and> set ks = dom m"

text \<open>Go's integer division and remainder truncate toward zero.\<close>

definition go_div :: "int \<Rightarrow> int \<Rightarrow> int" where
  "go_div a b = sgn a * sgn b * (\<bar>a\<bar> div \<bar>b\<bar>)"

definition go_mod :: "int \<Rightarrow> int \<Rightarrow> int" where
  "go_mod a b = a - go_div a b * b"

section \<open>Package strings, on byte strings\<close>

fun split_on :: "char \<Rightarrow> string \<Rightarrow> string list" where
  "split_on c [] = [[]]"
| "split_on c (x # xs) =
     (if x = c then [] # split_on c xs
      else (case split_on c xs of [] \<Rightarrow> [[x]] | w # ws \<Rightarrow> (x # w) # ws))"

definition trim_left :: "string \<Rightarrow> string \<Rightarrow> string" where
  "trim_left cutset s = dropWhile (\<lambda>c. c \<in> set cutset) s"

definition trim_right :: "string \<Rightarrow> string \<Rightarrow> string" where
  "trim_right cutset s = rev (dropWhile (\<lambda>c. c \<in> set cutset) (rev s))"

definition trim :: "string \<Rightarrow> string \<Rightarrow> string" where
  "trim cutset s = trim_right cutset (trim_left cutset s)"

text \<open>\<open>strings.Replace(s, old, new, -1)\<close> for one-byte arguments.\<close>

definition replace_char :: "char \<Rightarrow> char \<Rightarrow> string \<Rightarrow> string" where
  "replace_char old new s = map (\<lambda>c. if c = old then new else c) s"

text \<open>\<open>ReadBytes(delim)\<close>: the bytes up to and with the delimiter, and the rest; None at EOF.\<close>

fun cut_line :: "char \<Rightarrow> bytes \<Rightarrow> (bytes \<times> bytes) option" where
  "cut_line d [] = None"
| "cut_line d (x # xs) =
     (if x = d then Some ([x], xs)
      else (case cut_line d xs of None \<Rightarrow> None | Some (l, r) \<Rightarrow> Some (x # l, r)))"

section \<open>Decimal integers\<close>

fun dec_digits :: "nat \<Rightarrow> string" where
  "dec_digits n = (if n < 10 then [char_of (48 + n)] else dec_digits (n div 10) @ [char_of (48 + n mod 10)])"

declare dec_digits.simps [simp del]

definition fmt_int :: "int \<Rightarrow> string" where
  "fmt_int i = (if i < 0 then CHR ''-'' # dec_digits (nat (- i)) else dec_digits (nat i))"

definition is_digit :: "char \<Rightarrow> bool" where
  "is_digit c \<longleftrightarrow> 48 \<le> (of_char c :: nat) \<and> (of_char c :: nat) \<le> 57"

definition digit_val :: "char \<Rightarrow> nat" where
  "digit_val c = of_char c - 48"

definition digits_val :: "string \<Rightarrow> nat" where
  "digits_val s = foldl (\<lambda>n c. n * 10 + digit_val c) 0 s"

text \<open>\<open>strconv.ParseInt(s, 10, 0)\<close> with a 64-bit \<open>int\<close>: None is a syntax or a range error.\<close>

definition sign_split :: "string \<Rightarrow> bool \<times> string" where
  "sign_split s = (case s of [] \<Rightarrow> (False, [])
     | c # cs \<Rightarrow> if c = CHR ''-'' then (True, cs) else if c = CHR ''+'' then (False, cs) else (False, s))"

definition parse_int :: "string \<Rightarrow> int option" where
  "parse_int s =
     (let (neg, ds) = sign_split s;
          v = (if neg then - int (digits_val ds) else int (digits_val ds))
      in if ds = [] \<or> \<not> list_all is_digit ds then None
         else if - (2 ^ 63) \<le> v \<and> v < 2 ^ 63 then Some v else None)"

section \<open>Package encoding/binary\<close>

fun le_bytes :: "nat \<Rightarrow> nat \<Rightarrow> bytes" where
  "le_bytes 0 n = []"
| "le_bytes (Suc k) n = char_of n # le_bytes k (n div 256)"

fun le_val :: "bytes \<Rightarrow> nat" where
  "le_val [] = 0"
| "le_val (b # bs) = of_char b + 256 * le_val bs"

definition be_bytes :: "nat \<Rightarrow> nat \<Rightarrow> bytes" where
  "be_bytes k n = rev (le_bytes k n)"

definition be_val :: "bytes \<Rightarrow> nat" where
  "be_val bs = le_val (rev bs)"

section \<open>Streams of encoded values\<close>

fun dec_many :: "(bytes \<Rightarrow> ('a \<times> bytes) option) \<Rightarrow> nat \<Rightarrow> bytes \<Rightarrow> ('a list \<times> bytes) option" where
  "dec_many dec 0 bs = Some ([], bs)"
| "dec_many dec (Suc n) bs =
     (case dec bs of None \<Rightarrow> None
      | Some (x, r) \<Rightarrow> (case dec_many dec n r of None \<Rightarrow> None | Some (xs, r') \<Rightarrow> Some (x # xs, r')))"

section \<open>Transition systems\<close>

inductive reachable :: "('s \<Rightarrow> bool) \<Rightarrow> ('s \<Rightarrow> 's \<Rightarrow> bool) \<Rightarrow> 's \<Rightarrow> bool"
  for init :: "'s \<Rightarrow> bool" and step :: "'s \<Rightarrow> 's \<Rightarrow> bool" where
  reachable_init: "init s \<Longrightarrow> reachable init step s"
| reachable_step: "reachable init step s \<Longrightarrow> step s t \<Longrightarrow> reachable init step t"

section \<open>Lemmas on slices, maps and strings\<close>

lemma elems_simps [simp]: "elems None = []" "elems (Some xs) = xs"
  by (simp_all add: elems_def)

lemma elems_go_append [simp]: "elems (go_append s xs) = elems s @ xs"
  by (simp add: go_append_def)

lemma go_append_Nil [simp]: "go_append s [] = s"
  by (simp add: go_append_def)

lemma set_map_filter: "set (List.map_filter f ks) = {v. \<exists>k \<in> set ks. f k = Some v}"
  by (induction ks) (auto simp: List.map_filter_simps split: option.splits)

lemma ran_empty_map: "ran m = {} \<Longrightarrow> m = Map.empty"
  by (metis domIff equals0D ext ranI option.exhaust)

lemma visits_empty [simp]: "visits ks Map.empty \<longleftrightarrow> ks = []"
  by (auto simp: visits_def)

lemma visits_lookup: "visits ks m \<Longrightarrow> k \<in> set ks \<Longrightarrow> \<exists>v. m k = Some v"
  by (auto simp: visits_def)

lemma visits_finite: "visits ks m \<Longrightarrow> finite (dom m)"
  by (metis finite_set visits_def)

lemma visits_exists: "finite (dom m) \<Longrightarrow> \<exists>ks. visits ks m"
  by (auto simp: visits_def dest: finite_distinct_list)

lemma split_on_not_Nil [simp]: "split_on c s \<noteq> []"
  by (induction s) (auto split: list.splits)

lemma split_on_no_sep: "c \<notin> set s \<Longrightarrow> split_on c s = [s]"
  by (induction s) auto

lemma split_on_append_sep: "c \<notin> set s \<Longrightarrow> split_on c (s @ c # t) = s # split_on c t"
  by (induction s) auto

lemma split_on_words: "w \<in> set (split_on c s) \<Longrightarrow> c \<notin> set w"
  by (induction s arbitrary: w) (auto split: list.splits if_splits)

lemma split_on_chars: "w \<in> set (split_on c s) \<Longrightarrow> set w \<subseteq> set s"
proof (induction s arbitrary: w)
  case (Cons x s)
  then show ?case by (cases "split_on c s") (fastforce split: if_splits)+
qed simp

text \<open>\<open>Split\<close> loses nothing: joining the parts with the separator gives the string back.\<close>

lemma split_on_join: "s = concat (map (\<lambda>w. w @ [c]) (butlast (split_on c s))) @ last (split_on c s)"
proof (induction s)
  case (Cons x s)
  then show ?case by (cases "split_on c s") auto
qed simp

lemma trim_right_id: "s = [] \<or> last s \<notin> set cutset \<Longrightarrow> trim_right cutset s = s"
  by (cases s rule: rev_cases) (auto simp: trim_right_def)

lemma trim_left_id: "s = [] \<or> hd s \<notin> set cutset \<Longrightarrow> trim_left cutset s = s"
  by (cases s) (auto simp: trim_left_def)

lemma trim_id: "s = [] \<or> (hd s \<notin> set cutset \<and> last s \<notin> set cutset) \<Longrightarrow> trim cutset s = s"
  by (auto simp: trim_def trim_left_id trim_right_id)

lemma trim_right_end:
  assumes "set t \<subseteq> set cutset" shows "trim_right cutset (s @ t) = trim_right cutset s"
proof -
  from assms have "dropWhile (\<lambda>c. c \<in> set cutset) (rev t @ rev s) = dropWhile (\<lambda>c. c \<in> set cutset) (rev s)"
    by (intro dropWhile_append2) auto
  then show ?thesis by (simp add: trim_right_def)
qed

lemma cut_line_Some:
  "cut_line d s = Some (l, r) \<longleftrightarrow> s = l @ r \<and> l \<noteq> [] \<and> last l = d \<and> d \<notin> set (butlast l)"
proof (induction s arbitrary: l r)
  case (Cons x s)
  show ?case
  proof (cases "x = d")
    case True
    then show ?thesis by (cases l) auto
  next
    case False
    have *: "cut_line d (x # s) = Some (l, r) \<longleftrightarrow> (\<exists>l'. cut_line d s = Some (l', r) \<and> l = x # l')"
      using False by (auto split: option.splits)
    show ?thesis
      unfolding * using Cons.IH False by (cases l) (auto split: if_splits)
  qed
qed simp

lemma cut_line_None: "cut_line d s = None \<longleftrightarrow> d \<notin> set s"
  by (induction s) (auto split: option.splits)

lemma cut_line_append: "d \<notin> set l \<Longrightarrow> cut_line d (l @ d # r) = Some (l @ [d], r)"
  by (simp add: cut_line_Some)

lemma cut_line_length: "cut_line d s = Some (l, r) \<Longrightarrow> length r < length s"
  by (auto simp: cut_line_Some)

section \<open>Lemmas on decimal integers\<close>

lemma of_char_digit: "n < 10 \<Longrightarrow> (of_char (char_of (48 + n)) :: nat) = 48 + n"
  by simp

lemma dec_digits_is_digit: "list_all is_digit (dec_digits n)"
proof (induction n rule: dec_digits.induct)
  case (1 n)
  then show ?case
    by (cases "n < 10") (auto simp: dec_digits.simps [of n] is_digit_def)
qed

lemma dec_digits_not_Nil [simp]: "dec_digits n \<noteq> []"
  by (subst dec_digits.simps) simp

lemma digits_val_snoc: "digits_val (s @ [c]) = digits_val s * 10 + digit_val c"
  by (simp add: digits_val_def)

lemma digits_val_dec_digits [simp]: "digits_val (dec_digits n) = n"
proof (induction n rule: dec_digits.induct)
  case (1 n)
  then show ?case
    by (cases "n < 10")
      (auto simp: dec_digits.simps [of n] digits_val_snoc digit_val_def, auto simp: digits_val_def digit_val_def)
qed

lemma is_digit_not_sign: "is_digit c \<Longrightarrow> c \<noteq> CHR ''-'' \<and> c \<noteq> CHR ''+''"
  by (auto simp: is_digit_def)

lemma sign_split_digits: "list_all is_digit s \<Longrightarrow> sign_split s = (False, s)"
  by (cases s) (auto simp: sign_split_def dest: is_digit_not_sign)

lemma sign_split_minus: "sign_split (CHR ''-'' # s) = (True, s)"
  by (simp add: sign_split_def)

lemma parse_int_fmt_int:
  assumes "- (2 ^ 63) \<le> i" "i < 2 ^ 63" shows "parse_int (fmt_int i) = Some i"
proof (cases "i < 0")
  case True
  with assms show ?thesis
    by (simp add: parse_int_def fmt_int_def sign_split_minus dec_digits_is_digit)
next
  case False
  with assms show ?thesis
    by (simp add: parse_int_def fmt_int_def sign_split_digits dec_digits_is_digit)
qed

section \<open>Lemmas on binary encodings\<close>

lemma length_le_bytes [simp]: "length (le_bytes k n) = k"
  by (induction k arbitrary: n) auto

lemma length_be_bytes [simp]: "length (be_bytes k n) = k"
  by (simp add: be_bytes_def)

lemma le_val_le_bytes [codec_simps]: "le_val (le_bytes k n) = n mod 256 ^ k"
proof (induction k arbitrary: n)
  case (Suc k)
  then show ?case by (simp add: mod_mult2_eq [of n 256 "256 ^ k"] add.commute)
qed simp

lemma be_val_be_bytes [codec_simps]: "be_val (be_bytes k n) = n mod 256 ^ k"
  by (simp add: be_val_def be_bytes_def le_val_le_bytes)

lemma le_val_bound: "le_val bs < 256 ^ length bs"
proof (induction bs)
  case (Cons b bs)
  have "(of_char b :: nat) < 256" by (rule nat_of_char_less_256)
  moreover have "256 * le_val bs + 256 \<le> 256 * 256 ^ length bs" using Cons.IH by (simp add: Suc_le_eq [symmetric])
  ultimately show ?case unfolding le_val.simps length_Cons power_Suc by linarith
qed simp

lemma be_val_bound: "be_val bs < 256 ^ length bs"
  using le_val_bound [of "rev bs"] by (simp add: be_val_def)

section \<open>The interfaces\<close>

locale prefix_codec =
  fixes enc :: "'a \<Rightarrow> bytes" and dec :: "bytes \<Rightarrow> ('a \<times> bytes) option" and ok :: "'a \<Rightarrow> bool"
  assumes dec_enc: "ok x \<Longrightarrow> dec (enc x @ rest) = Some (x, rest)"
begin

lemma dec_many_concat:
  "list_all ok xs \<Longrightarrow> dec_many dec (length xs) (concat (map enc xs) @ rest) = Some (xs, rest)"
  by (induction xs) (auto simp: dec_enc)

lemma enc_inj:
  assumes "ok x" "ok y" "enc x @ r = enc y @ r'" shows "x = y \<and> r = r'"
proof -
  from assms(1) have "dec (enc x @ r) = Some (x, r)" by (rule dec_enc)
  with assms(3) dec_enc [OF assms(2), of r'] show ?thesis by simp
qed

end

locale invariant_system =
  fixes init :: "'s \<Rightarrow> bool" and step :: "'s \<Rightarrow> 's \<Rightarrow> bool" and inv :: "'s \<Rightarrow> bool"
  assumes inv_init: "init s \<Longrightarrow> inv s"
    and inv_step: "inv s \<Longrightarrow> step s t \<Longrightarrow> inv t"
begin

lemma inv_reachable: "reachable init step s \<Longrightarrow> inv s"
  by (induction rule: reachable.induct) (auto intro: inv_init inv_step)

lemma inv_star: "step\<^sup>*\<^sup>* s t \<Longrightarrow> inv s \<Longrightarrow> inv t"
  by (induction rule: rtranclp_induct) (auto intro: inv_step)

end

locale simulation_system = invariant_system init step inv
  for init :: "'s \<Rightarrow> bool" and step :: "'s \<Rightarrow> 's \<Rightarrow> bool" and inv :: "'s \<Rightarrow> bool" +
  fixes absf :: "'s \<Rightarrow> 'a" and ainit :: "'a \<Rightarrow> bool" and astep :: "'a \<Rightarrow> 'a \<Rightarrow> bool"
  assumes sim_init: "init s \<Longrightarrow> ainit (absf s)"
    and sim_step: "inv s \<Longrightarrow> step s t \<Longrightarrow> absf s = absf t \<or> astep (absf s) (absf t)"
begin

lemma sim_reachable: "reachable init step s \<Longrightarrow> reachable ainit astep (absf s)"
proof (induction rule: reachable.induct)
  case (reachable_step s t)
  then have "inv s" by (auto intro: inv_reachable)
  from sim_step [OF this reachable_step.hyps(2)] reachable_step.IH show ?case
    by (auto intro: reachable.reachable_step)
qed (auto intro: reachable.reachable_init sim_init)

end

end
