(* ===== verification/Go_Float.thy ===== *)
theory Go_Float
  imports Go_Prelude
begin

text \<open>
  Go's \<open>float64\<close>: the IEEE 754 binary64 bit pattern (\<open>math.Float64bits\<close>) as a 64-bit word, with
  what the sources use of it: the NaN test, the comparison \<open>==\<close>, the conversions from unsigned
  integers and to \<open>int64\<close>, \<open>strconv.ParseFloat(s, 64)\<close> and the verb \<open>%v\<close> of \<open>fmt\<close>.
  All of it computes, by exact arithmetic on naturals followed by rounding to nearest, ties to
  even. The conversion of an out-of-range or NaN value to \<open>int64\<close> is implementation-defined in Go;
  here it is what amd64 computes (the smallest \<open>int64\<close>).
\<close>

section \<open>Bit patterns\<close>

type_synonym float64 = "64 word"

definition f_neg :: "float64 \<Rightarrow> bool" where
  "f_neg x \<longleftrightarrow> 2 ^ 63 \<le> unat x"

definition f_exp :: "float64 \<Rightarrow> nat" where
  "f_exp x = (unat x div 2 ^ 52) mod 2 ^ 11"

definition f_frac :: "float64 \<Rightarrow> nat" where
  "f_frac x = unat x mod 2 ^ 52"

definition IsNaN :: "float64 \<Rightarrow> bool" where
  "IsNaN x \<longleftrightarrow> f_exp x = 2047 \<and> f_frac x \<noteq> 0"

definition IsInf :: "float64 \<Rightarrow> bool" where
  "IsInf x \<longleftrightarrow> f_exp x = 2047 \<and> f_frac x = 0"

definition NaN_bits :: float64 where
  "NaN_bits = 0x7FF8000000000001"

definition float_eq :: "float64 \<Rightarrow> float64 \<Rightarrow> bool" where
  "float_eq x y \<longleftrightarrow> \<not> IsNaN x \<and> \<not> IsNaN y \<and> (x = y \<or> (unat x mod 2 ^ 63 = 0 \<and> unat y mod 2 ^ 63 = 0))"

text \<open>A finite value is \<open>(-1)^neg * f_mant x * 2 ^ f_e2 x\<close>.\<close>

definition f_mant :: "float64 \<Rightarrow> nat" where
  "f_mant x = (if f_exp x = 0 then f_frac x else 2 ^ 52 + f_frac x)"

definition f_e2 :: "float64 \<Rightarrow> int" where
  "f_e2 x = int (if f_exp x = 0 then 1 else f_exp x) - 1075"

section \<open>Rounding a ratio of naturals\<close>

fun bitlen :: "nat \<Rightarrow> nat" where
  "bitlen n = (if n = 0 then 0 else Suc (bitlen (n div 2)))"

declare bitlen.simps [simp del]

definition scale_num :: "nat \<Rightarrow> int \<Rightarrow> nat" where
  "scale_num n e = (if 0 \<le> e then n else n * 2 ^ nat (- e))"

definition scale_den :: "nat \<Rightarrow> int \<Rightarrow> nat" where
  "scale_den d e = (if 0 \<le> e then d * 2 ^ nat e else d)"

text \<open>The largest \<open>k\<close> with \<open>2^k \<le> n/d\<close>, for positive \<open>n\<close> and \<open>d\<close>.\<close>

definition log2_ratio :: "nat \<Rightarrow> nat \<Rightarrow> int" where
  "log2_ratio n d =
     (let k = int (bitlen n) - int (bitlen d) in if scale_den d k \<le> scale_num n k then k else k - 1)"

definition half_even :: "nat \<Rightarrow> nat \<Rightarrow> nat" where
  "half_even n d =
     (let q = n div d; r = n mod d in if d < 2 * r \<or> (2 * r = d \<and> odd q) then Suc q else q)"

text \<open>
  The magnitude bits of \<open>n/d\<close> rounded: with the unit \<open>2^e\<close> in the last place the mantissa is
  \<open>m \<le> 2^53\<close>, and \<open>(e + 1074) * 2^52 + m\<close> is the pattern for subnormal, normal and carried mantissas
  alike. From \<open>2047 * 2^52\<close> on it is an overflow.
\<close>

definition round_bits :: "nat \<Rightarrow> nat \<Rightarrow> nat" where
  "round_bits n d =
     (if n = 0 then 0
      else let e = max (log2_ratio n d - 52) (- 1074)
           in nat (e + 1074) * 2 ^ 52 + half_even (scale_num n e) (scale_den d e))"

definition mk_float :: "bool \<Rightarrow> nat \<Rightarrow> float64" where
  "mk_float neg b = word_of_nat (b + (if neg then 2 ^ 63 else 0))"

definition float_of_ratio :: "bool \<Rightarrow> nat \<Rightarrow> nat \<Rightarrow> float64 option" where
  "float_of_ratio neg n d =
     (if round_bits n d < 2047 * 2 ^ 52 then Some (mk_float neg (round_bits n d)) else None)"

definition nat_bits :: "nat \<Rightarrow> nat" where
  "nat_bits n = round_bits n 1"

text \<open>\<open>float64(n)\<close>, and the quotient of two naturals that \<open>float64\<close> represents exactly.\<close>

definition float64_of_nat :: "nat \<Rightarrow> float64" where
  "float64_of_nat n = mk_float False (nat_bits n)"

definition float64_quot :: "nat \<Rightarrow> nat \<Rightarrow> float64" where
  "float64_quot n d = mk_float False (round_bits n d)"

definition float64_of_int :: "int \<Rightarrow> float64" where
  "float64_of_int i = mk_float (i < 0) (nat_bits (nat \<bar>i\<bar>))"

definition f_trunc :: "float64 \<Rightarrow> nat" where
  "f_trunc x = (if 0 \<le> f_e2 x then f_mant x * 2 ^ nat (f_e2 x) else f_mant x div 2 ^ nat (- f_e2 x))"

definition int64_of_float :: "float64 \<Rightarrow> int64" where
  "int64_of_float x =
     (let v = (if f_neg x then - int (f_trunc x) else int (f_trunc x))
      in if f_exp x = 2047 \<or> v < - (2 ^ 63) \<or> 2 ^ 63 \<le> v then - (2 ^ 63) else v)"

section \<open>strconv.ParseFloat(s, 64)\<close>

definition lower :: "string \<Rightarrow> string" where
  "lower s = map (\<lambda>c. let n = of_char c :: nat in if 65 \<le> n \<and> n \<le> 90 then char_of (n + 32) else c) s"

definition special :: "string \<Rightarrow> float64 option" where
  "special s =
     (if lower s \<in> {''+inf'', ''+infinity'', ''inf'', ''infinity''} then Some (mk_float False (2047 * 2 ^ 52))
      else if lower s \<in> {''-inf'', ''-infinity''} then Some (mk_float True (2047 * 2 ^ 52))
      else if lower s = ''nan'' then Some NaN_bits else None)"

text \<open>The exponent part; its value stops growing at 10000, as in \<open>readFloat\<close>.\<close>

definition exp_val :: "string \<Rightarrow> nat" where
  "exp_val ds = foldl (\<lambda>e c. if e < 10000 then e * 10 + digit_val c else e) 0 ds"

definition scan_exp :: "string \<Rightarrow> int option" where
  "scan_exp s = (case s of [] \<Rightarrow> Some 0
     | c # cs \<Rightarrow>
         if c = CHR ''e'' \<or> c = CHR ''E''
         then let (neg, ds) = sign_split cs
              in if ds = [] \<or> \<not> list_all is_digit ds then None
                 else Some (if neg then - int (exp_val ds) else int (exp_val ds))
         else None)"

text \<open>The digits before and after the decimal point and the exponent, or None on a syntax error.\<close>

definition read_decimal :: "string \<Rightarrow> (string \<times> string \<times> int) option" where
  "read_decimal s =
     (let ip = takeWhile is_digit s; r = dropWhile is_digit s;
          fp = (case r of c # cs \<Rightarrow> if c = CHR ''.'' then takeWhile is_digit cs else [] | [] \<Rightarrow> []);
          r' = (case r of c # cs \<Rightarrow> if c = CHR ''.'' then dropWhile is_digit cs else r | [] \<Rightarrow> [])
      in if ip @ fp = [] then None
         else (case scan_exp r' of None \<Rightarrow> None | Some e \<Rightarrow> Some (ip, fp, e)))"

definition ParseFloat :: "string \<Rightarrow> float64 option" where
  "ParseFloat s =
     (case special s of Some f \<Rightarrow> Some f
      | None \<Rightarrow>
          (let (neg, ds) = sign_split s
           in case read_decimal ds of None \<Rightarrow> None
              | Some (ip, fp, e) \<Rightarrow>
                  (let m = digits_val (ip @ fp); x = e - int (length fp)
                   in if 0 \<le> x then float_of_ratio neg (m * 10 ^ nat x) 1
                      else float_of_ratio neg m (10 ^ nat (- x)))))"

section \<open>The verb \<open>%v\<close> of package fmt\<close>

function dexp_up :: "nat \<Rightarrow> nat \<Rightarrow> nat" where
  "dexp_up n d = (if d = 0 \<or> n < d then 0 else Suc (dexp_up n (d * 10)))"
  by pat_completeness auto
termination
  by (relation "measure (\<lambda>(n, d). Suc n - d)") auto

function dexp_down :: "nat \<Rightarrow> nat \<Rightarrow> nat" where
  "dexp_down n d = (if n = 0 \<or> d \<le> n * 10 then 0 else Suc (dexp_down (n * 10) d))"
  by pat_completeness auto
termination
  by (relation "measure (\<lambda>(n, d). d - n)") auto

declare dexp_up.simps [simp del] dexp_down.simps [simp del]

text \<open>The decimal exponent of \<open>n/d\<close>: \<open>10^(dp-1) \<le> n/d < 10^dp\<close>.\<close>

definition dec_exp :: "nat \<Rightarrow> nat \<Rightarrow> int" where
  "dec_exp n d = (if d \<le> n then int (dexp_up n d) else - int (dexp_down n d))"

text \<open>
  The shortest decimal that reads back as the value: \<open>n/d\<close> is the value, \<open>lo/d\<close> and \<open>hi/d\<close> the ends
  of its rounding interval (\<open>incl\<close>: they belong to it). With \<open>k\<close> digits the candidates are the
  value rounded down and up; the first \<open>k\<close> for which one lies in the interval wins, the closer
  candidate if both do, and at seventeen digits the closest.
\<close>

definition unit_num :: "int \<Rightarrow> nat \<Rightarrow> nat" where
  "unit_num p n = (if 0 \<le> p then n else n * 10 ^ nat (- p))"

definition unit_den :: "int \<Rightarrow> nat \<Rightarrow> nat" where
  "unit_den p d = (if 0 \<le> p then d * 10 ^ nat p else d)"

definition try_unit :: "int \<Rightarrow> nat \<Rightarrow> nat \<Rightarrow> nat \<Rightarrow> nat \<Rightarrow> bool \<Rightarrow> nat option" where
  "try_unit p n d lo hi incl =
     (let n' = unit_num p n; d' = unit_den p d; q = n' div d';
          okdown = (unit_num p lo < q * d' \<or> incl \<and> unit_num p lo = q * d');
          okup = (Suc q * d' < unit_num p hi \<or> incl \<and> Suc q * d' = unit_num p hi)
      in if okdown \<and> okup then Some (half_even n' d')
         else if okdown then Some q
         else if okup then Some (Suc q) else None)"

primrec shortest :: "nat \<Rightarrow> int \<Rightarrow> nat \<Rightarrow> nat \<Rightarrow> nat \<Rightarrow> nat \<Rightarrow> bool \<Rightarrow> nat \<times> int" where
  "shortest 0 p n d lo hi incl = (half_even (unit_num p n) (unit_den p d), p)"
| "shortest (Suc k) p n d lo hi incl =
     (case try_unit p n d lo hi incl of Some q \<Rightarrow> (q, p) | None \<Rightarrow> shortest k (p - 1) n d lo hi incl)"

definition shortest_digits :: "float64 \<Rightarrow> string \<times> int" where
  "shortest_digits x =
     (let m = f_mant x; e = f_e2 x - 2;
          up = (\<lambda>v. if 0 \<le> e then v * 2 ^ nat e else v); d = (if 0 \<le> e then 1 else 2 ^ nat (- e));
          n = up (4 * m); lo = up (if m = 2 ^ 52 \<and> 1 < f_exp x then 4 * m - 1 else 4 * m - 2);
          hi = up (4 * m + 2);
          (q, p) = shortest 16 (dec_exp n d - 1) n d lo hi (even m)
      in (trim_right ''0'' (dec_digits q), p + int (length (dec_digits q))))"

definition fmt_e :: "string \<Rightarrow> int \<Rightarrow> string" where
  "fmt_e ds ex =
     [hd ds] @ (if tl ds = [] then [] else CHR ''.'' # tl ds) @ ''e'' @ (if ex < 0 then ''-'' else ''+'')
     @ (let a = nat (abs ex) in if a < 10 then CHR ''0'' # dec_digits a else dec_digits a)"

definition fmt_f :: "string \<Rightarrow> int \<Rightarrow> string" where
  "fmt_f ds dp =
     (if 0 < dp then take (nat dp) ds @ replicate (nat dp - length ds) CHR ''0'' else ''0'')
     @ (let rest = (if 0 < dp then drop (nat dp) ds else replicate (nat (- dp)) CHR ''0'' @ ds)
        in if rest = [] then [] else CHR ''.'' # rest)"

definition fmt_float :: "float64 \<Rightarrow> string" where
  "fmt_float x =
     (if IsNaN x then ''NaN''
      else if IsInf x then (if f_neg x then ''-Inf'' else ''+Inf'')
      else (if f_neg x then ''-'' else []) @
        (if f_mant x = 0 then ''0''
         else let (ds, dp) = shortest_digits x; ex = dp - 1
              in if ex < - 4 \<or> 6 \<le> ex then fmt_e ds ex else fmt_f ds dp))"

section \<open>Bit lengths and exact integers\<close>

lemma bitlen_0 [simp]: "bitlen 0 = 0"
  by (simp add: bitlen.simps)

lemma bitlen_1 [simp]: "bitlen (Suc 0) = Suc 0"
  by (simp add: bitlen.simps)

lemma bitlen_bounds: "0 < n \<Longrightarrow> 2 ^ (bitlen n - 1) \<le> n \<and> n < 2 ^ bitlen n"
proof (induction n rule: bitlen.induct)
  case (1 n)
  show ?case
  proof (cases "n = 1")
    case False
    with 1 have n: "0 < n div 2" "2 ^ (bitlen (n div 2) - 1) \<le> n div 2" "n div 2 < 2 ^ bitlen (n div 2)"
      by auto
    have b: "bitlen n = Suc (bitlen (n div 2))" using 1 by (simp add: bitlen.simps [of n])
    have "0 < bitlen (n div 2)" using n(1) by (simp add: bitlen.simps)
    then have "(2::nat) ^ bitlen (n div 2) = 2 * 2 ^ (bitlen (n div 2) - 1)"
      by (cases "bitlen (n div 2)") auto
    with n b show ?thesis by (simp add: less_eq_div_iff_mult_less_eq div_less_iff_less_mult)
  qed simp
qed

lemma bitlen_pos: "0 < n \<Longrightarrow> 0 < bitlen n"
  by (simp add: bitlen.simps)

lemma bitlen_le: "n < 2 ^ k \<Longrightarrow> bitlen n \<le> k"
proof (cases "n = 0")
  case False
  assume "n < 2 ^ k"
  with False bitlen_bounds [of n] have "(2::nat) ^ (bitlen n - 1) < 2 ^ k" by linarith
  then have "bitlen n - 1 < k" by simp
  then show ?thesis by simp
qed simp

lemma round_bits_1 [simp]: "round_bits n (Suc 0) = nat_bits n"
  by (simp add: nat_bits_def)

lemma log2_ratio_nat: "0 < n \<Longrightarrow> log2_ratio n 1 = int (bitlen n) - 1"
  using bitlen_bounds [of n] bitlen_pos [of n]
  by (auto simp: log2_ratio_def Let_def scale_den_def scale_num_def nat_diff_distrib)

text \<open>An integer below \<open>2^53\<close> is represented exactly: its mantissa is the shifted integer.\<close>

lemma round_bits_nat:
  assumes "0 < n" "n < 2 ^ 53"
  shows "nat_bits n = (bitlen n + 1021) * 2 ^ 52 + n * 2 ^ (53 - bitlen n)"
proof -
  have b: "0 < bitlen n" "bitlen n \<le> 53" using assms by (auto intro: bitlen_pos bitlen_le)
  have e: "max (log2_ratio n 1 - 52) (- 1074) = int (bitlen n) - 53"
    using b unfolding log2_ratio_nat [OF assms(1)] by simp
  have "half_even (scale_num n (int (bitlen n) - 53)) (scale_den 1 (int (bitlen n) - 53)) = n * 2 ^ (53 - bitlen n)"
    using b by (auto simp: half_even_def scale_num_def scale_den_def nat_diff_distrib Let_def)
  moreover have "nat (int (bitlen n) - 53 + 1074) = bitlen n + 1021" by simp
  ultimately show ?thesis using assms(1) unfolding nat_bits_def round_bits_def e by (simp add: Let_def)
qed

lemma mantissa_bounds:
  assumes "0 < n" "n < 2 ^ 53"
  shows "2 ^ 52 \<le> n * 2 ^ (53 - bitlen n)" "n * 2 ^ (53 - bitlen n) < 2 ^ 53"
proof -
  have b: "0 < bitlen n" "bitlen n \<le> 53" using assms by (auto intro: bitlen_pos bitlen_le)
  have "(2::nat) ^ 52 = 2 ^ (bitlen n - 1) * 2 ^ (53 - bitlen n)"
    using b by (simp flip: power_add)
  also have "\<dots> \<le> n * 2 ^ (53 - bitlen n)"
    using bitlen_bounds [OF assms(1)] by simp
  finally show "2 ^ 52 \<le> n * 2 ^ (53 - bitlen n)" .
  have "n * 2 ^ (53 - bitlen n) < 2 ^ bitlen n * 2 ^ (53 - bitlen n)"
    using bitlen_bounds [OF assms(1)] by simp
  also have "\<dots> = 2 ^ 53" using b by (simp flip: power_add)
  finally show "n * 2 ^ (53 - bitlen n) < 2 ^ 53" .
qed

lemma unat_mk_float: "b < 2 ^ 63 \<Longrightarrow> unat (mk_float neg b) = b + (if neg then 2 ^ 63 else 0)"
  by (simp add: mk_float_def unat_of_nat del: of_nat_add)

lemma mk_float_fields:
  assumes "m < 2 ^ 52" "E < 2 ^ 11"
  shows "f_exp (mk_float neg (E * 2 ^ 52 + m)) = E" "f_frac (mk_float neg (E * 2 ^ 52 + m)) = m"
    "f_neg (mk_float neg (E * 2 ^ 52 + m)) = neg"
proof -
  have b: "E * 2 ^ 52 + m < 2 ^ 63" using assms by auto
  have u: "unat (mk_float neg (E * 2 ^ 52 + m)) = (if neg then E + 2 ^ 11 else E) * 2 ^ 52 + m"
    using b by (simp add: unat_mk_float)
  have d: "(E' * 2 ^ 52 + m) div 2 ^ 52 = E'" for E' using assms(1) by simp
  show "f_exp (mk_float neg (E * 2 ^ 52 + m)) = E"
    unfolding f_exp_def u d using assms(2) by simp
  show "f_frac (mk_float neg (E * 2 ^ 52 + m)) = m"
    unfolding f_frac_def u using assms(1) by simp
  show "f_neg (mk_float neg (E * 2 ^ 52 + m)) = neg"
    using b by (simp add: f_neg_def unat_mk_float)
qed

lemma mk_float_nat_fields:
  assumes "0 < n" "n < 2 ^ 53"
  shows "f_exp (mk_float neg (nat_bits n)) = bitlen n + 1022"
    "f_frac (mk_float neg (nat_bits n)) = n * 2 ^ (53 - bitlen n) - 2 ^ 52"
    "f_neg (mk_float neg (nat_bits n)) = neg"
proof -
  have b: "bitlen n \<le> 53" using assms by (auto intro: bitlen_le)
  have eq: "nat_bits n = (bitlen n + 1022) * 2 ^ 52 + (n * 2 ^ (53 - bitlen n) - 2 ^ 52)"
    using mantissa_bounds [OF assms] by (simp add: round_bits_nat [OF assms])
  have "n * 2 ^ (53 - bitlen n) - 2 ^ 52 < 2 ^ 52" "bitlen n + 1022 < 2 ^ 11"
    using mantissa_bounds [OF assms] b by simp_all
  from mk_float_fields [OF this] show "f_exp (mk_float neg (nat_bits n)) = bitlen n + 1022"
    "f_frac (mk_float neg (nat_bits n)) = n * 2 ^ (53 - bitlen n) - 2 ^ 52"
    "f_neg (mk_float neg (nat_bits n)) = neg"
    unfolding eq .
qed

lemma f_trunc_nat:
  assumes "n < 2 ^ 53" shows "f_trunc (mk_float neg (nat_bits n)) = n"
proof (cases "n = 0")
  case True
  have "mk_float neg 0 = mk_float neg (0 * 2 ^ 52 + 0)" by simp
  then have "f_exp (mk_float neg 0) = 0" "f_frac (mk_float neg 0) = 0"
    using mk_float_fields [of 0 0 neg] by simp_all
  then show ?thesis using True by (simp add: nat_bits_def round_bits_def f_trunc_def f_e2_def f_mant_def del: round_bits_1)
next
  case False
  then have n: "0 < n" by simp
  have b: "bitlen n \<le> 53" using assms by (rule bitlen_le)
  have m: "f_mant (mk_float neg (nat_bits n)) = n * 2 ^ (53 - bitlen n)"
    using mantissa_bounds [OF n assms] mk_float_nat_fields [OF n assms] by (simp add: f_mant_def)
  have e: "f_e2 (mk_float neg (nat_bits n)) = int (bitlen n) - 53"
    using mk_float_nat_fields(1) [OF n assms] by (simp add: f_e2_def)
  show ?thesis
    using b by (auto simp: f_trunc_def m e nat_diff_distrib)
qed

lemma round_bits_nat_bound:
  assumes "n < 2 ^ 53" shows "nat_bits n < 2047 * 2 ^ 52"
proof (cases "n = 0")
  case False
  then have n: "0 < n" by simp
  have "bitlen n \<le> 53" using assms by (rule bitlen_le)
  then show ?thesis
    using mantissa_bounds(2) [OF n assms] by (simp add: round_bits_nat [OF n assms])
qed (simp add: nat_bits_def round_bits_def del: round_bits_1)

lemma f_exp_nat:
  assumes "n < 2 ^ 53" shows "f_exp (mk_float neg (nat_bits n)) \<noteq> 2047"
proof (cases "n = 0")
  case False
  then show ?thesis using assms bitlen_le [OF assms] mk_float_nat_fields(1) [of n neg] by simp
next
  case True
  then show ?thesis using mk_float_fields(1) [of 0 0 neg] by (simp add: nat_bits_def round_bits_def del: round_bits_1)
qed

lemma int64_of_float_int:
  assumes "n < 2 ^ 53" "0 < n \<or> \<not> neg"
  shows "int64_of_float (mk_float neg (nat_bits n)) = (if neg then - int n else int n)"
proof -
  have s: "f_neg (mk_float neg (nat_bits n)) = neg"
    using assms mk_float_nat_fields(3) [of n neg] mk_float_fields(3) [of 0 0 neg]
    by (cases "n = 0") (auto simp: nat_bits_def round_bits_def del: round_bits_1)
  show ?thesis
    using assms by (auto simp: int64_of_float_def s f_trunc_nat f_exp_nat Let_def)
qed

lemma IsNaN_mk_nat: "n < 2 ^ 53 \<Longrightarrow> \<not> IsNaN (mk_float neg (nat_bits n))"
  by (simp add: IsNaN_def f_exp_nat)

section \<open>Reading decimal integers\<close>

lemma lower_digits: "list_all is_digit s \<Longrightarrow> lower s = s"
  by (induction s) (auto simp: lower_def is_digit_def Let_def)

lemma special_digits:
  assumes "list_all is_digit s" "s \<noteq> []" shows "special s = None" "special (CHR ''-'' # s) = None"
proof -
  obtain c cs where s: "s = c # cs" using assms(2) by (cases s) auto
  have "is_digit c" using assms(1) s by simp
  then have c: "c \<noteq> CHR ''+''" "c \<noteq> CHR ''i''" "c \<noteq> CHR ''n''" "c \<noteq> CHR ''-''"
    by (auto simp: is_digit_def)
  have l: "lower s = c # cs" using lower_digits [OF assms(1)] s by simp
  have "lower (CHR ''-'' # s) = CHR ''-'' # lower s" by (simp add: lower_def)
  then have l': "lower (CHR ''-'' # s) = CHR ''-'' # c # cs" by (simp add: l)
  show "special s = None" unfolding special_def l using c by simp
  show "special (CHR ''-'' # s) = None" unfolding special_def l' using c by simp
qed

lemma takeWhile_digits: "list_all is_digit s \<Longrightarrow> takeWhile is_digit s = s" "list_all is_digit s \<Longrightarrow> dropWhile is_digit s = []"
  by (auto simp: list_all_iff takeWhile_eq_all_conv)

lemma read_decimal_digits: "list_all is_digit s \<Longrightarrow> s \<noteq> [] \<Longrightarrow> read_decimal s = Some (s, [], 0)"
  by (simp add: read_decimal_def takeWhile_digits scan_exp_def Let_def)

lemma ParseFloat_fmt_int:
  assumes "\<bar>i\<bar> < 2 ^ 53"
  shows "ParseFloat (fmt_int i) = Some (mk_float (i < 0) (nat_bits (nat \<bar>i\<bar>)))"
proof -
  have b: "nat_bits (nat \<bar>i\<bar>) < 2047 * 2 ^ 52" using assms by (intro round_bits_nat_bound) simp
  show ?thesis
  proof (cases "i < 0")
    case True
    then show ?thesis
      using b by (simp add: ParseFloat_def fmt_int_def special_digits sign_split_minus dec_digits_is_digit
          read_decimal_digits float_of_ratio_def)
  next
    case False
    then show ?thesis
      using b by (simp add: ParseFloat_def fmt_int_def special_digits sign_split_digits dec_digits_is_digit
          read_decimal_digits float_of_ratio_def)
  qed
qed

text \<open>A timestamp below \<open>2^53\<close> survives printing, reading as a float and conversion to \<open>int64\<close>.\<close>

lemma ParseFloat_int_roundtrip:
  assumes "\<bar>i\<bar> < 2 ^ 53"
  shows "\<exists>f. ParseFloat (fmt_int i) = Some f \<and> \<not> IsNaN f \<and> int64_of_float f = i"
proof -
  have n: "nat \<bar>i\<bar> < 2 ^ 53" using assms by simp
  have "int64_of_float (mk_float (i < 0) (nat_bits (nat \<bar>i\<bar>))) = i"
    using n by (subst int64_of_float_int) auto
  then show ?thesis using ParseFloat_fmt_int [OF assms] IsNaN_mk_nat [OF n] by blast
qed

end
