(* ===== verification/Go_Float_Text.thy ===== *)
theory Go_Float_Text
  imports Go_Float Complex_Main
begin

text \<open>
  Every float64 that is not a NaN reads back from its \<open>%v\<close> text: \<open>ParseFloat (fmt_float x) = Some x\<close>.
  The proof is in real arithmetic: the printed decimal lies in the rounding interval of the value
  (\<open>in_interval\<close>), and every ratio in that interval rounds to the value's bit pattern.
\<close>

section \<open>Values and rounding intervals\<close>

definition f_val :: "float64 \<Rightarrow> real" where
  "f_val x = real (f_mant x) * 2 powi f_e2 x"

definition in_interval :: "nat \<Rightarrow> int \<Rightarrow> bool \<Rightarrow> real \<Rightarrow> bool" where
  "in_interval m e narrow v \<longleftrightarrow>
     (let lo = (if narrow then real (4 * m) - 1 else real (4 * m) - 2); w = v * 4 * 2 powi (- e)
      in (lo < w \<or> (even m \<and> lo = w)) \<and> (w < real (4 * m) + 2 \<or> (even m \<and> w = real (4 * m) + 2)))"

section \<open>Rounding a ratio inside the interval\<close>

lemma scale_ratio:
  assumes "0 < d" shows "real (scale_num n e) / real (scale_den d e) = real n / real d * 2 powi (- e)"
  using assms by (auto simp: scale_num_def scale_den_def power_int_def field_simps)

lemma scale_den_pos: "0 < d \<Longrightarrow> 0 < scale_den d e"
  by (simp add: scale_den_def)

lemma half_even_unique:
  assumes d: "0 < d" and lo: "2 * real q - 1 < 2 * (real n / real d) \<or> (even q \<and> 2 * real q - 1 = 2 * (real n / real d))"
    and hi: "2 * (real n / real d) < 2 * real q + 1 \<or> (even q \<and> 2 * (real n / real d) = 2 * real q + 1)"
  shows "half_even n d = q"
proof -
  have lo': "2 * q * d < 2 * n + d \<or> (even q \<and> 2 * q * d = 2 * n + d)"
  proof -
    have "2 * real q - 1 < 2 * (real n / real d) \<longleftrightarrow> real (2 * q * d) < real (2 * n + d)"
      "2 * real q - 1 = 2 * (real n / real d) \<longleftrightarrow> real (2 * q * d) = real (2 * n + d)"
      using d by (auto simp: field_simps)
    then show ?thesis using lo by (simp only: of_nat_less_iff of_nat_eq_iff)
  qed
  have hi': "2 * n < 2 * q * d + d \<or> (even q \<and> 2 * n = 2 * q * d + d)"
  proof -
    have "2 * (real n / real d) < 2 * real q + 1 \<longleftrightarrow> real (2 * n) < real (2 * q * d + d)"
      "2 * (real n / real d) = 2 * real q + 1 \<longleftrightarrow> real (2 * n) = real (2 * q * d + d)"
      using d by (auto simp: field_simps)
    then show ?thesis using hi by (simp only: of_nat_less_iff of_nat_eq_iff)
  qed
  define Q where "Q = n div d"
  define r where "r = n mod d"
  have n: "n = Q * d + r" and r: "r < d" using d by (simp_all add: Q_def r_def)
  have "q \<le> Suc Q"
  proof (rule ccontr)
    assume "\<not> q \<le> Suc Q"
    then have "(Q + 2) * d \<le> q * d" by (intro mult_right_mono) auto
    with lo' n r show False by (auto simp: algebra_simps)
  qed
  moreover have "Q \<le> q"
  proof (rule ccontr)
    assume "\<not> Q \<le> q"
    then have "(q + 1) * d \<le> Q * d" by (intro mult_right_mono) auto
    with hi' n r d show False by (auto simp: algebra_simps)
  qed
  ultimately consider "q = Q" | "q = Suc Q" by linarith
  then show ?thesis
  proof cases
    case 1
    then have "2 * r < d \<or> (even q \<and> 2 * r = d)" using hi' n by (auto simp: algebra_simps)
    then show ?thesis using 1 by (auto simp: half_even_def Let_def Q_def [symmetric] r_def [symmetric])
  next
    case 2
    then have "d < 2 * r \<or> (even q \<and> d = 2 * r)" using lo' n by (auto simp: algebra_simps)
    then show ?thesis using 2 by (auto simp: half_even_def Let_def Q_def [symmetric] r_def [symmetric])
  qed
qed

lemma powi_less_iff: "(2::real) powi i < 2 powi j \<longleftrightarrow> i < j"
  using power_int_strict_increasing [of i j "2::real"] power_int_increasing [of j i "2::real"] by fastforce

lemma powi_le_iff: "(2::real) powi i \<le> 2 powi j \<longleftrightarrow> i \<le> j"
  by (simp add: powi_less_iff not_less [symmetric])

lemma powi_div: "(2::real) powi i / 2 powi j = 2 powi (i - j)"
  by (simp add: power_int_diff)

lemma bitlen_real: "0 < n \<Longrightarrow> (2::real) powi (int (bitlen n) - 1) \<le> real n \<and> real n < 2 powi int (bitlen n)"
proof -
  assume n: "0 < n"
  from bitlen_bounds [OF n] have "real (2 ^ (bitlen n - 1)) \<le> real n" "real n < real (2 ^ bitlen n)"
    by (simp_all only: of_nat_le_iff of_nat_less_iff)
  moreover have "(2::real) powi (int (bitlen n) - 1) = 2 ^ (bitlen n - 1)"
    using bitlen_pos [OF n] by (simp add: power_int_def nat_diff_distrib)
  ultimately show ?thesis by simp
qed

lemma log2_ratio_bounds:
  assumes n: "0 < n" and d: "0 < d"
  shows "2 powi log2_ratio n d \<le> real n / real d" "real n / real d < 2 powi (log2_ratio n d + 1)"
proof -
  define k where "k = int (bitlen n) - int (bitlen d)"
  have up: "real n / real d < 2 powi (k + 1)"
  proof -
    have "real n < 2 powi int (bitlen n)" "2 powi (int (bitlen d) - 1) \<le> real d"
      using bitlen_real [OF n] bitlen_real [OF d] by auto
    then have "real n / real d < 2 powi int (bitlen n) / 2 powi (int (bitlen d) - 1)"
      using d by (intro frac_less) auto
    also have "\<dots> = 2 powi (k + 1)" unfolding powi_div by (simp add: k_def algebra_simps)
    finally show ?thesis .
  qed
  have lo: "2 powi (k - 1) < real n / real d"
  proof -
    have "2 powi (int (bitlen n) - 1) \<le> real n" "real d < 2 powi int (bitlen d)"
      using bitlen_real [OF n] bitlen_real [OF d] by auto
    then have "2 powi (int (bitlen n) - 1) / 2 powi int (bitlen d) < real n / real d"
      using d by (intro frac_less2) auto
    moreover have "2 powi (int (bitlen n) - 1) / (2::real) powi int (bitlen d) = 2 powi (k - 1)"
      unfolding powi_div by (simp add: k_def algebra_simps)
    ultimately show ?thesis by simp
  qed
  have t: "scale_den d k \<le> scale_num n k \<longleftrightarrow> 2 powi k \<le> real n / real d"
  proof -
    have "scale_den d k \<le> scale_num n k \<longleftrightarrow> 1 \<le> real (scale_num n k) / real (scale_den d k)"
      using scale_den_pos [OF d, of k] by (simp add: field_simps)
    also have "\<dots> \<longleftrightarrow> 1 \<le> real n / real d * 2 powi (- k)" by (simp only: scale_ratio [OF d])
    also have "\<dots> \<longleftrightarrow> 2 powi k \<le> real n / real d"
      using d by (simp add: power_int_minus divide_inverse [symmetric] le_divide_eq mult.commute)
    finally show ?thesis .
  qed
  show "2 powi log2_ratio n d \<le> real n / real d" "real n / real d < 2 powi (log2_ratio n d + 1)"
    using up lo t by (auto simp: log2_ratio_def k_def [symmetric] Let_def)
qed

lemma log2_ratio_unique:
  assumes "0 < n" "0 < d" "2 powi k \<le> real n / real d" "real n / real d < 2 powi (k + 1)"
  shows "log2_ratio n d = k"
proof -
  have "2 powi k < (2::real) powi (log2_ratio n d + 1)" "2 powi log2_ratio n d < (2::real) powi (k + 1)"
    using log2_ratio_bounds [OF assms(1,2)] assms(3,4) by linarith+
  then show ?thesis by (simp add: powi_less_iff)
qed

text \<open>
  Rounding: with mantissa \<open>m\<close> and exponent \<open>e\<close> in canonical form, every ratio in the interval has
  the bit pattern \<open>(e + 1074) * 2^52 + m\<close>. Just below a power of two the unit is halved
  (\<open>narrow\<close>), and the rounded mantissa \<open>2 * m\<close> carries into the same pattern.
\<close>

definition canonical :: "nat \<Rightarrow> int \<Rightarrow> bool" where
  "canonical m e \<longleftrightarrow> 0 < m \<and> m < 2 ^ 53 \<and> - 1074 \<le> e \<and> (m < 2 ^ 52 \<longrightarrow> e = - 1074)"

lemma round_bits_at:
  assumes n: "0 < n" and d: "0 < d" and e: "max (log2_ratio n d - 52) (- 1074) = e"
    and lo: "2 * real q - 1 < 2 * (real n / real d * 2 powi (- e)) \<or> (even q \<and> 2 * real q - 1 = 2 * (real n / real d * 2 powi (- e)))"
    and hi: "2 * (real n / real d * 2 powi (- e)) < 2 * real q + 1 \<or> (even q \<and> 2 * (real n / real d * 2 powi (- e)) = 2 * real q + 1)"
  shows "round_bits n d = nat (e + 1074) * 2 ^ 52 + q"
proof -
  have "half_even (scale_num n e) (scale_den d e) = q"
    using lo hi by (intro half_even_unique) (simp_all only: scale_den_pos [OF d] scale_ratio [OF d])
  then show ?thesis using n unfolding round_bits_def e by (simp add: Let_def)
qed

lemma powi_scale: "0 < w * 2 powi (- e) \<Longrightarrow> (w::real) * 2 powi (- e) * 2 powi e = w"
  by (simp add: power_int_minus)

lemma round_bits_interval:
  assumes c: "canonical m e" and n: "0 < n" and d: "0 < d"
    and v: "in_interval m e (m = 2 ^ 52 \<and> - 1074 < e) (real n / real d)"
  shows "round_bits n d = nat (e + 1074) * 2 ^ 52 + m"
proof -
  define w where "w = real n / real d * 2 powi (- e)"
  have nd: "real n / real d = w * 2 powi e" by (simp add: w_def power_int_minus)
  have w0: "0 < w" using n d by (simp add: w_def)
  let ?narrow = "m = 2 ^ 52 \<and> - 1074 < e"
  have lo: "(if ?narrow then 4 * real m - 1 else 4 * real m - 2) < 4 * w \<or>
      even m \<and> (if ?narrow then 4 * real m - 1 else 4 * real m - 2) = 4 * w"
    and hi: "4 * w < 4 * real m + 2 \<or> even m \<and> 4 * w = 4 * real m + 2"
    using v by (auto simp: in_interval_def Let_def w_def mult.commute mult.left_commute)
  have m53: "m + 1 \<le> 2 ^ 53" using c by (simp add: canonical_def)
  then have "real (m + 1) \<le> real (2 ^ 53)" by (simp only: of_nat_le_iff)
  then have w53: "w < 2 ^ 53" using hi by auto
  show ?thesis
  proof (cases "2 ^ 52 \<le> w \<or> e = - 1074")
    case True
    have "max (log2_ratio n d - 52) (- 1074) = e"
    proof (cases "2 ^ 52 \<le> w")
      case True
      have "log2_ratio n d = 52 + e"
      proof (rule log2_ratio_unique [OF n d])
        have "(2::real) powi (52 + e) = 2 ^ 52 * 2 powi e" by (simp add: power_int_add)
        then show "2 powi (52 + e) \<le> real n / real d" using True by (simp add: nd)
        have "(2::real) powi (52 + e + 1) = 2 ^ 53 * 2 powi e" by (simp add: power_int_add)
        then show "real n / real d < 2 powi (52 + e + 1)" using w53 by (simp add: nd)
      qed
      then show ?thesis using c by (simp add: canonical_def)
    next
      case False
      then have e: "e = - 1074" using True by simp
      have "2 powi log2_ratio n d < (2::real) powi (52 + e)"
      proof -
        have "2 powi log2_ratio n d \<le> w * 2 powi e" using log2_ratio_bounds(1) [OF n d] by (simp add: nd)
        also have "\<dots> < 2 ^ 52 * 2 powi e" using False by simp
        also have "\<dots> = 2 powi (52 + e)" by (simp add: power_int_add)
        finally show ?thesis .
      qed
      then have "log2_ratio n d < 52 + e" by (simp only: powi_less_iff)
      then show ?thesis using e by simp
    qed
    then show ?thesis
    proof (rule round_bits_at [OF n d])
      show "2 * real m - 1 < 2 * (real n / real d * 2 powi (- e)) \<or> even m \<and> 2 * real m - 1 = 2 * (real n / real d * 2 powi (- e))"
        unfolding w_def [symmetric] using lo by (auto split: if_splits)
      show "2 * (real n / real d * 2 powi (- e)) < 2 * real m + 1 \<or> even m \<and> 2 * (real n / real d * 2 powi (- e)) = 2 * real m + 1"
        unfolding w_def [symmetric] using hi by auto
    qed
  next
    case False
    then have e: "- 1074 < e" and w52: "w < 2 ^ 52" using c by (auto simp: canonical_def)
    have "2 ^ 52 \<le> m" using c e by (auto simp: canonical_def)
    moreover have "m \<le> 2 ^ 52"
    proof (rule ccontr)
      assume "\<not> m \<le> 2 ^ 52"
      then have "real (2 ^ 52 + 1) \<le> real m" by (simp only: of_nat_le_iff)
      with lo w52 show False by (auto split: if_splits)
    qed
    ultimately have m: "m = 2 ^ 52" by simp
    have lo': "2 ^ 54 - 1 \<le> 4 * w" using lo m e by auto
    have "log2_ratio n d = 51 + e"
    proof (rule log2_ratio_unique [OF n d])
      have "(2::real) powi (51 + e) = 2 ^ 51 * 2 powi e" by (simp add: power_int_add)
      then show "2 powi (51 + e) \<le> real n / real d" using lo' by (simp add: nd)
      have "(2::real) powi (51 + e + 1) = 2 ^ 52 * 2 powi e" by (simp add: power_int_add)
      then show "real n / real d < 2 powi (51 + e + 1)" using w52 by (simp add: nd)
    qed
    then have e': "max (log2_ratio n d - 52) (- 1074) = e - 1" using e by simp
    have s: "real n / real d * 2 powi (- (e - 1)) = 2 * w"
      by (simp add: w_def power_int_diff power_int_minus divide_inverse)
    have "round_bits n d = nat (e - 1 + 1074) * 2 ^ 52 + 2 ^ 53"
      by (rule round_bits_at [OF n d e']; unfold s; use lo' w52 in auto)
    also have "\<dots> = nat (e + 1074) * 2 ^ 52 + m" using e m by (simp add: nat_diff_distrib algebra_simps nat_add_distrib)
    finally show ?thesis .
  qed
qed

section \<open>The shortest decimal lies in the interval\<close>

lemma unit_ratio:
  assumes "0 < d" shows "real (unit_num p n) / real (unit_den p d) = real n / real d * 10 powi (- p)"
  using assms by (auto simp: unit_num_def unit_den_def power_int_def field_simps)

lemma unit_den_pos: "0 < d \<Longrightarrow> 0 < unit_den p d"
  by (simp add: unit_den_def)

lemma powi10_pos [simp]: "0 < (10::real) powi i"
  by (rule zero_less_power_int) simp

lemma powi10_shift: "(a::real) * 10 powi (- p) < b \<longleftrightarrow> a < b * 10 powi p" "(a::real) * 10 powi (- p) = b \<longleftrightarrow> a = b * 10 powi p"
  "b < a * 10 powi (- p) \<longleftrightarrow> b * 10 powi p < a"
proof -
  have i: "(10::real) powi (- p) = 1 / 10 powi p" by (simp add: power_int_minus_divide)
  show "a * 10 powi (- p) < b \<longleftrightarrow> a < b * 10 powi p" "a * 10 powi (- p) = b \<longleftrightarrow> a = b * 10 powi p"
    "b < a * 10 powi (- p) \<longleftrightarrow> b * 10 powi p < a"
    unfolding i by (auto simp: divide_less_eq less_divide_eq divide_eq_eq)
qed

lemma unit_cmp:
  assumes d: "0 < d"
  shows "unit_num p a < q * unit_den p d \<longleftrightarrow> real a / real d < real q * 10 powi p"
    "unit_num p a = q * unit_den p d \<longleftrightarrow> real a / real d = real q * 10 powi p"
    "q * unit_den p d < unit_num p a \<longleftrightarrow> real q * 10 powi p < real a / real d"
proof -
  have D: "0 < real (unit_den p d)" using unit_den_pos [OF d] by simp
  have "unit_num p a < q * unit_den p d \<longleftrightarrow> real (unit_num p a) / real (unit_den p d) < real q"
    using D by (simp add: divide_less_eq flip: of_nat_mult)
  then show "unit_num p a < q * unit_den p d \<longleftrightarrow> real a / real d < real q * 10 powi p"
    unfolding unit_ratio [OF d] powi10_shift .
  have "unit_num p a = q * unit_den p d \<longleftrightarrow> real (unit_num p a) / real (unit_den p d) = real q"
    using D by (simp add: divide_eq_eq flip: of_nat_mult)
  then show "unit_num p a = q * unit_den p d \<longleftrightarrow> real a / real d = real q * 10 powi p"
    unfolding unit_ratio [OF d] powi10_shift .
  have "q * unit_den p d < unit_num p a \<longleftrightarrow> real q < real (unit_num p a) / real (unit_den p d)"
    using D by (simp add: less_divide_eq flip: of_nat_mult)
  then show "q * unit_den p d < unit_num p a \<longleftrightarrow> real q * 10 powi p < real a / real d"
    unfolding unit_ratio [OF d] powi10_shift .
qed

definition in_range :: "nat \<Rightarrow> nat \<Rightarrow> nat \<Rightarrow> bool \<Rightarrow> real \<Rightarrow> bool" where
  "in_range lo hi d incl c \<longleftrightarrow>
     (real lo / real d < c \<or> incl \<and> real lo / real d = c) \<and> (c < real hi / real d \<or> incl \<and> c = real hi / real d)"

lemma half_even_cases: "half_even n d = n div d \<or> half_even n d = Suc (n div d)"
  by (auto simp: half_even_def Let_def)

lemma try_unit_within:
  assumes t: "try_unit p n d lo hi incl = Some q" and d: "0 < d" and "lo < n" "n < hi"
  shows "in_range lo hi d incl (real q * 10 powi p)"
proof -
  define q0 where "q0 = unit_num p n div unit_den p d"
  have "q0 * unit_den p d \<le> unit_num p n" by (simp add: q0_def)
  then have "real q0 * 10 powi p \<le> real n / real d"
    using unit_cmp(1) [OF d, of p n q0] by linarith
  moreover have "unit_num p n < Suc q0 * unit_den p d"
    using unit_den_pos [OF d, of p] div_less_iff_less_mult [of "unit_den p d" "unit_num p n" "Suc q0"]
    by (simp add: q0_def)
  then have "real n / real d < real (Suc q0) * 10 powi p" using unit_cmp(1) [OF d] by blast
  moreover have "real lo / real d < real n / real d" "real n / real d < real hi / real d"
    using assms by (simp_all add: divide_strict_right_mono)
  ultimately show ?thesis
    using t half_even_cases [of "unit_num p n" "unit_den p d"]
    unfolding try_unit_def Let_def q0_def [symmetric] in_range_def unit_cmp [OF d]
      eq_commute [of "Suc q0 * unit_den p d"]
    by (auto split: if_splits)
qed

lemma half_even_close:
  assumes "0 < d" shows "\<bar>real (half_even n d) - real n / real d\<bar> \<le> 1 / 2"
proof -
  define q where "q = n div d"
  define r where "r = n mod d"
  have n: "n = q * d + r" and r: "r < d" using assms by (simp_all add: q_def r_def)
  have f: "real n / real d = real q + real r / real d" using assms n by (simp add: field_simps)
  have "half_even n d = q \<and> 2 * r \<le> d \<or> half_even n d = Suc q \<and> d \<le> 2 * r"
    by (auto simp: half_even_def Let_def q_def r_def)
  then show ?thesis
  proof
    assume "half_even n d = q \<and> 2 * r \<le> d"
    moreover from this have "real (2 * r) \<le> real d" by (simp only: of_nat_le_iff)
    ultimately show ?thesis using assms f by (simp add: field_simps)
  next
    assume h: "half_even n d = Suc q \<and> d \<le> 2 * r"
    then have "real d \<le> real (2 * r)" by (simp only: of_nat_le_iff)
    with h show ?thesis using assms f r by (simp add: field_simps abs_le_iff)
  qed
qed

lemma shortest_within:
  assumes "shortest k p n d lo hi incl = (q, p')" "0 < d" "lo < n" "n < hi"
    and "10 powi (p - int k) / 2 < real (n - lo) / real d" "10 powi (p - int k) / 2 < real (hi - n) / real d"
  shows "in_range lo hi d incl (real q * 10 powi p')"
  using assms
proof (induction k arbitrary: p)
  case 0
  then have q: "q = half_even (unit_num p n) (unit_den p d)" "p' = p" by auto
  have "\<bar>real q - real n / real d * 10 powi (- p)\<bar> \<le> 1 / 2"
    using half_even_close [OF unit_den_pos [OF \<open>0 < d\<close>], of "unit_num p n" p]
    unfolding unit_ratio [OF \<open>0 < d\<close>] q(1) [symmetric] .
  moreover have "real q * 10 powi p - real n / real d = (real q - real n / real d * 10 powi (- p)) * 10 powi p"
    by (simp add: left_diff_distrib power_int_minus)
  then have "\<bar>real q * 10 powi p - real n / real d\<bar> = \<bar>real q - real n / real d * 10 powi (- p)\<bar> * 10 powi p"
    by (simp only: abs_mult) simp
  ultimately have "\<bar>real q * 10 powi p - real n / real d\<bar> \<le> 1 / 2 * 10 powi p"
    by (simp only: mult_right_mono [OF _ less_imp_le [OF powi10_pos]])
  moreover have "real (n - lo) / real d = real n / real d - real lo / real d"
    "real (hi - n) / real d = real hi / real d - real n / real d"
    using 0 by (simp_all add: of_nat_diff diff_divide_distrib)
  moreover have "10 powi p / 2 < real (n - lo) / real d" "10 powi p / 2 < real (hi - n) / real d"
    using 0 by simp_all
  ultimately have "real lo / real d < real q * 10 powi p" "real q * 10 powi p < real hi / real d"
    by linarith+
  then show ?case by (simp add: in_range_def q(2))
next
  case (Suc k)
  show ?case
  proof (cases "try_unit p n d lo hi incl")
    case None
    with Suc.prems show ?thesis
      by (intro Suc.IH [of "p - 1"]) (simp_all add: algebra_simps)
  next
    case (Some q0)
    with Suc.prems show ?thesis using try_unit_within [OF Some] by auto
  qed
qed

lemma dexp_up_bound: "0 < d \<Longrightarrow> d \<le> n \<Longrightarrow> d * 10 ^ (dexp_up n d - 1) \<le> n"
proof (induction n d rule: dexp_up.induct)
  case (1 n d)
  have u: "dexp_up n d = Suc (dexp_up n (d * 10))" using 1 by (simp add: dexp_up.simps [of n d])
  show ?case
  proof (cases "d * 10 \<le> n")
    case True
    moreover have "0 < dexp_up n (d * 10)" using 1 True by (simp add: dexp_up.simps)
    ultimately show ?thesis using 1 u by (cases "dexp_up n (d * 10)") (auto simp: algebra_simps)
  next
    case False
    then show ?thesis using 1 u by (simp add: dexp_up.simps)
  qed
qed

lemma dexp_up_pos: "0 < d \<Longrightarrow> d \<le> n \<Longrightarrow> 0 < dexp_up n d"
  by (simp add: dexp_up.simps)

lemma dexp_down_bound: "0 < n \<Longrightarrow> d \<le> n * 10 ^ Suc (dexp_down n d)"
proof (induction n d rule: dexp_down.induct)
  case (1 n d)
  then show ?case
    by (cases "d \<le> n * 10") (auto simp: dexp_down.simps [of n d] algebra_simps)
qed

lemma dec_exp_bound:
  assumes "0 < n" "0 < d" shows "10 powi (dec_exp n d - 1) \<le> real n / real d"
proof (cases "d \<le> n")
  case True
  have "real (d * 10 ^ (dexp_up n d - 1)) \<le> real n"
    using dexp_up_bound [OF assms(2) True] by (simp only: of_nat_le_iff)
  moreover have "(10::real) powi (dec_exp n d - 1) = 10 ^ (dexp_up n d - 1)"
    using True dexp_up_pos [OF assms(2) True] by (simp add: dec_exp_def power_int_def nat_diff_distrib)
  ultimately show ?thesis using assms by (simp add: field_simps)
next
  case False
  have "real d \<le> real (n * 10 ^ Suc (dexp_down n d))"
    using dexp_down_bound [OF assms(1)] by (simp only: of_nat_le_iff)
  moreover have "(10::real) powi (dec_exp n d - 1) = 1 / 10 ^ Suc (dexp_down n d)"
  proof -
    have "dec_exp n d - 1 = - int (Suc (dexp_down n d))" using False by (simp add: dec_exp_def)
    then show ?thesis by (simp only: power_int_minus_divide power_int_of_nat)
  qed
  ultimately show ?thesis using assms by (simp add: divide_le_eq le_divide_eq mult.commute)
qed

text \<open>The finite non-zero values, their canonical form and their bit pattern.\<close>

definition finite_nz :: "float64 \<Rightarrow> bool" where
  "finite_nz x \<longleftrightarrow> f_exp x \<noteq> 2047 \<and> f_mant x \<noteq> 0"

lemma f_exp_less: "f_exp x < 2048"
  by (simp add: f_exp_def)

lemma f_frac_less: "f_frac x < 2 ^ 52"
  by (simp add: f_frac_def)

lemma canonical_float: "finite_nz x \<Longrightarrow> canonical (f_mant x) (f_e2 x)"
  using f_exp_less [of x] f_frac_less [of x]
  by (auto simp: finite_nz_def canonical_def f_mant_def f_e2_def)

lemma magnitude_bits: "nat (f_e2 x + 1074) * 2 ^ 52 + f_mant x = unat x mod 2 ^ 63"
proof -
  have split: "unat x mod 2 ^ 63 = f_exp x * 2 ^ 52 + f_frac x"
    using mod_mult2_eq [of "unat x" "2 ^ 52" "2 ^ 11"] by (simp add: f_exp_def f_frac_def)
  show ?thesis unfolding split
    by (cases "f_exp x") (auto simp: f_mant_def f_e2_def nat_add_distrib algebra_simps)
qed

lemma mk_float_magnitude: "mk_float (f_neg x) (unat x mod 2 ^ 63) = x"
proof -
  have u: "unat x < 2 ^ 64" using unsigned_less [of x] by simp
  have "unat x mod 2 ^ 63 + (if f_neg x then 2 ^ 63 else 0) = unat x"
  proof (cases "f_neg x")
    case True
    then have "2 ^ 63 \<le> unat x" by (simp add: f_neg_def)
    then have "unat x mod 2 ^ 63 = unat x - 2 ^ 63"
      using u by (simp add: mod_if)
    with \<open>2 ^ 63 \<le> unat x\<close> True show ?thesis by simp
  qed (simp add: f_neg_def)
  then show ?thesis by (simp add: mk_float_def del: of_nat_add)
qed

lemma magnitude_bound: "finite_nz x \<Longrightarrow> unat x mod 2 ^ 63 < 2047 * 2 ^ 52"
proof -
  assume "finite_nz x"
  then have "f_exp x \<le> 2046" using f_exp_less [of x] by (simp add: finite_nz_def)
  moreover have "unat x mod 2 ^ 63 = f_exp x * 2 ^ 52 + f_frac x"
    using mod_mult2_eq [of "unat x" "2 ^ 52" "2 ^ 11"] by (simp add: f_exp_def f_frac_def)
  ultimately show ?thesis using f_frac_less [of x] by simp
qed

lemma float_of_ratio_interval:
  assumes x: "finite_nz x" and n: "0 < n" "0 < d"
    and v: "in_interval (f_mant x) (f_e2 x) (f_mant x = 2 ^ 52 \<and> 1 < f_exp x) (real n / real d)"
  shows "float_of_ratio (f_neg x) n d = Some x"
proof -
  have "f_mant x = 2 ^ 52 \<and> 1 < f_exp x \<longleftrightarrow> f_mant x = 2 ^ 52 \<and> - 1074 < f_e2 x"
    by (auto simp: f_e2_def)
  with v have "in_interval (f_mant x) (f_e2 x) (f_mant x = 2 ^ 52 \<and> - 1074 < f_e2 x) (real n / real d)"
    by simp
  then have "round_bits n d = unat x mod 2 ^ 63"
    using round_bits_interval [OF canonical_float [OF x] n] magnitude_bits [of x] by simp
  then show ?thesis
    using magnitude_bound [OF x] mk_float_magnitude [of x] by (simp add: float_of_ratio_def)
qed

text \<open>The search of \<open>shortest_digits\<close>, stripped of its text.\<close>

definition shortest_pair :: "float64 \<Rightarrow> nat \<times> int" where
  "shortest_pair x =
     (let m = f_mant x; e = f_e2 x - 2;
          up = (\<lambda>v. if 0 \<le> e then v * 2 ^ nat e else v); d = (if 0 \<le> e then 1 else 2 ^ nat (- e));
          n = up (4 * m); lo = up (if m = 2 ^ 52 \<and> 1 < f_exp x then 4 * m - 1 else 4 * m - 2)
      in shortest 16 (dec_exp n d - 1) n d lo (up (4 * m + 2)) (even m))"

lemma shortest_digits_pair:
  "shortest_digits x = (case shortest_pair x of (q, p) \<Rightarrow>
     (trim_right ''0'' (dec_digits q), p + int (length (dec_digits q))))"
  by (simp add: shortest_digits_def shortest_pair_def Let_def)

lemma shortest_pair_interval:
  assumes x: "finite_nz x" and s: "shortest_pair x = (q, p)"
  shows "in_interval (f_mant x) (f_e2 x) (f_mant x = 2 ^ 52 \<and> 1 < f_exp x) (real q * 10 powi p)"
proof -
  define m where "m = f_mant x"
  define e where "e = f_e2 x - 2"
  define up where "up = (\<lambda>v::nat. if 0 \<le> e then v * 2 ^ nat e else v)"
  define d where "d = (if 0 \<le> e then 1 else 2 ^ nat (- e) :: nat)"
  define narrow where "narrow = (m = 2 ^ 52 \<and> 1 < f_exp x)"
  define l where "l = (if narrow then 4 * m - 1 else 4 * m - 2)"
  have m: "0 < m" "m < 2 ^ 53" using canonical_float [OF x] by (auto simp: canonical_def m_def)
  have d: "0 < d" by (simp add: d_def)
  have ur: "real (up v) / real d = real v * 2 powi e" for v
    by (auto simp: up_def d_def power_int_def field_simps)
  have e2: "0 < (2::real) powi e" by simp
  have s': "shortest 16 (dec_exp (up (4 * m)) d - 1) (up (4 * m)) d (up l) (up (4 * m + 2)) (even m) = (q, p)"
    using s unfolding shortest_pair_def Let_def m_def e_def up_def d_def l_def narrow_def .
  have mono: "up a < up b" if "a < b" for a b using that by (simp add: up_def)
  have diff: "real (up b - up a) / real d = real (b - a) * 2 powi e" if "a \<le> b" for a b
  proof -
    have "up b - up a = up (b - a)" by (simp add: up_def diff_mult_distrib)
    then show ?thesis by (simp only: ur)
  qed
  have n0: "0 < up (4 * m)" using m by (simp add: up_def)
  have fine: "10 powi (dec_exp (up (4 * m)) d - 1 - int 16) / 2 < real k * 2 powi e"
    if "k = 2 \<or> (k = 1 \<and> m = 2 ^ 52)" for k :: nat
  proof -
    have "(10::real) powi (dec_exp (up (4 * m)) d - 1 - int 16) = 10 powi (dec_exp (up (4 * m)) d - 1) / 10 ^ 16"
      by (simp add: power_int_diff)
    also have "\<dots> \<le> (real (4 * m) * 2 powi e) / 10 ^ 16"
      using dec_exp_bound [OF n0 d] unfolding ur by (intro divide_right_mono) auto
    finally have "10 powi (dec_exp (up (4 * m)) d - 1 - int 16) / 2 \<le> real (2 * m) / 10 ^ 16 * 2 powi e"
      by simp
    also have "real (2 * m) / 10 ^ 16 < real k"
    proof -
      have "2 * m < k * 10 ^ 16" using that m by auto
      then have "real (2 * m) < real (k * 10 ^ 16)" by (simp only: of_nat_less_iff)
      then show ?thesis by (simp add: divide_less_eq)
    qed
    finally show ?thesis using e2 by simp
  qed
  have l: "l < 4 * m" "4 * m - l = 2 \<or> (4 * m - l = 1 \<and> m = 2 ^ 52)" using m by (auto simp: l_def narrow_def)
  have R: "in_range (up l) (up (4 * m + 2)) d (even m) (real q * 10 powi p)"
    using fine [of 2] fine [OF l(2)] l(1)
    by (intro shortest_within [OF s' d]) (auto simp: diff intro: mono)
  have f: "f_e2 x = e + 2" by (simp add: e_def)
  have w: "c * 4 * 2 powi (- f_e2 x) = c / 2 powi e" for c :: real
    unfolding f power_int_minus_divide by (simp add: power_int_add)
  have cmp: "real l * 2 powi e < c \<longleftrightarrow> real l < c * 4 * 2 powi (- f_e2 x)"
    "real l * 2 powi e = c \<longleftrightarrow> real l = c * 4 * 2 powi (- f_e2 x)"
    "c < real (4 * m + 2) * 2 powi e \<longleftrightarrow> c * 4 * 2 powi (- f_e2 x) < real (4 * m) + 2"
    "c = real (4 * m + 2) * 2 powi e \<longleftrightarrow> c * 4 * 2 powi (- f_e2 x) = real (4 * m) + 2" for c
    unfolding w using e2 by (simp_all add: less_divide_eq divide_less_eq divide_eq_eq eq_divide_eq add.commute)
  have lr: "real l = (if narrow then real (4 * m) - 1 else real (4 * m) - 2)"
    using m by (auto simp: l_def of_nat_diff)
  from R have "(real l < real q * 10 powi p * 4 * 2 powi (- f_e2 x) \<or> even m \<and> real l = real q * 10 powi p * 4 * 2 powi (- f_e2 x)) \<and>
      (real q * 10 powi p * 4 * 2 powi (- f_e2 x) < real (4 * m) + 2 \<or> even m \<and> real q * 10 powi p * 4 * 2 powi (- f_e2 x) = real (4 * m) + 2)"
    unfolding in_range_def ur cmp .
  then show ?thesis
    unfolding lr in_interval_def Let_def m_def [symmetric] narrow_def [symmetric] .
qed

section \<open>Reading the printed text\<close>

lemma digits_val_append: "digits_val (a @ b) = digits_val a * 10 ^ length b + digits_val b"
proof (induction b rule: rev_induct)
  case (snoc c b)
  have "digits_val (a @ b @ [c]) = digits_val (a @ b) * 10 + digit_val c"
    using digits_val_snoc [of "a @ b" c] by simp
  then show ?case using snoc digits_val_snoc [of b c] by (simp add: algebra_simps)
qed (simp add: digits_val_def)

lemma digits_val_zeros: "digits_val (replicate k CHR ''0'') = 0"
  by (induction k) (simp_all add: digits_val_def digit_val_def)

lemma digits_val_Nil [simp]: "digits_val [] = 0"
  by (simp add: digits_val_def)

lemma digits_val_bound: "digits_val s < 10 ^ length s" if "list_all is_digit s"
  using that
proof (induction s rule: rev_induct)
  case (snoc c s)
  then have "digit_val c < 10" by (auto simp: is_digit_def digit_val_def)
  with snoc show ?case by (simp add: digits_val_snoc)
qed simp

lemma exp_val_digits: "digits_val s < 10000 \<Longrightarrow> exp_val s = digits_val s"
proof (induction s rule: rev_induct)
  case (snoc c s)
  then have "digits_val s < 10000" by (simp add: digits_val_snoc)
  with snoc.IH show ?case using snoc.prems by (simp add: exp_val_def digits_val_snoc)
qed (simp add: exp_val_def)

lemma dec_digits_length: "0 < n \<Longrightarrow> 10 ^ (length (dec_digits n) - 1) \<le> n"
proof (induction n rule: dec_digits.induct)
  case (1 n)
  show ?case
  proof (cases "n < 10")
    case False
    then have "10 ^ (length (dec_digits (n div 10)) - 1) \<le> n div 10" using 1 by simp
    moreover have "dec_digits n = dec_digits (n div 10) @ [char_of (48 + n mod 10)]"
      using False by (simp add: dec_digits.simps [of n])
    moreover have "0 < length (dec_digits (n div 10))" by simp
    ultimately show ?thesis by (cases "length (dec_digits (n div 10))") auto
  qed (use 1 in \<open>simp add: dec_digits.simps [of n]\<close>)
qed

lemma trim_zeros: "\<exists>k. s = trim_right ''0'' s @ replicate k CHR ''0''"
proof -
  have "rev s = takeWhile (\<lambda>c. c = CHR ''0'') (rev s) @ dropWhile (\<lambda>c. c = CHR ''0'') (rev s)" by simp
  moreover have "takeWhile (\<lambda>c. c = CHR ''0'') (rev s) = replicate (length (takeWhile (\<lambda>c. c = CHR ''0'') (rev s))) CHR ''0''"
    by (auto simp: list_eq_iff_nth_eq dest: nth_mem set_takeWhileD)
  ultimately have "rev (rev s) = rev (replicate (length (takeWhile (\<lambda>c. c = CHR ''0'') (rev s))) CHR ''0'' @ dropWhile (\<lambda>c. c = CHR ''0'') (rev s))"
    by metis
  then show ?thesis by (auto simp: trim_right_def)
qed

text \<open>What the reader needs of the digits and the decimal exponent of a printed value.\<close>

lemma read_fmt_e:
  assumes "list_all is_digit ds" "ds \<noteq> []" "nat \<bar>ex\<bar> < 10000"
  shows "read_decimal (fmt_e ds ex) = Some ([hd ds], tl ds, ex)"
proof -
  obtain c cs where ds: "ds = c # cs" using assms(2) by (cases ds) auto
  have c: "is_digit c" "list_all is_digit cs" using assms(1) ds by auto
  define a where "a = nat \<bar>ex\<bar>"
  define es where "es = (if a < 10 then CHR ''0'' # dec_digits a else dec_digits a)"
  have es: "list_all is_digit es" "es \<noteq> []" using dec_digits_is_digit [of a] by (auto simp: es_def is_digit_def)
  have dv: "digits_val es = a"
    using digits_val_append [of "''0''" "dec_digits a"] digits_val_zeros [of 1] by (auto simp: es_def)
  have "exp_val es = a" using exp_val_digits [of es] assms(3) by (simp add: dv a_def)
  then have x: "scan_exp (CHR ''e'' # (if ex < 0 then CHR ''-'' else CHR ''+'') # es) = Some ex"
    using es by (auto simp: scan_exp_def sign_split_def a_def)
  have nd: "\<not> is_digit CHR ''.''" "\<not> is_digit CHR ''e''" by (simp_all add: is_digit_def)
  have t: "fmt_e ds ex = c # (if cs = [] then [] else CHR ''.'' # cs) @ CHR ''e'' # (if ex < 0 then CHR ''-'' else CHR ''+'') # es"
    by (simp add: fmt_e_def ds es_def a_def Let_def)
  show ?thesis
    unfolding t using c nd x
    by (auto simp: read_decimal_def ds Let_def list_all_iff takeWhile_append2 dropWhile_append2)
qed

lemma takeWhile_stop: "list_all P xs \<Longrightarrow> \<not> P c \<Longrightarrow> takeWhile P (xs @ c # r) = xs \<and> dropWhile P (xs @ c # r) = c # r"
  by (induction xs) auto

lemma read_plain:
  assumes "list_all is_digit ip" "ip \<noteq> []" "list_all is_digit fp"
  shows "read_decimal (ip @ (if fp = [] then [] else CHR ''.'' # fp)) = Some (ip, fp, 0)"
proof (cases "fp = []")
  case False
  have "\<not> is_digit CHR ''.''" by (simp add: is_digit_def)
  note tw = takeWhile_stop [OF assms(1) this, of fp]
  have "read_decimal (ip @ CHR ''.'' # fp) = Some (ip, fp, 0)"
    by (simp add: read_decimal_def Let_def tw takeWhile_digits [OF assms(3)] scan_exp_def assms(2))
  then show ?thesis using False by simp
qed (simp add: read_decimal_digits assms)

section \<open>The round trip\<close>

lemma ParseFloat_text:
  assumes t: "is_digit (hd t)" "t \<noteq> []" and r: "read_decimal t = Some (ip, fp, e)"
  shows "ParseFloat ((if neg then ''-'' else []) @ t) =
     (let m = digits_val (ip @ fp); x = e - int (length fp)
      in if 0 \<le> x then float_of_ratio neg (m * 10 ^ nat x) 1 else float_of_ratio neg m (10 ^ nat (- x)))"
proof -
  obtain c cs where s: "t = c # cs" using t(2) by (cases t) auto
  have "is_digit c" using t(1) s by simp
  then have c: "c \<noteq> CHR ''+''" "c \<noteq> CHR ''i''" "c \<noteq> CHR ''n''" "c \<noteq> CHR ''-''" and lc: "lower [c] = [c]"
    by (auto simp: is_digit_def lower_def Let_def)
  have l: "lower t = c # lower cs" using lc by (simp add: lower_def s)
  have l': "lower (CHR ''-'' # t) = CHR ''-'' # c # lower cs" using l by (simp add: lower_def)
  have "special t = None" unfolding special_def l using c by simp
  moreover have "special (CHR ''-'' # t) = None" unfolding special_def l' using c by simp
  moreover have "sign_split t = (False, t)" using c by (simp add: sign_split_def s)
  moreover have "sign_split (CHR ''-'' # t) = (True, t)" by (simp add: sign_split_def)
  ultimately show ?thesis using r by (cases neg) (simp_all add: ParseFloat_def Let_def)
qed

lemma ParseFloat_value:
  assumes x: "finite_nz x" and t: "is_digit (hd t)" "t \<noteq> []" and r: "read_decimal t = Some (ip, fp, e)"
    and v: "real (digits_val (ip @ fp)) * 10 powi (e - int (length fp)) = real q * 10 powi p"
    and q: "0 < q" and s: "shortest_pair x = (q, p)"
  shows "ParseFloat ((if f_neg x then ''-'' else []) @ t) = Some x"
proof -
  define m where "m = digits_val (ip @ fp)"
  define y where "y = e - int (length fp)"
  have eq: "real m * 10 powi y = real q * 10 powi p" using v by (simp add: m_def y_def)
  have m: "0 < m"
  proof (rule ccontr)
    assume "\<not> 0 < m"
    then have "real q * 10 powi p = 0" using eq by simp
    then show False using q powi10_pos [of p] by (metis less_irrefl mult_eq_0_iff of_nat_0_less_iff)
  qed
  have int: "in_interval (f_mant x) (f_e2 x) (f_mant x = 2 ^ 52 \<and> 1 < f_exp x) (real m * 10 powi y)"
    using shortest_pair_interval [OF x s] unfolding eq .
  show ?thesis
  proof (cases "0 \<le> y")
    case True
    then have v: "real (m * 10 ^ nat y) / real 1 = real m * 10 powi y" by (simp add: power_int_def)
    have "float_of_ratio (f_neg x) (m * 10 ^ nat y) 1 = Some x"
      by (rule float_of_ratio_interval [OF x]; (unfold v)?; (rule int)?; use m in simp)
    then show ?thesis using True by (simp add: ParseFloat_text [OF t r] m_def y_def Let_def)
  next
    case False
    then have "(10::real) powi y = 10 powi (- int (nat (- y)))" by simp
    then have "(10::real) powi y = 1 / 10 ^ nat (- y)" by (simp only: power_int_minus_divide power_int_of_nat)
    then have v: "real m / real (10 ^ nat (- y)) = real m * 10 powi y" by simp
    have "float_of_ratio (f_neg x) m (10 ^ nat (- y)) = Some x"
      by (rule float_of_ratio_interval [OF x]; (unfold v)?; (rule int)?; use m in simp)
    then show ?thesis using False by (simp add: ParseFloat_text [OF t r] m_def y_def Let_def)
  qed
qed

lemma powi10_less_iff: "(10::real) powi i < 10 powi j \<longleftrightarrow> i < j"
  using power_int_strict_increasing [of i j "10::real"] power_int_increasing [of j i "10::real"] by fastforce

definition dec_lim :: int where
  "dec_lim = 1100"

lemma powi_lim: "(2::real) powi dec_lim < 10 powi dec_lim"
  by (rule power_int_strict_mono) (auto simp: dec_lim_def)

lemma powi_lim': "(10::real) powi (- dec_lim) < 2 powi (- dec_lim)"
  unfolding power_int_minus_divide using powi_lim by (intro divide_strict_left_mono) auto

lemma interval_bounds:
  assumes x: "finite_nz x" and c: "in_interval (f_mant x) (f_e2 x) b c"
  shows "10 powi (- dec_lim) < c" "c < 10 powi dec_lim"
proof -
  define m where "m = f_mant x"
  define e where "e = f_e2 x"
  have m: "1 \<le> m" "m < 2 ^ 53" and e: "- dec_lim \<le> e - 1"
    using canonical_float [OF x] by (auto simp: canonical_def m_def e_def dec_lim_def)
  have e': "54 + e \<le> dec_lim" using x f_exp_less [of x] by (auto simp: e_def f_e2_def finite_nz_def dec_lim_def)
  define w where "w = c * 4 * 2 powi (- e)"
  have w: "2 \<le> w" "w \<le> real (4 * m) + 2"
    using c m by (auto simp: in_interval_def m_def [symmetric] e_def [symmetric] Let_def w_def [symmetric] split: if_splits)
  have cw: "c = w / 4 * 2 powi e" by (simp add: w_def power_int_minus)
  note powi_lim'
  also have "(2::real) powi (- dec_lim) \<le> 2 powi (e - 1)" using e by (simp only: powi_le_iff)
  also have "(2::real) powi (e - 1) = 2 / 4 * 2 powi e" by (simp add: power_int_diff)
  also have "\<dots> \<le> c" unfolding cw using w by (intro mult_right_mono) auto
  finally show "10 powi (- dec_lim) < c" .
  have "real m \<le> real (2 ^ 53)" using m by (simp only: of_nat_le_iff)
  then have "w / 4 \<le> 2 ^ 54" using w by simp
  then have "c \<le> 2 ^ 54 * 2 powi e" unfolding cw by (intro mult_right_mono) auto
  also have "\<dots> = 2 powi (54 + e)" by (simp add: power_int_add)
  also have "\<dots> \<le> 2 powi dec_lim" using e' by (simp only: powi_le_iff)
  also note powi_lim
  finally show "c < 10 powi dec_lim" .
qed

lemma dec_digits_bounds: "0 < q \<Longrightarrow> (10::real) powi (int (length (dec_digits q)) - 1) \<le> real q \<and> real q < 10 powi int (length (dec_digits q))"
proof -
  assume q: "0 < q"
  have "real (10 ^ (length (dec_digits q) - 1)) \<le> real q"
    using dec_digits_length [OF q] by (simp only: of_nat_le_iff)
  moreover have "real q < real (10 ^ length (dec_digits q))"
    using digits_val_bound [OF dec_digits_is_digit, of q] by (simp only: of_nat_less_iff digits_val_dec_digits)
  moreover have "(10::real) powi (int (length (dec_digits q)) - 1) = 10 ^ (length (dec_digits q) - 1)"
    by (cases "length (dec_digits q)") auto
  ultimately show ?thesis by simp
qed

lemma shortest_digits_text:
  assumes x: "finite_nz x" and s: "shortest_digits x = (ds, dp)"
  obtains q p where "shortest_pair x = (q, p)" "0 < q" "list_all is_digit ds" "ds \<noteq> []"
    "real (digits_val ds) * 10 powi (dp - int (length ds)) = real q * 10 powi p" "\<bar>dp - 1\<bar> < 10000"
proof -
  obtain q p where qp: "shortest_pair x = (q, p)" by fastforce
  then have ds: "ds = trim_right ''0'' (dec_digits q)" and dp: "dp = p + int (length (dec_digits q))"
    using s by (simp_all add: shortest_digits_pair)
  note int = shortest_pair_interval [OF x qp]
  have q: "0 < q"
    using less_trans [OF powi10_pos interval_bounds(1) [OF x int]] by (cases q) auto
  obtain k where k: "dec_digits q = ds @ replicate k CHR ''0''" using trim_zeros [of "dec_digits q"] ds by auto
  have dd: "list_all is_digit ds" using dec_digits_is_digit [of q] by (simp add: k)
  have qv: "q = digits_val ds * 10 ^ k"
    using digits_val_dec_digits [of q] digits_val_append [of ds "replicate k CHR ''0''"] by (simp add: k digits_val_zeros)
  have ne: "ds \<noteq> []" using q qv by auto
  have "dp - int (length ds) = int k + p" by (simp add: dp k)
  then have v: "real (digits_val ds) * 10 powi (dp - int (length ds)) = real q * 10 powi p"
    by (simp add: qv power_int_add)
  have "10 powi (dp - 1) \<le> real q * 10 powi p" "real q * 10 powi p < 10 powi dp"
  proof -
    have a: "(10::real) powi (dp - 1) = 10 powi (int (length (dec_digits q)) - 1) * 10 powi p"
      and b: "(10::real) powi dp = 10 powi int (length (dec_digits q)) * 10 powi p"
      unfolding dp by (simp_all add: power_int_add power_int_diff)
    show "10 powi (dp - 1) \<le> real q * 10 powi p" "real q * 10 powi p < 10 powi dp"
      unfolding a b using dec_digits_bounds [OF q] by (auto intro: mult_right_mono mult_strict_right_mono)
  qed
  then have "10 powi (dp - 1) < (10::real) powi dec_lim" "(10::real) powi (- dec_lim) < 10 powi dp"
    using interval_bounds [OF x int] by linarith+
  then have "dp - 1 < dec_lim" "- dec_lim < dp" by (simp_all only: powi10_less_iff)
  then have "\<bar>dp - 1\<bar> < 10000" by (simp add: dec_lim_def)
  with qp q dd ne v show ?thesis by (rule that)
qed

lemma read_fmt_f:
  assumes "list_all is_digit ds" "ds \<noteq> []"
  shows "\<exists>ip fp. read_decimal (fmt_f ds dp) = Some (ip, fp, 0) \<and> is_digit (hd (fmt_f ds dp)) \<and> fmt_f ds dp \<noteq> [] \<and>
    real (digits_val (ip @ fp)) * 10 powi (0 - int (length fp)) = real (digits_val ds) * 10 powi (dp - int (length ds))"
proof -
  have z: "is_digit CHR ''0''" "digit_val CHR ''0'' = 0" by (simp_all add: is_digit_def digit_val_def)
  consider "dp \<le> 0" | "0 < dp" "int (length ds) \<le> dp" | "0 < dp" "dp < int (length ds)" by linarith
  then show ?thesis
  proof cases
    case 1
    define fp where "fp = replicate (nat (- dp)) CHR ''0'' @ ds"
    have t: "fmt_f ds dp = ''0'' @ (if fp = [] then [] else CHR ''.'' # fp)"
      using 1 by (simp add: fmt_f_def fp_def Let_def)
    have "''0'' @ fp = replicate (Suc (nat (- dp))) CHR ''0'' @ ds" by (simp add: fp_def)
    then have "digits_val (''0'' @ fp) = digits_val ds"
      by (simp only: digits_val_append digits_val_zeros mult_zero_left add_0_left)
    moreover have "0 - int (length fp) = dp - int (length ds)" using 1 by (simp add: fp_def)
    moreover have "read_decimal (fmt_f ds dp) = Some (''0'', fp, 0)"
      unfolding t by (rule read_plain) (use assms z in \<open>auto simp: fp_def list_all_iff\<close>)
    ultimately show ?thesis using z(1) by (intro exI [of _ "''0''"] exI [of _ fp]) (simp add: t)
  next
    case 2
    define ip where "ip = ds @ replicate (nat dp - length ds) CHR ''0''"
    have t: "fmt_f ds dp = ip @ (if [] = ([]::string) then [] else CHR ''.'' # [])"
      using 2 by (simp add: fmt_f_def ip_def Let_def)
    have "real (digits_val ip) = real (digits_val ds) * 10 powi (dp - int (length ds))"
      using 2 by (simp add: ip_def digits_val_append digits_val_zeros power_int_def nat_diff_distrib)
    moreover have "read_decimal (fmt_f ds dp) = Some (ip, [], 0)"
      unfolding t by (rule read_plain) (use assms z in \<open>auto simp: ip_def list_all_iff\<close>)
    ultimately show ?thesis using assms
      by (intro exI [of _ ip] exI [of _ "[]"]) (auto simp: t ip_def hd_append list_all_iff)
  next
    case 3
    have ne: "drop (nat dp) ds \<noteq> []" "take (nat dp) ds \<noteq> []" using 3 assms(2) by auto
    have t: "fmt_f ds dp = take (nat dp) ds @ (if drop (nat dp) ds = [] then [] else CHR ''.'' # drop (nat dp) ds)"
      using 3 ne by (simp add: fmt_f_def Let_def)
    have "read_decimal (fmt_f ds dp) = Some (take (nat dp) ds, drop (nat dp) ds, 0)"
      unfolding t by (rule read_plain) (use assms ne in \<open>auto simp: list_all_iff dest: in_set_takeD in_set_dropD\<close>)
    moreover have "0 - int (length (drop (nat dp) ds)) = dp - int (length ds)" using 3 by simp
    moreover have "is_digit (hd (take (nat dp) ds))" using assms ne by (cases ds) (auto simp: list_all_iff hd_take)
    ultimately show ?thesis using ne
      by (intro exI [of _ "take (nat dp) ds"] exI [of _ "drop (nat dp) ds"]) (simp add: t)
  qed
qed

lemma ParseFloat_fmt_finite:
  assumes x: "finite_nz x" shows "ParseFloat (fmt_float x) = Some x"
proof -
  obtain ds dp where s: "shortest_digits x = (ds, dp)" by fastforce
  obtain q p where qp: "shortest_pair x = (q, p)" "0 < q" and ds: "list_all is_digit ds" "ds \<noteq> []"
    and v: "real (digits_val ds) * 10 powi (dp - int (length ds)) = real q * 10 powi p" and b: "\<bar>dp - 1\<bar> < 10000"
    using shortest_digits_text [OF x s] by blast
  define t where "t = (if dp - 1 < - 4 \<or> 6 \<le> dp - 1 then fmt_e ds (dp - 1) else fmt_f ds dp)"
  have ft: "fmt_float x = (if f_neg x then ''-'' else []) @ t"
    using x by (auto simp: fmt_float_def IsNaN_def IsInf_def finite_nz_def s t_def Let_def)
  have "\<exists>ip fp e. read_decimal t = Some (ip, fp, e) \<and> is_digit (hd t) \<and> t \<noteq> [] \<and>
      real (digits_val (ip @ fp)) * 10 powi (e - int (length fp)) = real q * 10 powi p"
  proof (cases "dp - 1 < - 4 \<or> 6 \<le> dp - 1")
    case True
    then have "t = fmt_e ds (dp - 1)" by (simp add: t_def)
    moreover have "read_decimal (fmt_e ds (dp - 1)) = Some ([hd ds], tl ds, dp - 1)"
      using read_fmt_e [OF ds] b by simp
    moreover have "[hd ds] @ tl ds = ds" "int (length (tl ds)) = int (length ds) - 1" "is_digit (hd ds)"
      using ds by (cases ds; auto)+
    ultimately show ?thesis using v by (intro exI [of _ "[hd ds]"] exI [of _ "tl ds"] exI [of _ "dp - 1"]) (simp add: fmt_e_def)
  next
    case False
    then have "t = fmt_f ds dp" by (auto simp: t_def)
    then show ?thesis using read_fmt_f [OF ds, of dp] v by metis
  qed
  then show ?thesis unfolding ft using ParseFloat_value [OF x] qp by blast
qed

theorem ParseFloat_fmt_float:
  assumes "\<not> IsNaN x" shows "ParseFloat (fmt_float x) = Some x"
proof (cases "finite_nz x")
  case False
  have u: "unat x mod 2 ^ 63 = nat (f_e2 x + 1074) * 2 ^ 52 + f_mant x" by (rule magnitude_bits [symmetric])
  consider "IsInf x" | "f_exp x \<noteq> 2047" "f_mant x = 0"
    using assms False by (auto simp: finite_nz_def IsNaN_def IsInf_def)
  then show ?thesis
  proof cases
    case 1
    then have "unat x mod 2 ^ 63 = 2047 * 2 ^ 52" unfolding u by (simp add: IsInf_def f_e2_def f_mant_def)
    then have "mk_float (f_neg x) (2047 * 2 ^ 52) = x" using mk_float_magnitude [of x] by simp
    moreover have "lower ''-Inf'' = ''-inf''" "lower ''+Inf'' = ''+inf''" by code_simp+
    then have "special ''-Inf'' = Some (mk_float True (2047 * 2 ^ 52))" "special ''+Inf'' = Some (mk_float False (2047 * 2 ^ 52))"
      by (simp_all add: special_def)
    ultimately show ?thesis using 1 assms by (cases "f_neg x") (simp_all add: fmt_float_def ParseFloat_def)
  next
    case 2
    then have "f_exp x = 0" by (auto simp: f_mant_def split: if_splits)
    with 2 have "unat x mod 2 ^ 63 = 0" unfolding u by (simp add: f_e2_def)
    then have m: "mk_float (f_neg x) 0 = x" using mk_float_magnitude [of x] by simp
    have "fmt_float x = (if f_neg x then ''-'' else []) @ ''0''"
      using 2 by (simp add: fmt_float_def IsNaN_def IsInf_def)
    moreover have "read_decimal ''0'' = Some (''0'', [], 0)" by (rule read_decimal_digits) (simp_all add: is_digit_def)
    moreover have "digits_val ''0'' = 0" using digits_val_zeros [of 1] by simp
    ultimately show ?thesis
      using ParseFloat_text [of "''0''" "''0''" "[]" 0 "f_neg x"] m
      by (simp add: is_digit_def float_of_ratio_def nat_bits_def round_bits_def Let_def del: round_bits_1)
  qed
qed (rule ParseFloat_fmt_finite)

lemma ParseFloat_NaN: "IsNaN x \<Longrightarrow> ParseFloat (fmt_float x) = Some NaN_bits \<and> IsNaN NaN_bits"
proof -
  have "lower ''NaN'' = ''nan''" by code_simp
  moreover have "IsNaN NaN_bits" by (simp add: IsNaN_def f_exp_def f_frac_def NaN_bits_def)
  ultimately show "IsNaN x \<Longrightarrow> ?thesis" by (simp add: fmt_float_def ParseFloat_def special_def)
qed

section \<open>The bytes of a printed number\<close>

definition num_char :: "char \<Rightarrow> bool" where
  "num_char c \<longleftrightarrow> is_digit c \<or> c \<in> {CHR ''+'', CHR ''-'', CHR ''.'', CHR ''e'', CHR ''I'', CHR ''N'', CHR ''a'', CHR ''n'', CHR ''f''}"

lemma num_char_digits: "list_all is_digit ds \<Longrightarrow> list_all num_char ds"
  by (induction ds) (simp_all add: num_char_def)

lemma num_char_consts: "num_char CHR ''+''" "num_char CHR ''-''" "num_char CHR ''.''" "num_char CHR ''e''"
  "num_char CHR ''0''" "num_char CHR ''N''" "num_char CHR ''a''" "num_char CHR ''I''" "num_char CHR ''n''" "num_char CHR ''f''" "list_all num_char ''NaN''" "list_all num_char ''-Inf''" "list_all num_char ''+Inf''"
  by (simp_all add: num_char_def is_digit_def)

lemma list_all_take_drop: "list_all P xs \<Longrightarrow> list_all P (take n xs) \<and> list_all P (drop n xs)"
  by (metis append_take_drop_id list_all_append)

lemma fmt_int_chars: "list_all num_char (fmt_int i)" "fmt_int i \<noteq> []"
  by (simp_all add: fmt_int_def num_char_consts num_char_digits dec_digits_is_digit)

lemma fmt_e_chars: "list_all is_digit ds \<Longrightarrow> ds \<noteq> [] \<Longrightarrow> list_all num_char (fmt_e ds ex)"
  using num_char_digits [OF dec_digits_is_digit, of "nat \<bar>ex\<bar>"] num_char_digits [of ds]
  by (cases ds) (simp_all add: fmt_e_def Let_def num_char_consts)

lemma list_all_zeros: "list_all num_char (replicate n CHR ''0'')"
  by (induction n) (simp_all add: num_char_consts)

lemma fmt_f_chars: "list_all is_digit ds \<Longrightarrow> list_all num_char (fmt_f ds dp)"
  using list_all_take_drop [OF num_char_digits [of ds], of "nat dp"] num_char_digits [of ds]
  by (simp add: fmt_f_def Let_def num_char_consts list_all_zeros)

lemma fmt_float_chars: "list_all num_char (fmt_float x)" "fmt_float x \<noteq> []"
proof -
  have "list_all num_char (fmt_float x) \<and> fmt_float x \<noteq> []"
  proof (cases "finite_nz x")
    case True
    obtain ds dp where s: "shortest_digits x = (ds, dp)" by fastforce
    then have ds: "list_all is_digit ds" "ds \<noteq> []" using shortest_digits_text [OF True s] by blast+
    define t where "t = (if dp - 1 < - 4 \<or> 6 \<le> dp - 1 then fmt_e ds (dp - 1) else fmt_f ds dp)"
    have ft: "fmt_float x = (if f_neg x then ''-'' else []) @ t"
      using True by (auto simp: fmt_float_def IsNaN_def IsInf_def finite_nz_def s t_def Let_def)
    have "fmt_f ds dp \<noteq> []" using ds by (auto simp: fmt_f_def)
    moreover have "fmt_e ds (dp - 1) \<noteq> []" by (simp add: fmt_e_def)
    ultimately have "list_all num_char t \<and> t \<noteq> []"
      using fmt_e_chars [OF ds, of "dp - 1"] fmt_f_chars [OF ds(1), of dp] by (simp add: t_def)
    then show ?thesis by (simp add: ft num_char_consts)
  next
    case False
    then consider "IsNaN x" | "IsInf x" | "\<not> IsNaN x" "\<not> IsInf x" "f_mant x = 0"
      unfolding finite_nz_def IsNaN_def IsInf_def by metis
    then show ?thesis by cases (simp_all only: fmt_float_def if_True if_False num_char_consts, simp_all add: num_char_consts)
  qed
  then show "list_all num_char (fmt_float x)" "fmt_float x \<noteq> []" by blast+
qed

lemma num_char_graphic: "num_char c \<Longrightarrow> c \<notin> {CHR 0x0A, CHR '' '', CHR 0x09, CHR 0x0D}"
  by (auto simp: num_char_def is_digit_def)

end
