(* ===== verification/Points_Model.thy ===== *)
theory Points_Model
  imports Go_Float_Text
begin

text \<open>
  The data model of the daemon, \<open>src/points/points.go\<close>: a point, a metric with its points, the
  constructors and mutators, the comparison \<open>Eq\<close>, the parser of the plain text protocol and the
  parser of the pickle protocol. \<open>Data\<close> is a slice that may be nil, hence an option: \<open>Eq\<close>
  tells nil from empty.

  The pickle decoder \<open>stalecucumber\<close> is third-party code: its five functions are the fields of a
  record over an abstract type \<open>'v\<close> of unpickled values and \<open>'e\<close> of its errors, which
  \<open>ParsePickle\<close> takes as an argument.
\<close>

section \<open>Data\<close>

record Point =
  Value :: float64
  Timestamp :: int64

record Points =
  Metric :: string
  Data :: "Point list option"

definition New :: Points where
  "New = \<lparr>Metric = [], Data = None\<rparr>"

definition OnePoint :: "string \<Rightarrow> float64 \<Rightarrow> int64 \<Rightarrow> Points" where
  "OnePoint metric v timestamp = \<lparr>Metric = metric, Data = Some [\<lparr>Value = v, Timestamp = timestamp\<rparr>]\<rparr>"

text \<open>\<open>NowPoint\<close> takes the clock's reading.\<close>

definition NowPoint :: "int64 \<Rightarrow> string \<Rightarrow> float64 \<Rightarrow> Points" where
  "NowPoint now metric v = OnePoint metric v now"

definition Copy :: "Points \<Rightarrow> Points" where
  "Copy p = \<lparr>Metric = Metric p, Data = Data p\<rparr>"

definition Append :: "Points \<Rightarrow> Point \<Rightarrow> Points" where
  "Append p onePoint = p\<lparr>Data := go_append (Data p) [onePoint]\<rparr>"

definition Add :: "Points \<Rightarrow> float64 \<Rightarrow> int64 \<Rightarrow> Points" where
  "Add p v timestamp = p\<lparr>Data := go_append (Data p) [\<lparr>Value = v, Timestamp = timestamp\<rparr>]\<rparr>"

abbreviation points_of :: "Points \<Rightarrow> Point list" where
  "points_of p \<equiv> elems (Data p)"

section \<open>Eq\<close>

fun eq_loop :: "Point list \<Rightarrow> Point list \<Rightarrow> bool" where
  "eq_loop (a # as) (b # bs) =
     (if \<not> float_eq (Value a) (Value b) then False
      else if Timestamp a \<noteq> Timestamp b then False
      else eq_loop as bs)"
| "eq_loop _ _ = True"

definition Eq :: "Points \<Rightarrow> Points option \<Rightarrow> bool" where
  "Eq p other = (case other of None \<Rightarrow> False
     | Some q \<Rightarrow>
         if Metric p \<noteq> Metric q then False
         else if Data p = None \<and> Data q = None then True
         else if (Data p = None \<or> Data q = None) \<and> (Data p \<noteq> None \<or> Data q \<noteq> None) then False
         else if length (points_of p) \<noteq> length (points_of q) then False
         else eq_loop (points_of p) (points_of q))"

section \<open>The text protocol\<close>

datatype 'e parse_error =
    BadMessage string
  | MetricArrayLength
  | PointArrayLength
  | TimestampRange
  | LibError 'e

abbreviation line_cutset :: string where
  "line_cutset \<equiv> [CHR 0x0A, CHR '' '', CHR 0x09, CHR 0x0D]"

definition ParseText :: "string \<Rightarrow> ('e parse_error, Points) result" where
  "ParseText line =
     (case split_on CHR '' '' (trim line_cutset line) of
        [f0, f1, f2] \<Rightarrow>
          (case ParseFloat f1 of
             None \<Rightarrow> Inl (BadMessage line)
           | Some v \<Rightarrow>
               if IsNaN v then Inl (BadMessage line)
               else (case ParseFloat f2 of
                       None \<Rightarrow> Inl (BadMessage line)
                     | Some tsf \<Rightarrow>
                         if IsNaN tsf then Inl (BadMessage line)
                         else Inr (OnePoint f0 v (int64_of_float tsf))))
      | _ \<Rightarrow> Inl (BadMessage line))"

text \<open>\<open>fmt.Sprintf("%s %v %v\n", p.Metric, d.Value, d.Timestamp)\<close>, the line the dump and \<open>Glue\<close> write.\<close>

definition text_line :: "string \<Rightarrow> Point \<Rightarrow> bytes" where
  "text_line metric d =
     metric @ [CHR '' ''] @ fmt_float (Value d) @ [CHR '' ''] @ fmt_int (Timestamp d) @ [CHR 0x0A]"

section \<open>The pickle protocol\<close>

record ('v, 'e) stalecucumber =
  Unpickle :: "bytes \<Rightarrow> ('e, 'v) result"
  ListOrTuple :: "('e, 'v) result \<Rightarrow> ('e, 'v list) result"
  PString :: "('e, 'v) result \<Rightarrow> ('e, string) result"
  PInt :: "('e, 'v) result \<Rightarrow> ('e, int64) result"
  PFloat :: "('e, 'v) result \<Rightarrow> ('e, float64) result"

definition pickle_timestamp :: "('v, 'e) stalecucumber \<Rightarrow> 'v \<Rightarrow> ('e parse_error, int64) result" where
  "pickle_timestamp lib v =
     (case PInt lib (Inr v) of
        Inr timestamp \<Rightarrow> Inr timestamp
      | Inl _ \<Rightarrow> (case PFloat lib (Inr v) of Inl e \<Rightarrow> Inl (LibError e) | Inr f \<Rightarrow> Inr (int64_of_float f)))"

definition pickle_value :: "('v, 'e) stalecucumber \<Rightarrow> 'v \<Rightarrow> ('e parse_error, float64) result" where
  "pickle_value lib v =
     (case PFloat lib (Inr v) of
        Inr f \<Rightarrow> Inr f
      | Inl _ \<Rightarrow> (case PInt lib (Inr v) of Inl e \<Rightarrow> Inl (LibError e) | Inr i \<Rightarrow> Inr (float64_of_int i)))"

fun pickle_points :: "('v, 'e) stalecucumber \<Rightarrow> Points \<Rightarrow> 'v list \<Rightarrow> ('e parse_error, Points) result" where
  "pickle_points lib msg [] = Inr msg"
| "pickle_points lib msg (m # ms) =
     (case ListOrTuple lib (Inr m) of
        Inl e \<Rightarrow> Inl (LibError e)
      | Inr v \<Rightarrow>
          if length v \<noteq> 2 then Inl PointArrayLength
          else (case pickle_timestamp lib (v ! 0) of
                  Inl e \<Rightarrow> Inl e
                | Inr timestamp \<Rightarrow>
                    if timestamp > 4294967295 \<or> timestamp < 0 then Inl TimestampRange
                    else (case pickle_value lib (v ! 1) of
                            Inl e \<Rightarrow> Inl e
                          | Inr f \<Rightarrow> pickle_points lib (Add msg f timestamp) ms)))"

fun pickle_metrics :: "('v, 'e) stalecucumber \<Rightarrow> Points list \<Rightarrow> 'v list \<Rightarrow> ('e parse_error, Points list) result" where
  "pickle_metrics lib msgs [] = Inr msgs"
| "pickle_metrics lib msgs (l # ls) =
     (case ListOrTuple lib (Inr l) of
        Inl e \<Rightarrow> Inl (LibError e)
      | Inr metric \<Rightarrow>
          if length metric < 2 then Inl MetricArrayLength
          else (case PString lib (Inr (metric ! 0)) of
                  Inl e \<Rightarrow> Inl (LibError e)
                | Inr name \<Rightarrow>
                    (case pickle_points lib (New\<lparr>Metric := name\<rparr>) (tl metric) of
                       Inl e \<Rightarrow> Inl e
                     | Inr msg \<Rightarrow> pickle_metrics lib (msgs @ [msg]) ls)))"

definition ParsePickle :: "('v, 'e) stalecucumber \<Rightarrow> bytes \<Rightarrow> ('e parse_error, Points list) result" where
  "ParsePickle lib pkt =
     (case ListOrTuple lib (Unpickle lib pkt) of
        Inl e \<Rightarrow> Inl (LibError e)
      | Inr list \<Rightarrow> pickle_metrics lib [] list)"

section \<open>Lemmas\<close>

lemmas point_op_defs = New_def OnePoint_def NowPoint_def Copy_def Append_def Add_def

lemma Point_eta [simp]: "\<lparr>Value = Value d, Timestamp = Timestamp d\<rparr> = d"
  by simp

lemma Add_Append: "Add p v t = Append p \<lparr>Value = v, Timestamp = t\<rparr>"
  by (simp add: Add_def Append_def)

lemma points_of_Append [simp]: "points_of (Append p d) = points_of p @ [d]" "Metric (Append p d) = Metric p"
  by (simp_all add: Append_def)

lemma float_eq_sym: "float_eq x y \<longleftrightarrow> float_eq y x"
  by (auto simp: float_eq_def)

lemma float_eq_refl: "float_eq x x \<longleftrightarrow> \<not> IsNaN x"
  by (simp add: float_eq_def)

lemma float_eq_trans: "float_eq x y \<Longrightarrow> float_eq y z \<Longrightarrow> float_eq x z"
  by (auto simp: float_eq_def)

text \<open>The loop of \<open>Eq\<close> compares the points one by one.\<close>

definition point_eq :: "Point \<Rightarrow> Point \<Rightarrow> bool" where
  "point_eq a b \<longleftrightarrow> float_eq (Value a) (Value b) \<and> Timestamp a = Timestamp b"

lemma eq_loop_all2: "length as = length bs \<Longrightarrow> eq_loop as bs \<longleftrightarrow> list_all2 point_eq as bs"
  by (induction as bs rule: eq_loop.induct) (auto simp: point_eq_def)

lemma Eq_iff:
  "Eq p (Some q) \<longleftrightarrow> Metric p = Metric q \<and> (Data p = None \<longleftrightarrow> Data q = None) \<and> list_all2 point_eq (points_of p) (points_of q)"
  by (auto simp: Eq_def eq_loop_all2 list_all2_lengthD)

subsection \<open>The text protocol\<close>

text \<open>The names for which a text line carries exactly one metric.\<close>

definition text_metric :: "string \<Rightarrow> bool" where
  "text_metric m \<longleftrightarrow> m \<noteq> [] \<and> list_all (\<lambda>c. c \<notin> set line_cutset) m"

lemma num_char_cutset: "num_char c \<Longrightarrow> c \<notin> set line_cutset"
  using num_char_graphic by simp

lemma no_cutset_fmt_float: "c \<in> set line_cutset \<Longrightarrow> c \<notin> set (fmt_float x)"
  using fmt_float_chars(1) [of x] num_char_cutset by (auto simp: list_all_iff)

lemma no_cutset_fmt_int: "c \<in> set line_cutset \<Longrightarrow> c \<notin> set (fmt_int i)"
  using fmt_int_chars(1) [of i] num_char_cutset by (auto simp: list_all_iff)

lemma trim_text_line:
  assumes "text_metric m"
  shows "trim line_cutset (text_line m d) = m @ CHR '' '' # fmt_float (Value d) @ CHR '' '' # fmt_int (Timestamp d)"
    (is "_ = ?l")
proof -
  have m: "m \<noteq> []" "hd m \<notin> set line_cutset" using assms by (cases m; auto simp: text_metric_def)+
  have l: "last (fmt_int (Timestamp d)) \<notin> set line_cutset"
    using no_cutset_fmt_int [of _ "Timestamp d"] fmt_int_chars(2) last_in_set by blast
  have "trim_left line_cutset (text_line m d) = text_line m d"
    using m by (intro trim_left_id) (simp add: text_line_def)
  then have "trim line_cutset (text_line m d) = trim_right line_cutset (?l @ [CHR 0x0A])"
    by (simp add: trim_def text_line_def)
  also have "\<dots> = trim_right line_cutset ?l" by (rule trim_right_end) simp
  also have "\<dots> = ?l"
    using l fmt_int_chars(2) [of "Timestamp d"] by (intro trim_right_id) simp
  finally show ?thesis .
qed

lemma split_text_line:
  assumes "text_metric m"
  shows "split_on CHR '' '' (trim line_cutset (text_line m d)) = [m, fmt_float (Value d), fmt_int (Timestamp d)]"
proof -
  have "CHR '' '' \<notin> set m" using assms by (auto simp: text_metric_def list_all_iff)
  then show ?thesis
    by (simp add: trim_text_line [OF assms] split_on_append_sep no_cutset_fmt_float split_on_no_sep no_cutset_fmt_int)
qed

lemma ParseText_text_line:
  assumes "text_metric m" "\<not> IsNaN (Value d)" "\<bar>Timestamp d\<bar> < 2 ^ 53"
  shows "ParseText (text_line m d) = Inr (OnePoint m (Value d) (Timestamp d))"
  using ParseFloat_int_roundtrip [OF assms(3)] ParseFloat_fmt_float [OF assms(2)] assms(2)
  by (auto simp: ParseText_def split_text_line [OF assms(1)])

lemma ParseText_NaN: "text_metric m \<Longrightarrow> IsNaN (Value d) \<Longrightarrow> ParseText (text_line m d) = Inl (BadMessage (text_line m d))"
  by (simp add: ParseText_def split_text_line ParseFloat_NaN)

lemma ParseText_Inr:
  assumes "ParseText line = Inr p"
  obtains m f1 f2 v tsf where "split_on CHR '' '' (trim line_cutset line) = [m, f1, f2]" "ParseFloat f1 = Some v" "\<not> IsNaN v"
    "ParseFloat f2 = Some tsf" "\<not> IsNaN tsf" "p = OnePoint m v (int64_of_float tsf)"
  using assms by (auto simp: ParseText_def split: list.splits option.splits if_splits)

lemma text_line_newline: "text_metric m \<Longrightarrow> cut_line CHR 0x0A (text_line m d @ rest) = Some (text_line m d, rest)"
  using no_cutset_fmt_float [of "CHR 0x0A" "Value d"] no_cutset_fmt_int [of "CHR 0x0A" "Timestamp d"]
  by (auto simp: cut_line_Some text_line_def text_metric_def list_all_iff butlast_append)

lemma trim_left_hd: "trim_left cs s = [] \<or> hd (trim_left cs s) \<notin> set cs"
  unfolding trim_left_def using hd_dropWhile [of "\<lambda>c. c \<in> set cs" s] by blast

lemma trim_right_prefix: "prefix (trim_right cs s) s"
proof -
  have "s = rev (dropWhile (\<lambda>c. c \<in> set cs) (rev s)) @ rev (takeWhile (\<lambda>c. c \<in> set cs) (rev s))"
    by (metis rev_append rev_rev_ident takeWhile_dropWhile_id)
  then show ?thesis unfolding trim_right_def prefix_def by blast
qed

lemma trim_hd: "trim cs s = [] \<or> hd (trim cs s) \<notin> set cs"
proof -
  obtain r where "trim_left cs s = trim cs s @ r"
    using trim_right_prefix [of cs "trim_left cs s"] by (auto simp: prefix_def trim_def)
  then show ?thesis using trim_left_hd [of cs s] by (cases "trim cs s") auto
qed

lemma split_on_first_nonempty:
  assumes "split_on c s = f # fs" "s \<noteq> []" "hd s \<noteq> c" shows "f \<noteq> []"
  using assms by (cases s) (auto split: list.splits if_splits)

lemma int64_of_float_range: "- (2 ^ 63) \<le> int64_of_float x \<and> int64_of_float x < 2 ^ 63"
  by (simp add: int64_of_float_def Let_def)

subsection \<open>The pickle protocol\<close>

text \<open>What a well-formed message is: a sequence of a name and at least one pair.\<close>

definition point_of :: "('v, 'e) stalecucumber \<Rightarrow> 'v \<Rightarrow> Point \<Rightarrow> bool" where
  "point_of lib m d \<longleftrightarrow>
     (\<exists>a b. ListOrTuple lib (Inr m) = Inr [a, b] \<and> pickle_timestamp lib a = Inr (Timestamp d)
        \<and> 0 \<le> Timestamp d \<and> Timestamp d \<le> 4294967295 \<and> pickle_value lib b = Inr (Value d))"

definition metric_of :: "('v, 'e) stalecucumber \<Rightarrow> 'v \<Rightarrow> Points \<Rightarrow> bool" where
  "metric_of lib l p \<longleftrightarrow>
     (\<exists>nm pts. ListOrTuple lib (Inr l) = Inr (nm # pts) \<and> pts \<noteq> [] \<and> PString lib (Inr nm) = Inr (Metric p)
        \<and> Data p \<noteq> None \<and> list_all2 (point_of lib) pts (points_of p))"

lemma length_two: "length v = 2 \<longleftrightarrow> (\<exists>a b. v = [a, b])"
  by (auto simp: numeral_2_eq_2 length_Suc_conv)

lemma pickle_points_Cons:
  "pickle_points lib msg (m # ms) = Inr p \<longleftrightarrow> (\<exists>d. point_of lib m d \<and> pickle_points lib (Append msg d) ms = Inr p)"
proof
  assume "pickle_points lib msg (m # ms) = Inr p"
  then obtain a b t f where m: "ListOrTuple lib (Inr m) = Inr [a, b]" "pickle_timestamp lib a = Inr t" "0 \<le> t" "t \<le> 4294967295"
    "pickle_value lib b = Inr f" and r: "pickle_points lib (Add msg f t) ms = Inr p"
    by (auto simp: length_two split: sum.splits if_splits)
  then show "\<exists>d. point_of lib m d \<and> pickle_points lib (Append msg d) ms = Inr p"
    by (intro exI [of _ "\<lparr>Value = f, Timestamp = t\<rparr>"]) (simp add: point_of_def Add_Append)
next
  show "\<exists>d. point_of lib m d \<and> pickle_points lib (Append msg d) ms = Inr p \<Longrightarrow> pickle_points lib msg (m # ms) = Inr p"
    by (auto simp: point_of_def Add_Append)
qed

lemma pickle_points_Inr:
  "pickle_points lib msg ms = Inr p \<longleftrightarrow>
     Metric p = Metric msg \<and> (\<exists>ds. list_all2 (point_of lib) ms ds \<and> Data p = go_append (Data msg) ds)"
proof (induction ms arbitrary: msg)
  case (Cons m ms)
  have "go_append (Data (Append msg d)) ds = go_append (Data msg) (d # ds)" for d ds
    by (simp add: Append_def go_append_def)
  then show ?case unfolding pickle_points_Cons Cons.IH by (auto simp: list_all2_Cons1)
qed (cases p; cases msg; auto)

lemma metric_of_iff:
  assumes "ListOrTuple lib (Inr l) = Inr (nm # pts)" "pts \<noteq> []"
  shows "metric_of lib l p \<longleftrightarrow> (\<exists>name. PString lib (Inr nm) = Inr name \<and> pickle_points lib (New\<lparr>Metric := name\<rparr>) pts = Inr p)"
proof -
  have ne: "ds \<noteq> []" if "list_all2 (point_of lib) pts ds" for ds using that assms(2) by auto
  have "(\<exists>ds. list_all2 (point_of lib) pts ds \<and> Data p = go_append None ds)
      \<longleftrightarrow> (\<exists>ds. list_all2 (point_of lib) pts ds \<and> Data p = Some ds)"
    using ne by (metis append_Nil elems_simps(1) go_append_def)
  also have "\<dots> \<longleftrightarrow> Data p \<noteq> None \<and> list_all2 (point_of lib) pts (points_of p)" by (cases "Data p") simp_all
  finally have data: "(\<exists>ds. list_all2 (point_of lib) pts ds \<and> Data p = go_append None ds)
      \<longleftrightarrow> Data p \<noteq> None \<and> list_all2 (point_of lib) pts (points_of p)" .
  have new: "Metric (New\<lparr>Metric := name\<rparr>) = name" "Data (New\<lparr>Metric := name\<rparr>) = None" for name by (simp_all add: New_def)
  have "metric_of lib l p \<longleftrightarrow> PString lib (Inr nm) = Inr (Metric p) \<and> Data p \<noteq> None \<and> list_all2 (point_of lib) pts (points_of p)"
    using assms by (simp add: metric_of_def)
  then show ?thesis unfolding pickle_points_Inr new data by metis
qed

lemma pickle_metrics_Cons:
  "pickle_metrics lib msgs (l # ls) = Inr r \<longleftrightarrow> (\<exists>p. metric_of lib l p \<and> pickle_metrics lib (msgs @ [p]) ls = Inr r)"
proof (cases "\<exists>nm pts. ListOrTuple lib (Inr l) = Inr (nm # pts) \<and> pts \<noteq> []")
  case True
  then obtain nm pts where v: "ListOrTuple lib (Inr l) = Inr (nm # pts)" "pts \<noteq> []" by blast
  then have "\<not> length (nm # pts) < 2" by (cases pts) auto
  with v show ?thesis unfolding metric_of_iff [OF v] by (auto split: sum.splits)
next
  case False
  then have "length v < 2" if "ListOrTuple lib (Inr l) = Inr v" for v
    using that by (cases v rule: list.exhaust [case_product list.exhaust [of "tl v"]]) auto
  then have "pickle_metrics lib msgs (l # ls) \<noteq> Inr r" by (auto split: sum.splits)
  moreover have "\<not> metric_of lib l p" for p using False by (auto simp: metric_of_def)
  ultimately show ?thesis by blast
qed

lemma pickle_metrics_Inr:
  "pickle_metrics lib msgs ls = Inr r \<longleftrightarrow> (\<exists>ps. r = msgs @ ps \<and> list_all2 (metric_of lib) ls ps)"
proof (induction ls arbitrary: msgs)
  case (Cons l ls)
  then show ?case unfolding pickle_metrics_Cons Cons.IH by (auto simp: list_all2_Cons1)
qed auto

lemma metric_of_bounds:
  assumes "metric_of lib l p"
  shows "points_of p \<noteq> [] \<and> list_all (\<lambda>d. 0 \<le> Timestamp d \<and> Timestamp d < 2 ^ 32) (points_of p)"
proof -
  obtain pts where p: "pts \<noteq> []" "list_all2 (point_of lib) pts (points_of p)" using assms by (auto simp: metric_of_def)
  have "list_all (\<lambda>d. 0 \<le> Timestamp d \<and> Timestamp d < 2 ^ 32) (points_of p)"
    using p(2) by (induction rule: list_all2_induct) (auto simp: point_of_def)
  with p show ?thesis by auto
qed

section \<open>Properties\<close>

text \<open>C5. A line the program prints for a point whose value is not NaN and whose timestamp a \<open>float64\<close>
  represents is read back by \<open>ParseText\<close> as exactly that point of that metric.\<close>

theorem text_roundtrip:
  assumes "text_metric m" "\<not> IsNaN (Value d)" "\<bar>Timestamp d\<bar> < 2 ^ 53"
  shows "ParseText (text_line m d) = Inr (OnePoint m (Value d) (Timestamp d))"
  using assms by (rule ParseText_text_line)

theorem text_roundtrip_witness:
  "text_metric ''a.b'' \<and> \<not> IsNaN (Value \<lparr>Value = 0x4045133333333333, Timestamp = 1422641531\<rparr>) \<and>
   ParseText (text_line ''a.b'' \<lparr>Value = 0x4045133333333333, Timestamp = 1422641531\<rparr>)
     = Inr (OnePoint ''a.b'' 0x4045133333333333 1422641531)"
  using text_roundtrip [of "''a.b''" "\<lparr>Value = 0x4045133333333333, Timestamp = 1422641531\<rparr>"]
  by (simp add: text_metric_def IsNaN_def f_exp_def f_frac_def)

text \<open>What \<open>ParseText\<close> accepts: the metric is not empty and has no space, there is exactly one
  point, its value is not NaN and its timestamp is an \<open>int64\<close>.\<close>

theorem parse_text_sound:
  assumes "ParseText line = Inr p"
  shows "\<exists>m v t. p = OnePoint m v t \<and> m \<noteq> [] \<and> CHR '' '' \<notin> set m \<and> \<not> IsNaN v \<and> - (2 ^ 63) \<le> t \<and> t < 2 ^ 63"
proof -
  from assms obtain m f1 f2 v tsf where s: "split_on CHR '' '' (trim line_cutset line) = [m, f1, f2]" and "\<not> IsNaN v"
    "p = OnePoint m v (int64_of_float tsf)"
    by (rule ParseText_Inr)
  moreover have "trim line_cutset line \<noteq> []" using s by auto
  then have "m \<noteq> []" using split_on_first_nonempty [OF s] trim_hd [of line_cutset line] by simp
  moreover have "CHR '' '' \<notin> set m" using split_on_words [of m "CHR '' ''" "trim line_cutset line"] s by simp
  ultimately show ?thesis using int64_of_float_range by blast
qed

theorem parse_text_sound_witness:
  "\<exists>m v t. OnePoint ''a.b'' 0x4045133333333333 1422641531 = OnePoint m v t \<and> m \<noteq> [] \<and> CHR '' '' \<notin> set m
     \<and> \<not> IsNaN v \<and> - (2 ^ 63) \<le> t \<and> t < 2 ^ 63"
  by (rule parse_text_sound [of "text_line ''a.b'' \<lparr>Value = 0x4045133333333333, Timestamp = 1422641531\<rparr>"])
    (simp add: ParseText_text_line text_metric_def IsNaN_def f_exp_def f_frac_def)

text \<open>\<open>ParsePickle\<close> succeeds exactly on a list of well-formed messages, and then returns those
  messages, every point of them and nothing else, in order.\<close>

theorem ParsePickle_iff:
  "ParsePickle lib pkt = Inr msgs \<longleftrightarrow>
     (\<exists>list. ListOrTuple lib (Unpickle lib pkt) = Inr list \<and> list_all2 (metric_of lib) list msgs)"
  by (auto simp: ParsePickle_def pickle_metrics_Inr split: sum.splits)

text \<open>Every message \<open>ParsePickle\<close> returns has at least one point, and every timestamp fits an
  unsigned 32-bit integer.\<close>

theorem ParsePickle_bounds:
  assumes "ParsePickle lib pkt = Inr msgs"
  shows "list_all (\<lambda>p. points_of p \<noteq> [] \<and> list_all (\<lambda>d. 0 \<le> Timestamp d \<and> Timestamp d < 2 ^ 32) (points_of p)) msgs"
proof -
  obtain list where "list_all2 (metric_of lib) list msgs"
    using assms by (auto simp: ParsePickle_def pickle_metrics_Inr split: sum.splits)
  then show ?thesis by (induction rule: list_all2_induct) (auto dest: metric_of_bounds)
qed

datatype pickled = PkInt int | PkFloat float64 | PkStr string | PkSeq "pickled list"

text \<open>A decoder of four kinds of values that always unpickles the same packet, for the witness.\<close>

definition sample_lib :: "pickled \<Rightarrow> (pickled, unit) stalecucumber" where
  "sample_lib v = \<lparr>Unpickle = (\<lambda>_. Inr v),
     ListOrTuple = (\<lambda>r. case r of Inr (PkSeq vs) \<Rightarrow> Inr vs | _ \<Rightarrow> Inl ()),
     PString = (\<lambda>r. case r of Inr (PkStr t) \<Rightarrow> Inr t | _ \<Rightarrow> Inl ()),
     PInt = (\<lambda>r. case r of Inr (PkInt i) \<Rightarrow> Inr i | _ \<Rightarrow> Inl ()),
     PFloat = (\<lambda>r. case r of Inr (PkFloat f) \<Rightarrow> Inr f | _ \<Rightarrow> Inl ())\<rparr>"

theorem ParsePickle_bounds_witness:
  "list_all (\<lambda>p. points_of p \<noteq> [] \<and> list_all (\<lambda>d. 0 \<le> Timestamp d \<and> Timestamp d < 2 ^ 32) (points_of p))
     [\<lparr>Metric = ''m'', Data = Some [\<lparr>Value = 7, Timestamp = 60\<rparr>]\<rparr>]"
  by (rule ParsePickle_bounds [of "sample_lib (PkSeq [PkSeq [PkStr ''m'', PkSeq [PkInt 60, PkFloat 7]]])" "[]"])
    (simp add: ParsePickle_def sample_lib_def pickle_timestamp_def pickle_value_def New_def Add_def go_append_def)

text \<open>\<open>Eq\<close> is an equality: symmetric, never true of nil, and true of a value and itself exactly
  when it holds no NaN.\<close>

theorem Eq_equality:
  "(Eq p (Some q) \<longleftrightarrow> Eq q (Some p)) \<and> \<not> Eq p None \<and> (Eq p (Some p) \<longleftrightarrow> list_all (\<lambda>d. \<not> IsNaN (Value d)) (points_of p))"
proof -
  have "point_eq a b = point_eq b a" for a b by (auto simp: point_eq_def float_eq_sym)
  then have "list_all2 point_eq as bs = list_all2 point_eq bs as" for as bs
    by (metis (no_types, lifting) list_all2_conv_all_nth)
  moreover have "list_all2 point_eq as as \<longleftrightarrow> list_all (\<lambda>d. \<not> IsNaN (Value d)) as" for as
    by (induction as) (auto simp: point_eq_def float_eq_refl)
  moreover have "\<not> Eq p None" by (simp add: Eq_def)
  ultimately show ?thesis unfolding Eq_iff by metis
qed

end
