(* ===== verification/Point_Store.thy ===== *)
theory Point_Store
  imports Points_Model
begin

text \<open>
  The contract of a store of points, as the receivers and the persister use the cache: \<open>put\<close> adds a
  message, \<open>take_out\<close> hands over the whole of one metric or nothing, possibly failing. What the
  clients rely on follows from five laws, whatever order the store chooses: per metric, the points
  come out in the order in which they went in, none lost and none twice.
\<close>

datatype ('p, 'env) store_op = Put 'p | Take 'env

text \<open>A history: the messages that went in, those that came out, and the final state.\<close>

fun store_run ::
  "('s \<Rightarrow> 'p \<Rightarrow> 's) \<Rightarrow> ('s \<Rightarrow> 'p \<Rightarrow> bool) \<Rightarrow> ('s \<Rightarrow> 'p \<Rightarrow> string \<times> Point list)
   \<Rightarrow> ('env \<Rightarrow> 's \<Rightarrow> ('e, 'p option \<times> 's) result) \<Rightarrow> ('env \<Rightarrow> 's \<Rightarrow> bool)
   \<Rightarrow> 's \<Rightarrow> ('p, 'env) store_op list \<Rightarrow> ((string \<times> Point list) list \<times> (string \<times> Point list) list \<times> 's) option" where
  "store_run put fresh item tk adm s [] = Some ([], [], s)"
| "store_run put fresh item tk adm s (Put p # ops) =
     (if fresh s p
      then (case store_run put fresh item tk adm (put s p) ops of
              None \<Rightarrow> None | Some (ins, outs, s') \<Rightarrow> Some (item s p # ins, outs, s'))
      else None)"
| "store_run put fresh item tk adm s (Take env # ops) =
     (if adm env s
      then (case tk env s of
              Inl _ \<Rightarrow> None
            | Inr (r, s1) \<Rightarrow>
                (case store_run put fresh item tk adm s1 ops of
                   None \<Rightarrow> None
                 | Some (ins, outs, s') \<Rightarrow> Some (ins, (case r of None \<Rightarrow> outs | Some v \<Rightarrow> item s v # outs), s')))
      else None)"

definition of_metric :: "string \<Rightarrow> (string \<times> Point list) list \<Rightarrow> Point list" where
  "of_metric m xs = concat (map snd (filter (\<lambda>x. fst x = m) xs))"

lemma of_metric_simps [simp]:
  "of_metric m [] = []" "of_metric m (x # xs) = (if fst x = m then snd x else []) @ of_metric m xs"
  by (simp_all add: of_metric_def)

locale point_store =
  fixes sinv :: "'s \<Rightarrow> bool" and view :: "'s \<Rightarrow> string \<rightharpoonup> Point list"
    and put :: "'s \<Rightarrow> 'p \<Rightarrow> 's" and fresh :: "'s \<Rightarrow> 'p \<Rightarrow> bool" and item :: "'s \<Rightarrow> 'p \<Rightarrow> string \<times> Point list"
    and tk :: "'env \<Rightarrow> 's \<Rightarrow> ('e, 'p option \<times> 's) result" and adm :: "'env \<Rightarrow> 's \<Rightarrow> bool"
  assumes put_inv: "sinv s \<Longrightarrow> fresh s p \<Longrightarrow> sinv (put s p)"
    and put_view: "sinv s \<Longrightarrow> fresh s p \<Longrightarrow> item s p = (m, pts) \<Longrightarrow>
      view (put s p) = (view s)(m \<mapsto> elems (view s m) @ pts)"
    and take_inv: "sinv s \<Longrightarrow> adm env s \<Longrightarrow> tk env s = Inr (r, s') \<Longrightarrow> sinv s'"
    and take_none: "sinv s \<Longrightarrow> adm env s \<Longrightarrow> tk env s = Inr (None, s') \<Longrightarrow> view s' = view s"
    and take_some: "sinv s \<Longrightarrow> adm env s \<Longrightarrow> tk env s = Inr (Some v, s') \<Longrightarrow> item s v = (m, pts) \<Longrightarrow>
      view s m = Some pts \<and> view s' = (view s)(m := None)"
begin

lemma run_fifo:
  assumes "store_run put fresh item tk adm s ops = Some (ins, outs, s')" "sinv s"
  shows "elems (view s m) @ of_metric m ins = of_metric m outs @ elems (view s' m) \<and> sinv s'"
  using assms
proof (induction ops arbitrary: s ins outs)
  case (Cons oper ops)
  show ?case
  proof (cases oper)
    case (Put p)
    with Cons.prems obtain ins1 where f: "fresh s p" and i: "ins = item s p # ins1"
      and r: "store_run put fresh item tk adm (put s p) ops = Some (ins1, outs, s')"
      by (auto split: if_splits option.splits)
    have "view (put s p) = (view s)(fst (item s p) \<mapsto> elems (view s (fst (item s p))) @ snd (item s p))"
      using put_view [OF Cons.prems(2) f, of "fst (item s p)" "snd (item s p)"] by simp
    then show ?thesis using Cons.IH [OF r put_inv [OF Cons.prems(2) f]] i by auto
  next
    case (Take env)
    with Cons.prems obtain o1 s1 outs1 where a: "adm env s" and t: "tk env s = Inr (o1, s1)"
      and r: "store_run put fresh item tk adm s1 ops = Some (ins, outs1, s')"
      and o: "outs = (case o1 of None \<Rightarrow> outs1 | Some v \<Rightarrow> item s v # outs1)"
      by (auto split: if_splits option.splits sum.splits)
    note ih = Cons.IH [OF r take_inv [OF Cons.prems(2) a t]]
    show ?thesis
    proof (cases o1)
      case None
      then show ?thesis using ih o take_none [OF Cons.prems(2) a] t by simp
    next
      case (Some v)
      then have "view s (fst (item s v)) = Some (snd (item s v)) \<and> view s1 = (view s)(fst (item s v) := None)"
        using take_some [OF Cons.prems(2) a, of v s1 "fst (item s v)" "snd (item s v)"] t by simp
      then show ?thesis using ih o Some by (cases "fst (item s v) = m") auto
    qed
  qed
qed auto

end

end
