(* ===== verification/Counters.thy ===== *)
theory Counters
  imports Go_Float
begin

unbundle bit_operations_syntax

text \<open>
  The statistics counters, \<open>src/helper/atomic_utils.go\<close>. A worker increments a counter with
  \<open>atomic.AddUint32\<close>; the collector reads it, subtracts what it read and sends it. The two
  atomic operations are separate, so other goroutines may write between them: each definition takes
  what they did there (\<open>between\<close>: the sum they added; \<open>stored\<close>: the value they left). A call of the
  callback \<open>send\<close> is the pair of its arguments.

  The interface of a drained counter is the locale \<open>drained_counter\<close>; both widths interpret it.
\<close>

section \<open>Operations\<close>

type_synonym sent = "string \<times> float64"

definition SendAndSubstractUint64 :: "string \<Rightarrow> uint64 \<Rightarrow> uint64 \<Rightarrow> uint64 \<times> sent" where
  "SendAndSubstractUint64 metric between v =
     (let res = v; v1 = v + between
      in (v1 + NOT (res - 1), (metric, float64_of_nat (unat res))))"

definition SendUint64 :: "string \<Rightarrow> uint64 \<Rightarrow> sent" where
  "SendUint64 metric v = (metric, float64_of_nat (unat v))"

definition SendAndSubstractUint32 :: "string \<Rightarrow> uint32 \<Rightarrow> uint32 \<Rightarrow> uint32 \<times> sent" where
  "SendAndSubstractUint32 metric between v =
     (let res = v; v1 = v + between
      in (v1 + NOT (res - 1), (metric, float64_of_nat (unat res))))"

definition SendAndZeroIfNotUpdatedUint32 :: "string \<Rightarrow> uint32 option \<Rightarrow> uint32 \<Rightarrow> uint32 \<times> sent" where
  "SendAndZeroIfNotUpdatedUint32 metric stored v =
     (let res = v; v1 = (case stored of None \<Rightarrow> v | Some w \<Rightarrow> w)
      in (if v1 = res then 0 else v1, (metric, float64_of_nat (unat res))))"

section \<open>The interface\<close>

text \<open>What a counter sees: increments by workers, and reports during which increments happen.\<close>

datatype 'w counter_event = Inc 'w | Report 'w

locale drained_counter =
  fixes drain :: "'w::len word \<Rightarrow> 'w word \<Rightarrow> 'w word \<times> sent"
  assumes drain_rest: "fst (drain between v) = between"
    and drain_sent: "\<exists>m. snd (drain between v) = (m, float64_of_nat (unat v))"
begin

fun run :: "'w word \<Rightarrow> 'w word counter_event list \<Rightarrow> 'w word \<times> 'w word list" where
  "run v [] = (v, [])"
| "run v (Inc n # es) = run (v + n) es"
| "run v (Report b # es) = (let (v', rs) = run (fst (drain b v)) es in (v', v # rs))"

fun added :: "'w word counter_event list \<Rightarrow> 'w word" where
  "added [] = 0"
| "added (Inc n # es) = n + added es"
| "added (Report b # es) = b + added es"

lemma run_conserves: "fst (run v es) + sum_list (snd (run v es)) = v + added es"
proof (induction es arbitrary: v)
  case (Cons e es)
  show ?case
  proof (cases e)
    case (Inc n)
    then show ?thesis using Cons.IH [of "v + n"] by (simp add: add.assoc)
  next
    case (Report b)
    then show ?thesis using Cons.IH [of b]
      by (simp add: drain_rest Let_def case_prod_beta algebra_simps)
  qed
qed simp

end

lemma not_minus_one: "NOT (x - 1) = - (x::'a::len word)"
  by (simp add: not_eq_complement)

interpretation count32: drained_counter "SendAndSubstractUint32 metric" for metric
  by unfold_locales (simp_all add: SendAndSubstractUint32_def Let_def not_minus_one)

interpretation count64: drained_counter "SendAndSubstractUint64 metric" for metric
  by unfold_locales (simp_all add: SendAndSubstractUint64_def Let_def not_minus_one)

text \<open>The increments and the reported values of a history, without the locale.\<close>

fun count32_run :: "string \<Rightarrow> uint32 \<Rightarrow> uint32 counter_event list \<Rightarrow> uint32 \<times> sent list" where
  "count32_run metric v [] = (v, [])"
| "count32_run metric v (Inc n # es) = count32_run metric (v + n) es"
| "count32_run metric v (Report b # es) =
     (let (v', s) = SendAndSubstractUint32 metric b v; (v'', ss) = count32_run metric v' es in (v'', s # ss))"

fun incremented :: "'w::len word counter_event list \<Rightarrow> 'w word" where
  "incremented [] = 0"
| "incremented (Inc n # es) = n + incremented es"
| "incremented (Report b # es) = b + incremented es"

lemma count32_added: "count32.added es = incremented es"
  by (induction es rule: incremented.induct) auto

lemma count32_run_run:
  "count32_run metric v es =
     (fst (count32.run metric v es), map (\<lambda>r. (metric, float64_of_nat (unat r))) (snd (count32.run metric v es)))"
  by (induction es arbitrary: v rule: incremented.induct)
    (auto simp: SendAndSubstractUint32_def Let_def case_prod_beta not_minus_one)

section \<open>Properties\<close>

text \<open>No count is lost or sent twice: in every history of increments and reports, also when
  increments fall between the two atomic operations of a report, the numbers sent and the rest of
  the counter add up to the increments (modulo the width of the counter).\<close>

theorem counter_conservation:
  "\<exists>rs. snd (count32_run metric 0 es) = map (\<lambda>r. (metric, float64_of_nat (unat r))) rs
     \<and> fst (count32_run metric 0 es) + sum_list rs = incremented es"
  using count32.run_conserves [of metric 0 es]
  by (intro exI [of _ "snd (count32.run metric 0 es)"]) (simp add: count32_run_run count32_added)

text \<open>A gauge that nobody stored to during the report is sent and reset; a value stored meanwhile
  stays for the next report, unless it equals the value that was sent.\<close>

lemma gauge_kept:
  "SendAndZeroIfNotUpdatedUint32 metric stored v =
     (case stored of None \<Rightarrow> 0 | Some w \<Rightarrow> if w = v then 0 else w, (metric, float64_of_nat (unat v)))"
  by (simp add: SendAndZeroIfNotUpdatedUint32_def split: option.splits)

end
