(* ===== verification/Cache_Model.thy ===== *)
theory Cache_Model
  imports Point_Store Counters
begin

text \<open>
  The cache, \<open>src/cache/cache.go\<close>: the map of metrics with their points, the write-out queue and
  its strategies, the size accounting, the statistics and the dump. The two goroutines that use it
  are in \<open>Cache_Worker\<close>.

  The map and the queue hold pointers, and \<open>Add\<close> appends to a \<open>Points\<close> that the queue also
  refers to, so the model has a memory \<open>addr \<Rightarrow> Points\<close> which the operations read and write.
  \<open>sort.Sort\<close> is not stable; here it is a stable sort of the order in which \<open>range\<close> visits
  the map, and as every visiting order is allowed, every sorted arrangement is a result.
  What the operations read from outside (that order, the clock, the length of the input channel)
  is the record \<open>get_env\<close>.
\<close>

section \<open>Data\<close>

type_synonym memory = "addr \<Rightarrow> Points"

datatype WriteStrategy = MaximumLength | TimestampOrder | Noop

datatype panic = IndexOutOfRange

text \<open>A channel of \<open>*Points\<close>: its capacity and the buffered pointers, oldest first.\<close>

record chan =
  capacity :: nat
  buffered :: "addr list"

record Cache =
  data :: "string \<rightharpoonup> addr"
  csize :: uint32
  sizeShared :: uint32
  metricCount :: uint32
  maxSize :: uint32
  inputChan :: "chan option"
  inputCapacity :: nat
  outputChan :: "chan option"
  queryCap :: nat
  confirmChan :: chan
  queryCnt :: uint32
  overflowCnt :: uint32
  writeStrategy :: WriteStrategy
  queue :: "addr list"
  queueBuildCnt :: uint32
  queueBuildTime :: uint32
  maxInputLenBeforeQueueRebuild :: uint32
  maxInputLenAfterQueueRebuild :: uint32
  queueWriteoutStart :: "int option"
  queueWriteoutTime :: uint32

definition Cache_New :: Cache where
  "Cache_New = \<lparr>data = Map.empty, csize = 0, sizeShared = 0, metricCount = 0, maxSize = 1000000,
     inputChan = None, inputCapacity = 51200, outputChan = None, queryCap = 16,
     confirmChan = \<lparr>capacity = 2048, buffered = []\<rparr>, queryCnt = 0, overflowCnt = 0,
     writeStrategy = MaximumLength, queue = [], queueBuildCnt = 0, queueBuildTime = 0,
     maxInputLenBeforeQueueRebuild = 0, maxInputLenAfterQueueRebuild = 0,
     queueWriteoutStart = None, queueWriteoutTime = 0\<rparr>"

section \<open>Setters and getters\<close>

text \<open>The error carries the rejected name.\<close>

definition SetWriteStrategy :: "string \<Rightarrow> Cache \<Rightarrow> (string, Cache) result" where
  "SetWriteStrategy s c =
     (if s = ''max'' then Inr (c\<lparr>writeStrategy := MaximumLength\<rparr>)
      else if s = ''sort'' then Inr (c\<lparr>writeStrategy := TimestampOrder\<rparr>)
      else if s = ''noop'' then Inr (c\<lparr>writeStrategy := Noop\<rparr>)
      else Inl s)"

definition SetInputCapacity :: "nat \<Rightarrow> Cache \<Rightarrow> Cache" where
  "SetInputCapacity sz c = c\<lparr>inputCapacity := sz\<rparr>"

definition SetMaxSize :: "uint32 \<Rightarrow> Cache \<Rightarrow> Cache" where
  "SetMaxSize sz c = c\<lparr>maxSize := sz\<rparr>"

definition SetOutputChanSize :: "nat \<Rightarrow> Cache \<Rightarrow> Cache" where
  "SetOutputChanSize sz c = c\<lparr>outputChan := Some \<lparr>capacity = sz, buffered = []\<rparr>\<rparr>"

definition Size :: "Cache \<Rightarrow> uint32" where
  "Size c = sizeShared c"

definition Cache_In :: "Cache \<Rightarrow> Cache \<times> chan" where
  "Cache_In c = (case inputChan c of
       Some ch \<Rightarrow> (c, ch)
     | None \<Rightarrow> (let ch = \<lparr>capacity = inputCapacity c, buffered = []\<rparr> in (c\<lparr>inputChan := Some ch\<rparr>, ch)))"

definition Cache_Out :: "Cache \<Rightarrow> Cache \<times> chan" where
  "Cache_Out c = (case outputChan c of
       Some ch \<Rightarrow> (c, ch)
     | None \<Rightarrow> (let ch = \<lparr>capacity = 1024, buffered = []\<rparr> in (c\<lparr>outputChan := Some ch\<rparr>, ch)))"

section \<open>The write-out queue\<close>

record get_env =
  range_order :: "string list"
  now_writeout :: int
  now_start :: int
  now_built :: int
  now_after :: int
  input_before :: nat
  input_after :: nat

definition getNext :: "Cache \<Rightarrow> addr option \<times> Cache" where
  "getNext c = (if queue c = [] then (None, c) else (Some (last (queue c)), c\<lparr>queue := butlast (queue c)\<rparr>))"

definition byLength :: "memory \<Rightarrow> addr list \<Rightarrow> addr list" where
  "byLength mem q = sort_key (\<lambda>a. length (points_of (mem a))) q"

text \<open>\<open>Less\<close> reads \<open>Data[0]\<close> of both sides; every element takes part in a comparison when there are two.\<close>

definition byTimestamp :: "memory \<Rightarrow> addr list \<Rightarrow> (panic, addr list) result" where
  "byTimestamp mem q =
     (if 2 \<le> length q \<and> \<not> list_all (\<lambda>a. points_of (mem a) \<noteq> []) q then Inl IndexOutOfRange
      else Inr (sort_key (\<lambda>a. - Timestamp (hd (points_of (mem a)))) q))"

definition sort_queue :: "WriteStrategy \<Rightarrow> memory \<Rightarrow> addr list \<Rightarrow> (panic, addr list) result" where
  "sort_queue ws mem q =
     (case ws of MaximumLength \<Rightarrow> Inr (byLength mem q) | TimestampOrder \<Rightarrow> byTimestamp mem q | Noop \<Rightarrow> Inr q)"

definition updateQueue :: "get_env \<Rightarrow> memory \<Rightarrow> Cache \<Rightarrow> (panic, Cache) result" where
  "updateQueue env mem c =
     (if csize c = 0 then Inr c
      else (case sort_queue (writeStrategy c) mem (List.map_filter (data c) (range_order env)) of
              Inl e \<Rightarrow> Inl e
            | Inr newQueue \<Rightarrow>
                (let c1 = c\<lparr>queue := newQueue,
                            queueBuildTime := queueBuildTime c + word_of_int (go_div (now_built env - now_start env) 10000000),
                            queueBuildCnt := queueBuildCnt c + 1\<rparr>
                 in Inr (if maxInputLenAfterQueueRebuild c < word_of_nat (input_after env)
                         then c1\<lparr>maxInputLenAfterQueueRebuild := word_of_nat (input_after env),
                                 maxInputLenBeforeQueueRebuild := word_of_nat (input_before env)\<rparr>
                         else c1))))"

text \<open>The time since the previous rebuild is added up when its queue runs out.\<close>

definition writeout_done :: "get_env \<Rightarrow> Cache \<Rightarrow> Cache" where
  "writeout_done env c = (case queueWriteoutStart c of
       None \<Rightarrow> c
     | Some t \<Rightarrow> c\<lparr>queueWriteoutTime := queueWriteoutTime c + word_of_int (go_div (now_writeout env - t) 1000000)\<rparr>)"

definition Cache_Get :: "get_env \<Rightarrow> memory \<Rightarrow> Cache \<Rightarrow> (panic, addr option \<times> Cache) result" where
  "Cache_Get env mem c =
     (case getNext c of
        (Some values, c1) \<Rightarrow> Inr (Some values, c1)
      | (None, _) \<Rightarrow>
          (case updateQueue env mem (writeout_done env c) of
             Inl e \<Rightarrow> Inl e
           | Inr c2 \<Rightarrow>
               (case getNext c2 of
                  (Some v, c3) \<Rightarrow> Inr (Some v, c3\<lparr>queueWriteoutStart := Some (now_after env)\<rparr>)
                | (None, c3) \<Rightarrow> Inr (None, c3\<lparr>queueWriteoutStart := None\<rparr>))))"

section \<open>Operations on the map\<close>

definition Cache_Remove :: "string \<Rightarrow> nat \<Rightarrow> Cache \<Rightarrow> Cache" where
  "Cache_Remove key sz c =
     (let s = sizeShared c + (- word_of_nat sz)
      in c\<lparr>data := (data c)(key := None), sizeShared := s, csize := s,
           metricCount := metricCount c + NOT 0\<rparr>)"

definition Cache_Pop :: "get_env \<Rightarrow> memory \<Rightarrow> Cache \<Rightarrow> (panic, addr option \<times> Cache) result" where
  "Cache_Pop env mem c =
     (case Cache_Get env mem c of
        Inl e \<Rightarrow> Inl e
      | Inr (None, c1) \<Rightarrow> Inr (None, c1)
      | Inr (Some v, c1) \<Rightarrow> Inr (Some v, Cache_Remove (Metric (mem v)) (length (points_of (mem v))) c1))"

definition Cache_Add :: "addr \<Rightarrow> memory \<Rightarrow> Cache \<Rightarrow> memory \<times> Cache" where
  "Cache_Add p mem c =
     (let (mem1, c1) =
        (case data c (Metric (mem p)) of
           Some values \<Rightarrow>
             (mem(values := (mem values)\<lparr>Data := go_append (Data (mem values)) (points_of (mem p))\<rparr>), c)
         | None \<Rightarrow> (mem, c\<lparr>metricCount := metricCount c + 1, data := (data c)(Metric (mem p) \<mapsto> p)\<rparr>));
          s = sizeShared c1 + word_of_nat (length (points_of (mem p)))
      in (mem1, c1\<lparr>sizeShared := s, csize := s\<rparr>))"

section \<open>Statistics and dump\<close>

text \<open>What other goroutines do to each counter during \<open>Stat\<close>.\<close>

record stat_env =
  queries_during :: uint32
  overflow_during :: uint32
  builds_during :: uint32
  buildtime_during :: uint32
  writeout_during :: uint32
  before_stored :: "uint32 option"
  after_stored :: "uint32 option"

definition Cache_Stat :: "stat_env \<Rightarrow> Cache \<Rightarrow> Cache \<times> sent list" where
  "Cache_Stat env c =
     (let s1 = (''size'', float64_of_nat (unat (Size c)));
          s2 = (''metrics'', float64_of_nat (unat (metricCount c)));
          (q, s3) = SendAndSubstractUint32 ''queries'' (queries_during env) (queryCnt c);
          (ov, s4) = SendAndSubstractUint32 ''overflow'' (overflow_during env) (overflowCnt c);
          (qb, s5) = SendAndSubstractUint32 ''queueBuildCount'' (builds_during env) (queueBuildCnt c);
          qbt = queueBuildTime c;
          bt = queueBuildTime c + buildtime_during env + (- qbt);
          s6 = (''queueBuildTime'', float64_quot (unat qbt) 1000);
          qwt = queueWriteoutTime c;
          wt = queueWriteoutTime c + writeout_during env + (- qwt);
          s7 = (''queueWriteoutTime'', float64_quot (unat qwt) 1000);
          (mb, s8) = SendAndZeroIfNotUpdatedUint32 ''maxInputLenBeforeQueueRebuild'' (before_stored env) (maxInputLenBeforeQueueRebuild c);
          (ma, s9) = SendAndZeroIfNotUpdatedUint32 ''maxInputLenAfterQueueRebuild'' (after_stored env) (maxInputLenAfterQueueRebuild c)
      in (c\<lparr>queryCnt := q, overflowCnt := ov, queueBuildCnt := qb, queueBuildTime := bt, queueWriteoutTime := wt,
            maxInputLenBeforeQueueRebuild := mb, maxInputLenAfterQueueRebuild := ma\<rparr>,
          [s1, s2, s3, s4, s5, s6, s7, s8, s9]))"

text \<open>
  \<open>Dump\<close> writes a line per point and stops at the first failed write. The writer is a state \<open>'w\<close>
  with a function that writes bytes or fails.
\<close>

fun dump_points :: "('w \<Rightarrow> bytes \<Rightarrow> ('e, 'w) result) \<Rightarrow> string \<Rightarrow> Point list \<Rightarrow> 'w \<Rightarrow> ('e \<times> 'w, 'w) result" where
  "dump_points wr m [] w = Inr w"
| "dump_points wr m (d # ds) w =
     (case wr w (text_line m d) of Inl e \<Rightarrow> Inl (e, w) | Inr w' \<Rightarrow> dump_points wr m ds w')"

fun dump_metrics :: "('w \<Rightarrow> bytes \<Rightarrow> ('e, 'w) result) \<Rightarrow> Points list \<Rightarrow> 'w \<Rightarrow> ('e \<times> 'w, 'w) result" where
  "dump_metrics wr [] w = Inr w"
| "dump_metrics wr (p # ps) w =
     (case dump_points wr (Metric p) (points_of p) w of Inl e \<Rightarrow> Inl e | Inr w' \<Rightarrow> dump_metrics wr ps w')"

definition Cache_Dump ::
  "('w \<Rightarrow> bytes \<Rightarrow> ('e, 'w) result) \<Rightarrow> string list \<Rightarrow> memory \<Rightarrow> Cache \<Rightarrow> 'w \<Rightarrow> ('e \<times> 'w, 'w) result" where
  "Cache_Dump wr order mem c w = dump_metrics wr (map mem (List.map_filter (data c) order)) w"

section \<open>The invariant\<close>

text \<open>The metrics with their points, which is what the cache means to its clients.\<close>

definition contents :: "memory \<Rightarrow> Cache \<Rightarrow> string \<rightharpoonup> Point list" where
  "contents mem c = (\<lambda>k. map_option (\<lambda>a. points_of (mem a)) (data c k))"

definition point_total :: "('k \<rightharpoonup> 'a list) \<Rightarrow> nat" where
  "point_total m = (\<Sum>k\<in>dom m. length (the (m k)))"

text \<open>
  Every entry is stored under its own name, the queue refers to entries only and to each once, and
  both counters are those of the map, modulo their width.
\<close>

definition cache_inv :: "memory \<Rightarrow> Cache \<Rightarrow> bool" where
  "cache_inv mem c \<longleftrightarrow>
     finite (dom (data c)) \<and> (\<forall>k a. data c k = Some a \<longrightarrow> Metric (mem a) = k)
     \<and> distinct (queue c) \<and> set (queue c) \<subseteq> ran (data c)
     \<and> csize c = sizeShared c \<and> sizeShared c = word_of_nat (point_total (contents mem c))
     \<and> metricCount c = word_of_nat (card (dom (data c)))"

lemma dom_contents [simp]: "dom (contents mem c) = dom (data c)"
  by (auto simp: contents_def)

lemma total_empty [simp]: "point_total Map.empty = 0"
  by (simp add: point_total_def)

lemma total_upd:
  assumes "finite (dom m)" shows "point_total (m(k \<mapsto> v)) + length (case m k of None \<Rightarrow> [] | Some w \<Rightarrow> w) = point_total m + length v"
proof -
  have e: "(\<Sum>j\<in>dom m - {k}. length (the ((m(k \<mapsto> v)) j))) = (\<Sum>j\<in>dom m - {k}. length (the (m j)))"
    by (rule sum.cong) auto
  have "point_total (m(k \<mapsto> v)) = length v + (\<Sum>j\<in>dom m - {k}. length (the (m j)))"
    unfolding point_total_def using assms e by (simp add: sum.insert_remove)
  moreover have "point_total m = (\<Sum>j\<in>dom m - {k}. length (the (m j))) + length (case m k of None \<Rightarrow> [] | Some w \<Rightarrow> w)"
  proof (cases "m k")
    case (Some w)
    then have "k \<in> dom m" by auto
    with assms Some show ?thesis unfolding point_total_def by (simp add: sum.remove [of "dom m" k])
  qed (simp add: point_total_def domIff)
  ultimately show ?thesis by simp
qed

lemma total_remove:
  assumes "finite (dom m)" "m k = Some v" shows "point_total (m(k := None)) + length v = point_total m"
proof -
  have "(\<Sum>j\<in>dom m - {k}. length (the ((m(k := None)) j))) = (\<Sum>j\<in>dom m - {k}. length (the (m j)))"
    by (rule sum.cong) auto
  moreover have "k \<in> dom m" using assms by auto
  ultimately show ?thesis using assms unfolding point_total_def by (simp add: sum.remove [of "dom m" k])
qed

lemma total_zero: "finite (dom m) \<Longrightarrow> point_total m = 0 \<longleftrightarrow> (\<forall>k v. m k = Some v \<longrightarrow> v = [])"
  by (force simp: point_total_def)

lemma cache_invD:
  assumes "cache_inv mem c"
  shows "finite (dom (data c))" "data c k = Some a \<Longrightarrow> Metric (mem a) = k" "distinct (queue c)"
    "set (queue c) \<subseteq> ran (data c)" "csize c = sizeShared c" "sizeShared c = word_of_nat (point_total (contents mem c))"
    "metricCount c = word_of_nat (card (dom (data c)))"
  using assms by (auto simp: cache_inv_def)

lemma inv_key: "cache_inv mem c \<Longrightarrow> a \<in> ran (data c) \<Longrightarrow> data c (Metric (mem a)) = Some a"
  by (auto simp: cache_inv_def ran_def)

lemma inv_New: "cache_inv mem Cache_New"
  by (simp add: cache_inv_def Cache_New_def contents_def point_total_def)

lemma contents_New: "contents mem Cache_New = Map.empty"
  by (simp add: contents_def Cache_New_def)

text \<open>The setters do not touch what the invariant speaks of.\<close>

lemma cache_inv_cong:
  assumes "data c' = data c" "queue c' = queue c" "csize c' = csize c" "sizeShared c' = sizeShared c" "metricCount c' = metricCount c"
  shows "cache_inv mem c' = cache_inv mem c" "contents mem c' = contents mem c"
  using assms by (simp_all add: cache_inv_def contents_def)

subsection \<open>Add\<close>

lemma contents_Add:
  assumes "cache_inv mem c" "p \<notin> ran (data c)" "Cache_Add p mem c = (mem', c')"
  shows "contents mem' c' =
    (contents mem c)(Metric (mem p) \<mapsto> (case contents mem c (Metric (mem p)) of None \<Rightarrow> [] | Some ps \<Rightarrow> ps) @ points_of (mem p))"
proof (cases "data c (Metric (mem p))")
  case None
  then show ?thesis using assms by (auto simp: Cache_Add_def contents_def fun_eq_iff Let_def)
next
  case (Some a)
  then have u: "data c' = data c" "mem' = mem(a := (mem a)\<lparr>Data := go_append (Data (mem a)) (points_of (mem p))\<rparr>)"
    using assms(3) by (auto simp: Cache_Add_def Let_def)
  show ?thesis
  proof
    fix k
    show "contents mem' c' k = ((contents mem c)(Metric (mem p) \<mapsto>
        (case contents mem c (Metric (mem p)) of None \<Rightarrow> [] | Some ps \<Rightarrow> ps) @ points_of (mem p))) k"
    proof (cases "k = Metric (mem p)")
      case False
      then have "data c k \<noteq> Some a" using cache_invD(2) [OF assms(1)] Some by metis
      with False show ?thesis by (cases "data c k") (simp_all add: contents_def u)
    qed (simp add: contents_def u Some)
  qed
qed

lemma elems_contents_Add:
  assumes "cache_inv mem c" "p \<notin> ran (data c)" "Cache_Add p mem c = (mem', c')"
  shows "elems (contents mem' c' m) = elems (contents mem c m) @ (if m = Metric (mem p) then points_of (mem p) else [])"
  by (cases "contents mem c m") (auto simp: contents_Add [OF assms])

lemma Cache_Add_frame:
  assumes "cache_inv mem c" "Cache_Add p mem c = (mem', c')"
  shows "queue c' = queue c" "csize c' = sizeShared c'" "sizeShared c' = sizeShared c + word_of_nat (length (points_of (mem p)))"
    "Metric (mem' a) = Metric (mem a)"
    "data c' = (case data c (Metric (mem p)) of None \<Rightarrow> (data c)(Metric (mem p) \<mapsto> p) | Some _ \<Rightarrow> data c)"
    "metricCount c' = (case data c (Metric (mem p)) of None \<Rightarrow> metricCount c + 1 | Some _ \<Rightarrow> metricCount c)"
    "maxSize c' = maxSize c" "writeStrategy c' = writeStrategy c"
  using assms by (auto simp: Cache_Add_def Let_def split: option.splits)

lemma ran_Add:
  assumes "cache_inv mem c" "Cache_Add p mem c = (mem', c')"
  shows "ran (data c) \<subseteq> ran (data c') \<and> ran (data c') \<subseteq> insert p (ran (data c))"
  by (cases "data c (Metric (mem p))") (simp_all add: Cache_Add_frame(5) [OF assms] subset_insertI)

lemma inv_Add:
  assumes i: "cache_inv mem c" and p: "p \<notin> ran (data c)" and a: "Cache_Add p mem c = (mem', c')"
  shows "cache_inv mem' c'"
proof -
  note d = cache_invD [OF i] and f = Cache_Add_frame [OF i a]
  have fin: "finite (dom (data c'))" using d(1) by (simp add: f(5) split: option.splits)
  have keys: "\<forall>k b. data c' k = Some b \<longrightarrow> Metric (mem' b) = k"
    using d(2) by (auto simp: f(4,5) split: option.splits if_splits)
  have "finite (dom (contents mem c))" using d(1) by simp
  have "point_total (contents mem' c') = point_total (contents mem c) + length (points_of (mem p))"
    using total_upd [of "contents mem c" "Metric (mem p)"
      "(case contents mem c (Metric (mem p)) of None \<Rightarrow> [] | Some ps \<Rightarrow> ps) @ points_of (mem p)"]
    by (simp add: contents_Add [OF i p a] d(1))
  then have sz: "sizeShared c' = word_of_nat (point_total (contents mem' c'))" by (simp add: f(3) d(6))
  have "metricCount c' = word_of_nat (card (dom (data c')))"
    using d(1,7) by (auto simp: f(5,6) domIff split: option.splits)
  moreover have "set (queue c') \<subseteq> ran (data c')" using d(4) ran_Add [OF i a] by (auto simp: f(1))
  ultimately show ?thesis using fin keys sz d(3) by (simp add: cache_inv_def f(1,2))
qed

subsection \<open>Write strategies\<close>

text \<open>
  What the queue relies on: a strategy only rearranges, it puts the entries to be written out first
  at the end, and it returns when no entry is empty.
\<close>

locale write_strategy =
  fixes arrange :: "memory \<Rightarrow> addr list \<Rightarrow> (panic, addr list) result"
    and urgent :: "memory \<Rightarrow> addr \<Rightarrow> addr \<Rightarrow> bool"
  assumes arrange_mset: "arrange mem q = Inr q' \<Longrightarrow> mset q' = mset q"
    and arrange_sorted: "arrange mem q = Inr q' \<Longrightarrow> sorted_wrt (\<lambda>a b. urgent mem b a) q'"
    and arrange_returns: "list_all (\<lambda>a. points_of (mem a) \<noteq> []) q \<Longrightarrow> \<exists>q'. arrange mem q = Inr q'"
begin

lemma arrange_set: "arrange mem q = Inr q' \<Longrightarrow> set q' = set q"
  using arrange_mset by (metis set_mset_mset)

lemma arrange_distinct: "arrange mem q = Inr q' \<Longrightarrow> distinct q' = distinct q"
  using arrange_mset mset_eq_imp_distinct_iff by blast

lemma arrange_last_urgent:
  assumes "arrange mem q = Inr q'" "q' = r @ [v]" "a \<in> set r" shows "urgent mem v a"
  using arrange_sorted [OF assms(1)] assms(2,3) by (simp add: sorted_wrt_append)

end

definition more_urgent :: "WriteStrategy \<Rightarrow> memory \<Rightarrow> addr \<Rightarrow> addr \<Rightarrow> bool" where
  "more_urgent ws mem a b = (case ws of
     MaximumLength \<Rightarrow> length (points_of (mem b)) \<le> length (points_of (mem a))
   | TimestampOrder \<Rightarrow> Timestamp (hd (points_of (mem a))) \<le> Timestamp (hd (points_of (mem b)))
   | Noop \<Rightarrow> True)"

lemma sort_key_sorted_wrt: "sorted_wrt (\<lambda>a b. f a \<le> f b) (sort_key f xs)"
  using sorted_sort_key [of f xs] by (simp add: sorted_wrt_map)

lemma sorted_wrt_trivial: "sorted_wrt (\<lambda>a b. True) xs"
  by (induction xs) auto

interpretation strategy: write_strategy "sort_queue ws" "more_urgent ws" for ws
proof
  fix mem q q'
  assume q: "sort_queue ws mem q = Inr q'"
  show "mset q' = mset q"
    using q by (cases ws) (auto simp: sort_queue_def byLength_def byTimestamp_def split: if_splits)
  have "sorted_wrt (\<lambda>a b. - Timestamp (hd (points_of (mem a))) \<le> - Timestamp (hd (points_of (mem b)))) (sort_key (\<lambda>a. - Timestamp (hd (points_of (mem a)))) q)"
    by (rule sort_key_sorted_wrt)
  moreover have "sorted_wrt (\<lambda>a b. length (points_of (mem a)) \<le> length (points_of (mem b))) (sort_key (\<lambda>a. length (points_of (mem a))) q)"
    by (rule sort_key_sorted_wrt)
  ultimately show "sorted_wrt (\<lambda>a b. more_urgent ws mem b a) q'"
    using q by (cases ws) (auto simp: sort_queue_def byLength_def byTimestamp_def more_urgent_def sorted_wrt_trivial split: if_splits)
next
  show "\<exists>q'. sort_queue ws mem q = Inr q'" if "list_all (\<lambda>a. points_of (mem a) \<noteq> []) q" for mem q
    using that by (cases ws) (auto simp: sort_queue_def byTimestamp_def)
qed

subsection \<open>Get, Remove and Pop\<close>

lemma getNext_Some: "getNext c = (Some v, c') \<longleftrightarrow> queue c \<noteq> [] \<and> v = last (queue c) \<and> c' = c\<lparr>queue := butlast (queue c)\<rparr>"
  by (auto simp: getNext_def)

lemma getNext_None: "getNext c = (None, c') \<longleftrightarrow> queue c = [] \<and> c' = c"
  by (auto simp: getNext_def)

lemma entries_of_order:
  assumes "cache_inv mem c" "visits ks (data c)"
  shows "set (List.map_filter (data c) ks) = ran (data c)" "distinct (List.map_filter (data c) ks)"
proof -
  show "set (List.map_filter (data c) ks) = ran (data c)"
    using assms(2) unfolding set_map_filter visits_def ran_def by blast
  have "inj_on (\<lambda>k. the (data c k)) {k. data c k \<noteq> None}"
  proof (rule inj_onI)
    fix k j
    assume "k \<in> {k. data c k \<noteq> None}" "j \<in> {k. data c k \<noteq> None}" "the (data c k) = the (data c j)"
    then obtain a where "data c k = Some a" "data c j = Some a" by auto
    then show "k = j" using cache_invD(2) [OF assms(1), of k a] cache_invD(2) [OF assms(1), of j a] by simp
  qed
  moreover have "set (filter (\<lambda>k. data c k \<noteq> None) ks) \<subseteq> {k. data c k \<noteq> None}" by auto
  ultimately have "inj_on (\<lambda>k. the (data c k)) (set (filter (\<lambda>k. data c k \<noteq> None) ks))" by (rule inj_on_subset)
  then show "distinct (List.map_filter (data c) ks)"
    using assms(2) by (simp add: List.map_filter_def visits_def distinct_map o_def)
qed

lemma updateQueue_Inr:
  assumes "updateQueue env mem c = Inr c'"
  shows "data c' = data c" "csize c' = csize c" "sizeShared c' = sizeShared c" "metricCount c' = metricCount c"
    "maxSize c' = maxSize c" "writeStrategy c' = writeStrategy c"
    "if csize c = 0 then queue c' = queue c
     else sort_queue (writeStrategy c) mem (List.map_filter (data c) (range_order env)) = Inr (queue c')"
  using assms by (auto simp: updateQueue_def Let_def split: if_splits sum.splits)

lemma updateQueue_inv:
  assumes "cache_inv mem c" "visits (range_order env) (data c)" "updateQueue env mem c = Inr c'"
  shows "cache_inv mem c'" "csize c \<noteq> 0 \<Longrightarrow> set (queue c') = ran (data c)"
proof -
  note u = updateQueue_Inr [OF assms(3)] and e = entries_of_order [OF assms(1,2)]
  have "csize c \<noteq> 0 \<Longrightarrow> set (queue c') = ran (data c) \<and> distinct (queue c')"
    using u(7) strategy.arrange_set strategy.arrange_distinct e by simp
  then show "cache_inv mem c'" "csize c \<noteq> 0 \<Longrightarrow> set (queue c') = ran (data c)"
    using assms(1) u by (auto simp: cache_inv_def contents_def split: if_splits)
qed

lemma inv_getNext:
  assumes "cache_inv mem c" "getNext c = (r, c')"
  shows "cache_inv mem c'" "data c' = data c" "r = Some v \<Longrightarrow> v \<in> ran (data c) \<and> v \<notin> set (queue c')"
proof -
  have "cache_inv mem c' \<and> data c' = data c \<and> (\<forall>v. r = Some v \<longrightarrow> v \<in> ran (data c) \<and> v \<notin> set (queue c'))"
    using assms by (cases "queue c" rule: rev_cases) (auto simp: getNext_def cache_inv_def contents_def)
  then show "cache_inv mem c'" "data c' = data c" "r = Some v \<Longrightarrow> v \<in> ran (data c) \<and> v \<notin> set (queue c')" by auto
qed

lemma writeout_done_frame:
  "data (writeout_done env c) = data c" "queue (writeout_done env c) = queue c" "csize (writeout_done env c) = csize c"
  "sizeShared (writeout_done env c) = sizeShared c" "metricCount (writeout_done env c) = metricCount c"
  "writeStrategy (writeout_done env c) = writeStrategy c" "maxSize (writeout_done env c) = maxSize c"
  by (auto simp: writeout_done_def split: option.splits)

lemma Cache_Get_cases:
  assumes "Cache_Get env mem c = Inr (r, c')"
  obtains (queued) "queue c \<noteq> []" "getNext c = (r, c')"
  | (rebuilt) c2 c3 where "queue c = []" "updateQueue env mem (writeout_done env c) = Inr c2" "getNext c2 = (r, c3)"
      "c' = c3\<lparr>queueWriteoutStart := map_option (\<lambda>_. now_after env) r\<rparr>"
proof (cases "queue c = []")
  case False
  with assms queued show thesis by (auto simp: Cache_Get_def getNext_def)
next
  case True
  then have "getNext c = (None, c)" by (simp add: getNext_def)
  with assms obtain c2 where u: "updateQueue env mem (writeout_done env c) = Inr c2" and
    "(case getNext c2 of (Some v, c3) \<Rightarrow> Inr (Some v, c3\<lparr>queueWriteoutStart := Some (now_after env)\<rparr>)
        | (None, c3) \<Rightarrow> Inr (None, c3\<lparr>queueWriteoutStart := None\<rparr>)) = (Inr (r, c') :: (panic, _) result)"
    by (auto simp: Cache_Get_def split: sum.splits)
  then obtain c3 where g: "getNext c2 = (r, c3)" "c' = c3\<lparr>queueWriteoutStart := map_option (\<lambda>_. now_after env) r\<rparr>"
    by (auto split: prod.splits option.splits)
  from rebuilt [OF True u g] show thesis .
qed

lemma Cache_Get_inv:
  assumes "cache_inv mem c" "visits (range_order env) (data c)" "Cache_Get env mem c = Inr (r, c')"
  shows "cache_inv mem c'" "data c' = data c" "r = Some v \<Longrightarrow> v \<in> ran (data c) \<and> v \<notin> set (queue c')"
    "r = None \<Longrightarrow> queue c' = [] \<and> (csize c = 0 \<or> data c = Map.empty)"
proof -
  have "cache_inv mem c' \<and> data c' = data c \<and> (r = Some v \<longrightarrow> v \<in> ran (data c) \<and> v \<notin> set (queue c'))
      \<and> (r = None \<longrightarrow> queue c' = [] \<and> (csize c = 0 \<or> data c = Map.empty))"
    using assms(3)
  proof (cases rule: Cache_Get_cases)
    case queued
    then show ?thesis using inv_getNext [OF assms(1) queued(2)] by (auto simp: getNext_def)
  next
    case (rebuilt c2 c3)
    have i1: "cache_inv mem (writeout_done env c)" "visits (range_order env) (data (writeout_done env c))"
      using assms(1,2) cache_inv_cong [of "writeout_done env c" c] by (simp_all add: writeout_done_frame)
    note u = updateQueue_inv [OF i1 rebuilt(2)] updateQueue_Inr [OF rebuilt(2)]
    note g = inv_getNext [OF u(1) rebuilt(3)]
    have "cache_inv mem c'" using g(1) rebuilt(4) cache_inv_cong(1) [of c' c3] by simp
    moreover have "r = None \<longrightarrow> queue c' = [] \<and> (csize c = 0 \<or> data c = Map.empty)"
    proof
      assume "r = None"
      then have q: "queue c2 = []" "c3 = c2" using rebuilt(3) by (auto simp: getNext_None)
      then have "csize c = 0 \<or> ran (data c) = {}" using u(2) by (auto simp: writeout_done_frame)
      then show "queue c' = [] \<and> (csize c = 0 \<or> data c = Map.empty)" using q rebuilt(4) ran_empty_map by auto
    qed
    ultimately show ?thesis using g rebuilt(4) u(3) by (simp add: writeout_done_frame)
  qed
  then show "cache_inv mem c'" "data c' = data c" "r = Some v \<Longrightarrow> v \<in> ran (data c) \<and> v \<notin> set (queue c')"
    "r = None \<Longrightarrow> queue c' = [] \<and> (csize c = 0 \<or> data c = Map.empty)" by auto
qed

text \<open>\<open>Remove\<close> of an entry with its own length, once the queue no longer refers to it.\<close>

lemma inv_Remove:
  assumes i: "cache_inv mem c" and v: "v \<in> ran (data c)" "v \<notin> set (queue c)"
    and r: "c' = Cache_Remove (Metric (mem v)) (length (points_of (mem v))) c"
  shows "cache_inv mem c'" and "contents mem c' = (contents mem c)(Metric (mem v) := None)"
proof -
  note d = cache_invD [OF i]
  have dv: "data c (Metric (mem v)) = Some v" using inv_key [OF i v(1)] .
  show co: "contents mem c' = (contents mem c)(Metric (mem v) := None)"
    by (auto simp: contents_def Cache_Remove_def Let_def r)
  have "point_total (contents mem c') + length (points_of (mem v)) = point_total (contents mem c)"
    unfolding co by (rule total_remove) (simp add: d(1), simp add: contents_def dv)
  then have sz: "word_of_nat (point_total (contents mem c)) - word_of_nat (length (points_of (mem v)))
      = (word_of_nat (point_total (contents mem c')) :: uint32)"
    by (metis add_diff_cancel_right' of_nat_add)
  have "card (dom (data c)) = Suc (card (dom (data c) - {Metric (mem v)}))"
    using d(1) dv by (intro card.remove) auto
  then have mc: "word_of_nat (card (dom (data c))) + NOT 0 = (word_of_nat (card (dom (data c) - {Metric (mem v)})) :: uint32)"
    by simp
  have "set (queue c) \<subseteq> ran ((data c)(Metric (mem v) := None))"
  proof
    fix a assume a: "a \<in> set (queue c)"
    then have "data c (Metric (mem a)) = Some a" using d(4) inv_key [OF i] by blast
    moreover have "a \<noteq> v" using a v(2) by blast
    then have "Metric (mem a) \<noteq> Metric (mem v)" using calculation dv by (metis option.inject)
    ultimately show "a \<in> ran ((data c)(Metric (mem v) := None))" by (auto simp: ran_def)
  qed
  then show "cache_inv mem c'"
    using d sz mc by (simp add: cache_inv_def Cache_Remove_def Let_def r)
qed

lemma Cache_Pop_None:
  assumes "cache_inv mem c" "visits (range_order env) (data c)" "Cache_Pop env mem c = Inr (None, c')"
  shows "cache_inv mem c'" "contents mem c' = contents mem c" "csize c = 0 \<or> data c = Map.empty"
proof -
  from assms(3) have g: "Cache_Get env mem c = Inr (None, c')" by (auto simp: Cache_Pop_def split: sum.splits option.splits)
  show "cache_inv mem c'" "contents mem c' = contents mem c" "csize c = 0 \<or> data c = Map.empty"
    using Cache_Get_inv [OF assms(1,2) g] by (auto simp: contents_def)
qed

lemma Cache_Pop_Some:
  assumes "cache_inv mem c" "visits (range_order env) (data c)" "Cache_Pop env mem c = Inr (Some v, c')"
  shows "cache_inv mem c'" "v \<in> ran (data c)" "contents mem c (Metric (mem v)) = Some (points_of (mem v))"
    "contents mem c' = (contents mem c)(Metric (mem v) := None)" "data c' = (data c)(Metric (mem v) := None)"
proof -
  from assms(3) obtain c1 where g: "Cache_Get env mem c = Inr (Some v, c1)"
    and c': "c' = Cache_Remove (Metric (mem v)) (length (points_of (mem v))) c1"
    by (auto simp: Cache_Pop_def split: sum.splits option.splits)
  note i = Cache_Get_inv [OF assms(1,2) g]
  have v: "v \<in> ran (data c1)" "v \<notin> set (queue c1)" using i(2,3) by auto
  have co: "contents mem c1 = contents mem c" using i(2) by (simp add: contents_def)
  show "cache_inv mem c'" "contents mem c' = (contents mem c)(Metric (mem v) := None)"
    using inv_Remove [OF i(1) v c'] co by simp_all
  show "v \<in> ran (data c)" using i(2) v by simp
  then show "contents mem c (Metric (mem v)) = Some (points_of (mem v))"
    using inv_key [OF assms(1)] by (simp add: contents_def)
  show "data c' = (data c)(Metric (mem v) := None)" using i(2) by (simp add: c' Cache_Remove_def Let_def)
qed

lemma Cache_Pop_returns:
  assumes "cache_inv mem c" "visits (range_order env) (data c)"
    and "writeStrategy c \<noteq> TimestampOrder \<or> (\<forall>a\<in>ran (data c). points_of (mem a) \<noteq> [])"
  shows "\<exists>r c'. Cache_Pop env mem c = Inr (r, c')"
proof -
  have "\<exists>q. sort_queue (writeStrategy c) mem (List.map_filter (data c) (range_order env)) = Inr q"
  proof (cases "writeStrategy c = TimestampOrder")
    case True
    with assms(3) have "list_all (\<lambda>a. points_of (mem a) \<noteq> []) (List.map_filter (data c) (range_order env))"
      using entries_of_order(1) [OF assms(1,2)] by (simp add: list_all_iff)
    then show ?thesis by (rule strategy.arrange_returns)
  qed (cases "writeStrategy c"; simp add: sort_queue_def)
  then have "\<exists>c2. updateQueue env mem (writeout_done env c) = Inr c2"
    by (auto simp: updateQueue_def Let_def writeout_done_frame)
  then obtain c2 where "updateQueue env mem (writeout_done env c) = Inr c2" ..
  then have "\<exists>r c'. Cache_Get env mem c = Inr (r, c')"
    by (cases "getNext c"; cases "getNext c2") (auto simp: Cache_Get_def split: option.splits)
  then show ?thesis by (auto simp: Cache_Pop_def split: option.splits)
qed

section \<open>The cache is a store of points\<close>

definition cache_put :: "memory \<times> Cache \<Rightarrow> addr \<Rightarrow> memory \<times> Cache" where
  "cache_put s p = Cache_Add p (fst s) (snd s)"

definition cache_fresh :: "memory \<times> Cache \<Rightarrow> addr \<Rightarrow> bool" where
  "cache_fresh s p \<longleftrightarrow> p \<notin> ran (data (snd s))"

definition cache_item :: "memory \<times> Cache \<Rightarrow> addr \<Rightarrow> string \<times> Point list" where
  "cache_item s p = (Metric (fst s p), points_of (fst s p))"

definition cache_take :: "get_env \<Rightarrow> memory \<times> Cache \<Rightarrow> (panic, addr option \<times> memory \<times> Cache) result" where
  "cache_take env s = (case Cache_Pop env (fst s) (snd s) of Inl e \<Rightarrow> Inl e | Inr (r, c') \<Rightarrow> Inr (r, fst s, c'))"

definition cache_adm :: "get_env \<Rightarrow> memory \<times> Cache \<Rightarrow> bool" where
  "cache_adm env s \<longleftrightarrow> visits (range_order env) (data (snd s))"

definition cache_run where
  "cache_run = store_run cache_put cache_fresh cache_item cache_take cache_adm"

interpretation store: point_store "\<lambda>s. cache_inv (fst s) (snd s)" "\<lambda>s. contents (fst s) (snd s)"
  cache_put cache_fresh cache_item cache_take cache_adm
proof
  fix s :: "memory \<times> Cache" and p m pts
  assume i: "cache_inv (fst s) (snd s)" and f: "cache_fresh s p"
  obtain mem' c' where a: "Cache_Add p (fst s) (snd s) = (mem', c')" by fastforce
  show "cache_inv (fst (cache_put s p)) (snd (cache_put s p))"
    using inv_Add [OF i _ a] f by (simp add: cache_put_def cache_fresh_def a)
  show "contents (fst (cache_put s p)) (snd (cache_put s p)) = (contents (fst s) (snd s))(m \<mapsto> elems (contents (fst s) (snd s) m) @ pts)"
    if "cache_item s p = (m, pts)"
    using contents_Add [OF i _ a] f that by (simp add: cache_put_def cache_fresh_def a cache_item_def elems_def)
next
  fix env and s s' :: "memory \<times> Cache" and r v m pts
  assume i: "cache_inv (fst s) (snd s)" and v: "cache_adm env s"
  note v' = v [unfolded cache_adm_def]
  have cr: "Cache_Pop env (fst s) (snd s) = Inr (x, snd s') \<and> fst s' = fst s" if "cache_take env s = Inr (x, s')" for x
    using that by (auto simp: cache_take_def split: sum.splits)
  show "cache_inv (fst s') (snd s')" if "cache_take env s = Inr (r, s')"
    using cr [OF that] Cache_Pop_None(1) [OF i v'] Cache_Pop_Some(1) [OF i v'] by (cases r) auto
  show "contents (fst s') (snd s') = contents (fst s) (snd s)" if "cache_take env s = Inr (None, s')"
    using cr [OF that] Cache_Pop_None(2) [OF i v'] by simp
  show "contents (fst s) (snd s) m = Some pts \<and> contents (fst s') (snd s') = (contents (fst s) (snd s))(m := None)"
    if "cache_take env s = Inr (Some v, s')" "cache_item s v = (m, pts)" for v
    using cr [OF that(1)] that(2) Cache_Pop_Some(3,4) [OF i v', of v "snd s'"] by (auto simp: cache_item_def)
qed

end
