(* ===== verification/Confirm.thy ===== *)
theory Confirm
  imports Cache_Model
begin

text \<open>
  The tracker of messages that left the cache and are not yet written, \<open>src/cache/confirm.go\<close>, and the
  query a client hands to the cache, \<open>src/cache/query.go\<close>. Pointers are compared by identity, so the
  tracker keeps addresses. The loop of the tracker's goroutine is in \<open>Cache_Worker\<close>.

  The reply of a query is held by value where the code shares a slice that nobody changes any more
  (\<open>CacheData\<close>: \<open>Copy\<close> fixes the length, and appending never writes below it).
\<close>

section \<open>Data\<close>

record notConfirmed =
  ncdata :: "string \<rightharpoonup> addr list"
  ncsize :: int

record Query =
  QMetric :: string
  WaitClosed :: bool
  CacheData :: "Points option"
  InFlightData :: "addr list option"

definition NewQuery :: "string \<Rightarrow> Query" where
  "NewQuery metric = \<lparr>QMetric = metric, WaitClosed = False, CacheData = None, InFlightData = None\<rparr>"

definition newNotConfirmed :: notConfirmed where
  "newNotConfirmed = \<lparr>ncdata = Map.empty, ncsize = 0\<rparr>"

section \<open>Operations\<close>

definition nc_add :: "memory \<Rightarrow> addr \<Rightarrow> notConfirmed \<Rightarrow> notConfirmed" where
  "nc_add mem p m =
     (let values = (case ncdata m (Metric (mem p)) of None \<Rightarrow> [] | Some vs \<Rightarrow> vs)
      in m\<lparr>ncdata := (ncdata m)(Metric (mem p) \<mapsto> values @ [p]), ncsize := ncsize m + 1\<rparr>)"

text \<open>The loop over \<open>values\<close>: the slice without its first occurrence of \<open>p\<close>, if it has one.\<close>

fun confirm_loop :: "addr \<Rightarrow> addr list \<Rightarrow> nat \<Rightarrow> addr list \<Rightarrow> addr list option" where
  "confirm_loop p values i [] = None"
| "confirm_loop p values i (v # vs) =
     (if v = p then Some (take i values @ drop (i + 1) values) else confirm_loop p values (i + 1) vs)"

definition nc_confirm :: "memory \<Rightarrow> addr \<Rightarrow> notConfirmed \<Rightarrow> notConfirmed" where
  "nc_confirm mem p m =
     (case ncdata m (Metric (mem p)) of
        None \<Rightarrow> m
      | Some values \<Rightarrow>
          if length values = 1
          then (if values ! 0 = p then m\<lparr>ncdata := (ncdata m)(Metric (mem p) := None), ncsize := ncsize m - 1\<rparr> else m)
          else if values ! 0 = p
          then m\<lparr>ncdata := (ncdata m)(Metric (mem p) \<mapsto> tl values), ncsize := ncsize m - 1\<rparr>
          else (case confirm_loop p values 0 values of
                  None \<Rightarrow> m
                | Some vs \<Rightarrow> m\<lparr>ncdata := (ncdata m)(Metric (mem p) \<mapsto> vs), ncsize := ncsize m - 1\<rparr>))"

text \<open>\<open>close\<close> of a closed channel panics: None.\<close>

definition handleQuery :: "notConfirmed \<Rightarrow> Query \<Rightarrow> Query option" where
  "handleQuery m q =
     (let q1 = (case ncdata m (QMetric q) of None \<Rightarrow> q | Some values \<Rightarrow> q\<lparr>InFlightData := Some values\<rparr>)
      in if WaitClosed q1 then None else Some (q1\<lparr>WaitClosed := True\<rparr>))"

section \<open>Abstraction and invariant\<close>

definition in_flight :: "notConfirmed \<Rightarrow> string \<Rightarrow> addr list" where
  "in_flight m k = elems (ncdata m k)"

definition nc_inv :: "memory \<Rightarrow> notConfirmed \<Rightarrow> bool" where
  "nc_inv mem m \<longleftrightarrow>
     finite (dom (ncdata m)) \<and> (\<forall>k vs. ncdata m k = Some vs \<longrightarrow> vs \<noteq> [] \<and> (\<forall>v\<in>set vs. Metric (mem v) = k))
     \<and> ncsize m = int (point_total (ncdata m))"

lemma confirm_loop_eq: "confirm_loop p (pre @ vs) (length pre) vs = (if p \<in> set vs then Some (pre @ remove1 p vs) else None)"
proof (induction vs arbitrary: pre)
  case (Cons v vs)
  show ?case using Cons.IH [of "pre @ [v]"] by auto
qed simp

lemma confirm_loop_remove1: "confirm_loop p vs 0 vs = (if p \<in> set vs then Some (remove1 p vs) else None)"
  using confirm_loop_eq [of p "[]" vs] by simp

text \<open>All four branches remove the first occurrence of the pointer and drop an empty entry.\<close>

lemma nc_confirm_eq:
  assumes "nc_inv mem m"
  shows "nc_confirm mem p m =
    (if p \<in> set (in_flight m (Metric (mem p)))
     then (let vs = remove1 p (in_flight m (Metric (mem p)))
           in m\<lparr>ncdata := (ncdata m)(Metric (mem p) := if vs = [] then None else Some vs), ncsize := ncsize m - 1\<rparr>)
     else m)"
proof (cases "ncdata m (Metric (mem p))")
  case (Some vs)
  with assms have ne: "vs \<noteq> []" by (auto simp: nc_inv_def)
  have r: "p \<in> set vs \<Longrightarrow> remove1 p vs = [] \<longleftrightarrow> length vs = 1"
    by (metis One_nat_def Suc_length_conv length_0_conv length_Suc_conv length_remove1 list.set_cases diff_Suc_1 remove1.simps(2))
  show ?thesis
  proof (cases "p \<in> set vs")
    case False
    then have "vs ! 0 \<noteq> p" using ne by (cases vs) auto
    then show ?thesis using Some False by (simp add: nc_confirm_def in_flight_def confirm_loop_remove1)
  next
    case True
    show ?thesis
    proof (cases "length vs = 1")
      case True1: True
      then have "vs = [p]" using True by (cases vs) auto
      then show ?thesis using Some by (simp add: nc_confirm_def in_flight_def)
    next
      case False
      have "vs ! 0 = p \<Longrightarrow> tl vs = remove1 p vs" using ne by (cases vs) auto
      then show ?thesis using Some False True r by (auto simp: nc_confirm_def in_flight_def confirm_loop_remove1 Let_def)
    qed
  qed
qed (simp add: nc_confirm_def in_flight_def)

lemma in_flight_add: "in_flight (nc_add mem p m) k = in_flight m k @ (if k = Metric (mem p) then [p] else [])"
  by (auto simp: nc_add_def in_flight_def Let_def elems_def split: option.splits)

lemma in_flight_confirm:
  assumes "nc_inv mem m"
  shows "in_flight (nc_confirm mem p m) k = (if k = Metric (mem p) then remove1 p (in_flight m k) else in_flight m k)"
  by (auto simp: nc_confirm_eq [OF assms] Let_def in_flight_def remove1_idem)

lemma nc_inv_new: "nc_inv mem newNotConfirmed"
  by (simp add: nc_inv_def newNotConfirmed_def)

lemma nc_inv_add:
  assumes "nc_inv mem m" shows "nc_inv mem (nc_add mem p m)"
proof -
  define k where "k = Metric (mem p)"
  have f: "finite (dom (ncdata m))" using assms by (simp add: nc_inv_def)
  define vs where "vs = (case ncdata m k of None \<Rightarrow> [] | Some vs \<Rightarrow> vs)"
  have "point_total ((ncdata m)(k \<mapsto> vs @ [p])) = Suc (point_total (ncdata m))"
    using total_upd [OF f, of k "vs @ [p]"] by (simp add: vs_def)
  then show ?thesis using assms
    by (auto simp: nc_inv_def nc_add_def Let_def k_def vs_def split: option.splits if_splits)
qed

lemma nc_inv_confirm:
  assumes "nc_inv mem m" shows "nc_inv mem (nc_confirm mem p m)"
proof (cases "p \<in> set (in_flight m (Metric (mem p)))")
  case True
  define k where "k = Metric (mem p)"
  have f: "finite (dom (ncdata m))" using assms by (simp add: nc_inv_def)
  obtain vs where vs: "ncdata m k = Some vs" "p \<in> set vs" using True by (cases "ncdata m k") (auto simp: in_flight_def k_def)
  have l: "length vs = Suc (length (remove1 p vs))" using vs(2) length_pos_if_in_set [OF vs(2)] by (simp add: length_remove1)
  define M where "M = (ncdata m)(k := if remove1 p vs = [] then None else Some (remove1 p vs))"
  have eq: "nc_confirm mem p m = m\<lparr>ncdata := M, ncsize := ncsize m - 1\<rparr>"
    using True vs(1) by (simp add: nc_confirm_eq [OF assms] M_def k_def in_flight_def Let_def)
  have "point_total M + 1 = point_total (ncdata m)"
    using total_upd [OF f, of k "remove1 p vs"] total_remove [OF f vs(1)] l vs(1) by (auto simp: M_def)
  then have "ncsize m - 1 = int (point_total M)" using assms by (simp add: nc_inv_def)
  moreover have "finite (dom M)" using f by (simp add: M_def)
  moreover have "ws \<noteq> [] \<and> (\<forall>v\<in>set ws. Metric (mem v) = j)" if "M j = Some ws" for j ws
  proof (cases "j = k")
    case True
    then have "ws = remove1 p vs" "ws \<noteq> []" using that by (auto simp: M_def split: if_splits)
    then show ?thesis using assms vs(1) True set_remove1_subset [of p vs] unfolding nc_inv_def by blast
  next
    case False
    then have "ncdata m j = Some ws" using that by (simp add: M_def)
    then show ?thesis using assms unfolding nc_inv_def by blast
  qed
  ultimately show ?thesis unfolding eq nc_inv_def by simp
qed (simp add: nc_confirm_eq assms)

lemma nc_inv_mem_cong: "(\<And>a. Metric (mem' a) = Metric (mem a)) \<Longrightarrow> nc_inv mem' m = nc_inv mem m"
  by (simp add: nc_inv_def)

end
