(* ===== verification/Cache_Props.thy ===== *)
theory Cache_Props
  imports Cache_Model
begin

text \<open>
  What the cache promises to its clients: the points of a metric leave it in the order in which they
  came, its counters are right, a rebuilt queue hands out the entry the strategy wants, the cache
  can be drained, and when \<open>Pop\<close> panics.
\<close>

section \<open>Lemmas\<close>

lemma word_of_nat_eq_0: "word_of_nat n = (0::'a::len word) \<Longrightarrow> n < 2 ^ LENGTH('a) \<Longrightarrow> n = 0"
  by (metis mod_less unat_0 unat_of_nat)

lemma nonempty_total:
  assumes "cache_inv mem c" "data c \<noteq> Map.empty" "\<forall>a\<in>ran (data c). points_of (mem a) \<noteq> []" "point_total (contents mem c) < 2 ^ 32"
  shows "csize c \<noteq> 0"
proof
  assume "csize c = 0"
  then have "word_of_nat (point_total (contents mem c)) = (0::uint32)" using cache_invD(5,6) [OF assms(1)] by simp
  then have "point_total (contents mem c) = 0" by (rule word_of_nat_eq_0) (use assms(4) in simp)
  then have "\<forall>k v. contents mem c k = Some v \<longrightarrow> v = []"
    using total_zero [of "contents mem c"] cache_invD(1) [OF assms(1)] by simp
  moreover obtain k a where "data c k = Some a" using assms(2) by (metis ext option.exhaust)
  ultimately show False using assms(3) by (auto simp: contents_def ran_def)
qed

text \<open>With entries in the cache, \<open>Pop\<close> returns one of them.\<close>

lemma Cache_Pop_progress:
  assumes "cache_inv mem c" "visits (range_order env) (data c)" "data c \<noteq> Map.empty"
    "\<forall>a\<in>ran (data c). points_of (mem a) \<noteq> []" "point_total (contents mem c) < 2 ^ 32"
  shows "\<exists>v c'. Cache_Pop env mem c = Inr (Some v, c')"
proof -
  obtain r c' where p: "Cache_Pop env mem c = Inr (r, c')" using Cache_Pop_returns [OF assms(1,2)] assms(4) by blast
  have "r \<noteq> None"
  proof
    assume "r = None"
    then show False using Cache_Pop_None(3) [OF assms(1,2)] p assms(3) nonempty_total [OF assms(1,3,4,5)] by simp
  qed
  with p show ?thesis by blast
qed

lemma Cache_Pop_smaller:
  assumes "cache_inv mem c" "visits (range_order env) (data c)" "Cache_Pop env mem c = Inr (Some v, c')"
  shows "card (dom (data c)) = Suc (card (dom (data c')))" "ran (data c') \<subseteq> ran (data c)"
    "point_total (contents mem c') \<le> point_total (contents mem c)"
proof -
  note p = Cache_Pop_Some [OF assms]
  have "data c (Metric (mem v)) = Some v" using inv_key [OF assms(1) p(2)] .
  then show "card (dom (data c)) = Suc (card (dom (data c')))"
    using cache_invD(1) [OF assms(1)] by (auto simp: p(5) intro!: card.remove)
  show "ran (data c') \<subseteq> ran (data c)" by (auto simp: p(5) ran_def)
  show "point_total (contents mem c') \<le> point_total (contents mem c)"
    using total_remove [of "contents mem c" "Metric (mem v)"] p(3,4) cache_invD(1) [OF assms(1)] by fastforce
qed

definition sample_env :: "string list \<Rightarrow> get_env" where
  "sample_env ks = \<lparr>range_order = ks, now_writeout = 0, now_start = 0, now_built = 0, now_after = 0, input_before = 0, input_after = 0\<rparr>"

lemma cache_drain_run:
  assumes "cache_inv mem c" "\<forall>a\<in>ran (data c). points_of (mem a) \<noteq> []" "point_total (contents mem c) < 2 ^ 32"
  shows "\<exists>envs outs c'. length envs = card (dom (data c)) \<and> cache_run (mem, c) (map Take envs) = Some ([], outs, (mem, c')) \<and> data c' = Map.empty"
  using assms
proof (induction "card (dom (data c))" arbitrary: c)
  case 0
  then have "data c = Map.empty" using cache_invD(1) [of mem c] by (metis card_0_eq dom_eq_empty_conv)
  then show ?case using 0 by (intro exI [of _ "[]"]) (auto simp: cache_run_def)
next
  case (Suc n)
  obtain ks where ks: "visits ks (data c)" using visits_exists cache_invD(1) Suc.prems(1) by blast
  have v: "visits (range_order (sample_env ks)) (data c)" using ks by (simp add: sample_env_def)
  have "data c \<noteq> Map.empty" using Suc.hyps(2) by auto
  then obtain x c1 where p: "Cache_Pop (sample_env ks) mem c = Inr (Some x, c1)"
    using Cache_Pop_progress [OF Suc.prems(1) v _ Suc.prems(2,3)] by blast
  note sm = Cache_Pop_smaller [OF Suc.prems(1) v p]
  have ne: "\<forall>a\<in>ran (data c1). points_of (mem a) \<noteq> []" using sm(2) Suc.prems(2) by blast
  obtain envs outs c' where r: "length envs = card (dom (data c1))" "cache_run (mem, c1) (map Take envs) = Some ([], outs, (mem, c'))" "data c' = Map.empty"
    using Suc.hyps(1) [OF _ Cache_Pop_Some(1) [OF Suc.prems(1) v p] ne] Suc.hyps(2) sm Suc.prems(3) by auto
  have "cache_run (mem, c) (map Take (sample_env ks # envs)) = Some ([], cache_item (mem, c) x # outs, (mem, c'))"
    using r(2) p v by (simp add: cache_run_def cache_adm_def cache_take_def)
  then show ?case using r sm(1) by (intro exI [of _ "sample_env ks # envs"]) auto
qed

text \<open>When the strategies fail.\<close>

lemma Cache_Pop_Inl:
  "Cache_Pop env mem c = Inl e \<longleftrightarrow>
     queue c = [] \<and> csize c \<noteq> 0 \<and> sort_queue (writeStrategy c) mem (List.map_filter (data c) (range_order env)) = Inl e"
  by (auto simp: Cache_Pop_def Cache_Get_def getNext_def updateQueue_def writeout_done_frame Let_def split: sum.splits option.splits prod.splits)

lemma sort_queue_Inl:
  "sort_queue ws mem q = Inl e \<longleftrightarrow> ws = TimestampOrder \<and> 2 \<le> length q \<and> \<not> list_all (\<lambda>a. points_of (mem a) \<noteq> []) q"
  by (cases e; cases ws) (auto simp: sort_queue_def byTimestamp_def)

lemma order_length: "visits ks (data c) \<Longrightarrow> length (List.map_filter (data c) ks) = card (dom (data c))"
proof -
  assume v: "visits ks (data c)"
  then have "filter (\<lambda>k. data c k \<noteq> None) ks = ks" by (auto simp: visits_def filter_id_conv)
  with v show ?thesis by (metis (no_types, lifting) List.map_filter_def comp_apply distinct_card filter_cong length_map visits_def)
qed

section \<open>Properties\<close>

text \<open>C3. Whatever sequence of \<open>Add\<close> and \<open>Pop\<close> a fresh cache runs through, and whatever order the
  queue takes, the points of every metric come out in the order in which they went in: what went in is
  what came out followed by what is still cached.\<close>

theorem cache_fifo:
  assumes "cache_run (mem, Cache_New) ops = Some (ins, outs, (mem', c'))"
  shows "of_metric m ins = of_metric m outs @ elems (contents mem' c' m)"
  using store.run_fifo [of "(mem, Cache_New)" ops ins outs "(mem', c')" m] assms
  by (simp add: cache_run_def inv_New contents_New)

text \<open>C11. In every such history the cache stays well formed: its size counter is the number of cached
  points and its metric counter the number of metrics, modulo \<open>2^32\<close>, every entry is stored under its own
  name, and the queue refers to each entry at most once.\<close>

theorem cache_accounting:
  assumes "cache_run (mem, Cache_New) ops = Some (ins, outs, (mem', c'))"
  shows "cache_inv mem' c' \<and> Size c' = word_of_nat (point_total (contents mem' c')) \<and> metricCount c' = word_of_nat (card (dom (contents mem' c')))"
proof -
  have "cache_inv mem' c'"
    using store.run_fifo [of "(mem, Cache_New)" ops ins outs "(mem', c')"] assms by (simp add: cache_run_def inv_New)
  then show ?thesis by (simp add: Size_def cache_invD)
qed

text \<open>C32. The entry that \<open>Pop\<close> takes when it has rebuilt the queue is the one the strategy asks for: no
  other entry has more points under \<open>max\<close>, none has an older first point under \<open>sort\<close>.\<close>

theorem pop_most_urgent:
  assumes "cache_inv mem c" "visits (range_order env) (data c)" "queue c = []" "csize c \<noteq> 0"
    "Cache_Pop env mem c = Inr (Some v, c')" "a \<in> ran (data c)" "a \<noteq> v"
  shows "more_urgent (writeStrategy c) mem v a"
proof -
  from assms(5) obtain c1 where "Cache_Get env mem c = Inr (Some v, c1)"
    by (auto simp: Cache_Pop_def split: sum.splits option.splits)
  then show ?thesis
  proof (cases rule: Cache_Get_cases)
    case (rebuilt c2 c3)
    then have q: "queue c2 = butlast (queue c2) @ [v]" by (auto simp: getNext_Some)
    have s: "sort_queue (writeStrategy c) mem (List.map_filter (data c) (range_order env)) = Inr (queue c2)"
      using updateQueue_Inr(7) [OF rebuilt(2)] assms(4) by (simp add: writeout_done_frame)
    have "a \<in> set (queue c2)" using strategy.arrange_set [OF s] entries_of_order(1) [OF assms(1,2)] assms(6) by simp
    then have "a \<in> set (butlast (queue c2))" using assms(7) q by (metis append_butlast_last_id in_set_butlastD rotate1.simps(2) set_ConsD set_rotate1)
    with strategy.arrange_last_urgent [OF s q] show ?thesis .
  qed (use assms(3) in simp)
qed


text \<open>\<open>Pop\<close> panics exactly when the queue is used up, the strategy is \<open>sort\<close>, and among two or more
  metrics one has no points (\<open>Data[0]\<close> of an empty slice).\<close>

theorem pop_panics_iff:
  assumes "cache_inv mem c" "visits (range_order env) (data c)"
  shows "Cache_Pop env mem c = Inl e \<longleftrightarrow>
    queue c = [] \<and> csize c \<noteq> 0 \<and> writeStrategy c = TimestampOrder \<and> 2 \<le> card (dom (data c)) \<and> Some [] \<in> range (contents mem c)"
proof -
  have "(\<not> list_all (\<lambda>a. points_of (mem a) \<noteq> []) (List.map_filter (data c) (range_order env))) \<longleftrightarrow> (\<exists>a\<in>ran (data c). points_of (mem a) = [])"
    using entries_of_order(1) [OF assms] by (auto simp: list_all_iff)
  also have "\<dots> \<longleftrightarrow> Some [] \<in> range (contents mem c)" 
    unfolding contents_def ran_def by (auto simp: image_iff map_option_case split: option.splits)
  finally show ?thesis unfolding Cache_Pop_Inl sort_queue_Inl order_length [OF assms(2)] by blast
qed

section \<open>Witnesses\<close>

definition sample_mem :: memory where
  "sample_mem a = (if a = 0 then OnePoint ''a'' 1 10 else if a = 1 then OnePoint ''b'' 2 5 else OnePoint ''a'' 3 20)"

definition sample_ops :: "(addr, get_env) store_op list" where
  "sample_ops = [Put 0, Put 1, Put 2, Take (sample_env [''a'', ''b''])]"

lemmas cache_eval = cache_run_def cache_put_def cache_fresh_def cache_item_def cache_take_def cache_adm_def
  Cache_Add_def Cache_Pop_def Cache_Get_def getNext_def updateQueue_def writeout_done_def sort_queue_def byLength_def
  byTimestamp_def Cache_Remove_def Cache_New_def sample_env_def sample_mem_def OnePoint_def go_append_def visits_def
  List.map_filter_simps Let_def

lemma sample_run: "\<exists>mem' c'. cache_run (sample_mem, Cache_New) sample_ops =
  Some ([(''a'', [\<lparr>Value = 1, Timestamp = 10\<rparr>]), (''b'', [\<lparr>Value = 2, Timestamp = 5\<rparr>]), (''a'', [\<lparr>Value = 3, Timestamp = 20\<rparr>])],
    [(''a'', [\<lparr>Value = 1, Timestamp = 10\<rparr>, \<lparr>Value = 3, Timestamp = 20\<rparr>])], (mem', c'))"
  by (simp add: sample_ops_def cache_eval insert_commute)

theorem cache_fifo_witness:
  "\<exists>ins outs mem' c'. cache_run (sample_mem, Cache_New) sample_ops = Some (ins, outs, (mem', c')) \<and> length (of_metric ''a'' ins) = 2
     \<and> of_metric ''a'' ins = of_metric ''a'' outs @ elems (contents mem' c' ''a'')"
proof -
  obtain mem' c' where r: "cache_run (sample_mem, Cache_New) sample_ops =
    Some ([(''a'', [\<lparr>Value = 1, Timestamp = 10\<rparr>]), (''b'', [\<lparr>Value = 2, Timestamp = 5\<rparr>]), (''a'', [\<lparr>Value = 3, Timestamp = 20\<rparr>])],
      [(''a'', [\<lparr>Value = 1, Timestamp = 10\<rparr>, \<lparr>Value = 3, Timestamp = 20\<rparr>])], (mem', c'))"
    using sample_run by blast
  from cache_fifo [OF r, of "''a''"] show ?thesis unfolding r by (intro exI conjI) (rule refl, simp_all)
qed

theorem cache_accounting_witness:
  "\<exists>ins outs mem' c'. cache_run (sample_mem, Cache_New) sample_ops = Some (ins, outs, (mem', c'))
     \<and> cache_inv mem' c' \<and> Size c' = word_of_nat (point_total (contents mem' c'))"
proof -
  obtain ins outs mem' c' where r: "cache_run (sample_mem, Cache_New) sample_ops = Some (ins, outs, (mem', c'))"
    using sample_run by blast
  from cache_accounting [OF r] r show ?thesis by blast
qed

definition sample_cache :: "nat \<Rightarrow> WriteStrategy \<Rightarrow> Cache" where
  "sample_cache n ws = Cache_New\<lparr>data := [''a'' \<mapsto> 0, ''b'' \<mapsto> 1], csize := word_of_nat n, sizeShared := word_of_nat n,
     metricCount := 2, writeStrategy := ws\<rparr>"

lemma sample_data: "data (sample_cache n ws) = [''a'' \<mapsto> 0, ''b'' \<mapsto> 1]" "queue (sample_cache n ws) = []"
  "csize (sample_cache n ws) = word_of_nat n" "writeStrategy (sample_cache n ws) = ws"
  by (simp_all add: sample_cache_def Cache_New_def)

lemma sample_contents: "contents mem (sample_cache n ws) = [''a'' \<mapsto> points_of (mem 0), ''b'' \<mapsto> points_of (mem 1)]"
  unfolding contents_def sample_data by (rule ext) simp

lemma sample_total: "point_total (contents mem (sample_cache n ws)) = length (points_of (mem 0)) + length (points_of (mem 1))"
  by (simp add: sample_contents point_total_def)

lemma sample_cache_inv:
  assumes "Metric (mem 0) = ''a''" "Metric (mem 1) = ''b''" "n = length (points_of (mem 0)) + length (points_of (mem 1))"
  shows "cache_inv mem (sample_cache n ws)"
  unfolding cache_inv_def sample_total sample_data using assms
  by (auto simp: sample_cache_def Cache_New_def split: if_splits)

lemma sample_visits: "visits [''a'', ''b''] (data (sample_cache n ws))"
  by (auto simp: visits_def sample_cache_def Cache_New_def)

theorem pop_most_urgent_witness: "\<exists>c'. Cache_Pop (sample_env [''a'', ''b'']) (sample_mem(0 := Append (OnePoint ''a'' 1 10) \<lparr>Value = 3, Timestamp = 20\<rparr>))
    (sample_cache 3 MaximumLength) = Inr (Some 0, c')
  \<and> more_urgent MaximumLength (sample_mem(0 := Append (OnePoint ''a'' 1 10) \<lparr>Value = 3, Timestamp = 20\<rparr>)) 0 1"
proof -
  define mem where "mem = sample_mem(0 := Append (OnePoint ''a'' 1 10) \<lparr>Value = 3, Timestamp = 20\<rparr>)"
  have i: "cache_inv mem (sample_cache 3 MaximumLength)" by (rule sample_cache_inv) (simp_all add: mem_def sample_mem_def OnePoint_def)
  have "\<exists>c'. Cache_Pop (sample_env [''a'', ''b'']) mem (sample_cache 3 MaximumLength) = Inr (Some 0, c')"
    by (simp add: mem_def sample_cache_def cache_eval Append_def)
  then obtain c' where p: "Cache_Pop (sample_env [''a'', ''b'']) mem (sample_cache 3 MaximumLength) = Inr (Some 0, c')" ..
  have "more_urgent (writeStrategy (sample_cache 3 MaximumLength)) mem 0 1"
  proof (rule pop_most_urgent [OF i _ _ _ p])
    show "visits (range_order (sample_env [''a'', ''b''])) (data (sample_cache 3 MaximumLength))"
      by (simp add: sample_env_def sample_visits)
    show "1 \<in> ran (data (sample_cache 3 MaximumLength))" unfolding sample_data by (rule ranI [of _ "''b''"]) simp
  qed (simp_all add: sample_data)
  then show ?thesis using p by (simp add: mem_def sample_cache_def)
qed


theorem pop_panics_iff_witness:
  "Cache_Pop (sample_env [''a'', ''b'']) (sample_mem(1 := \<lparr>Metric = ''b'', Data = None\<rparr>)) (sample_cache 1 TimestampOrder) = Inl IndexOutOfRange"
proof -
  define mem where "mem = sample_mem(1 := \<lparr>Metric = ''b'', Data = None\<rparr>)"
  have i: "cache_inv mem (sample_cache 1 TimestampOrder)"
    by (rule sample_cache_inv) (simp_all add: mem_def sample_mem_def OnePoint_def)
  have "contents mem (sample_cache 1 TimestampOrder) ''b'' = Some []" by (simp add: contents_def sample_cache_def mem_def)
  then have e: "Some [] \<in> range (contents mem (sample_cache 1 TimestampOrder))" by (metis rangeI)
  have v: "visits (range_order (sample_env [''a'', ''b''])) (data (sample_cache 1 TimestampOrder))" by (simp add: sample_env_def sample_visits)
  show ?thesis using pop_panics_iff [OF i v, of IndexOutOfRange] e by (simp add: mem_def sample_cache_def Cache_New_def)
qed

end
