(* ===== verification/Cache_Worker.thy ===== *)
theory Cache_Worker
  imports Confirm Cache_Props
begin

text \<open>
  The two goroutines of the cache, \<open>Cache.worker\<close> (\<open>src/cache/cache.go\<close>) and \<open>notConfirmed.worker\<close>
  (\<open>src/cache/confirm.go\<close>), with everything they exchange: the input, output, confirmation and
  query channels, and the unbuffered channel between them. Each case of each \<open>select\<close> is a function
  that returns None when the case cannot be taken, and \<open>wstep\<close> interleaves them with what the rest
  of the daemon does at the other ends of the channels.

  \<open>history\<close> records what the properties speak of: the messages the cache accepted, those it dropped,
  those the persister received, and the answered queries; \<open>wgiven\<close> are the messages the persister has
  received and not yet confirmed. Buffered channels have at least one place.
\<close>

section \<open>State\<close>

datatype wpc = WTop | WSelect | WForward Query | WStopped | WPanicked

record history =
  accepted :: "(string \<times> Point list) list"
  dropped :: "(string \<times> Point list) list"
  delivered :: "(string \<times> Point list) list"
  answered :: "Query list"

record world =
  wmem :: memory
  allocated :: "addr set"
  wcache :: Cache
  inChan :: chan
  outChan :: chan
  confChan :: chan
  qChan :: "Query list"
  wpc :: wpc
  wvalues :: "addr option"
  tracker :: notConfirmed
  tp :: "addr option"
  tqChan :: "Query list"
  tstopped :: bool
  exitClosed :: bool
  wgiven :: "addr list"
  hist :: history

text \<open>\<open>Start\<close>: the channels are created unless a getter has done so, and the worker starts the tracker.\<close>

definition Cache_Start :: "memory \<Rightarrow> addr set \<Rightarrow> Cache \<Rightarrow> world" where
  "Cache_Start mem al c =
     (let (c1, inc) = Cache_In c; (c2, outc) = Cache_Out c1
      in \<lparr>wmem = mem, allocated = al, wcache = c2, inChan = inc, outChan = outc, confChan = confirmChan c2,
          qChan = [], wpc = WTop, wvalues = None, tracker = newNotConfirmed, tp = None, tqChan = [],
          tstopped = False, exitClosed = False, wgiven = [],
          hist = \<lparr>accepted = [], dropped = [], delivered = [], answered = []\<rparr>\<rparr>)"

definition query_cap :: nat where
  "query_cap = 16"

definition room :: "chan \<Rightarrow> bool" where
  "room ch \<longleftrightarrow> length (buffered ch) < capacity ch"

section \<open>The main loop of the cache\<close>

text \<open>The part of an iteration before \<open>select\<close>.\<close>

definition main_top :: "get_env \<Rightarrow> world \<Rightarrow> world option" where
  "main_top env w =
     (if wpc w \<noteq> WTop then None
      else let forceReceive = (length (buffered (inChan w)) > capacity (inChan w) div 10)
           in if wvalues w = None \<and> \<not> forceReceive
              then (case Cache_Pop env (wmem w) (wcache w) of
                      Inl _ \<Rightarrow> Some (w\<lparr>wpc := WPanicked\<rparr>)
                    | Inr (r, c') \<Rightarrow> Some (w\<lparr>wvalues := r, wcache := c', wpc := WSelect\<rparr>))
              else Some (w\<lparr>wpc := WSelect\<rparr>))"

text \<open>\<open>case query := <-c.queryChan\<close>; the forwarding to the tracker may block and is a step of its own.\<close>

definition answer_from_cache :: "memory \<Rightarrow> addr option \<Rightarrow> Cache \<Rightarrow> Query \<Rightarrow> Query" where
  "answer_from_cache mem values c q =
     (case values of
        Some v \<Rightarrow> if Metric (mem v) = QMetric q then q\<lparr>CacheData := Some (mem v)\<rparr>
                  else (case data c (QMetric q) of Some a \<Rightarrow> q\<lparr>CacheData := Some (Copy (mem a))\<rparr> | None \<Rightarrow> q)
      | None \<Rightarrow> (case data c (QMetric q) of Some a \<Rightarrow> q\<lparr>CacheData := Some (Copy (mem a))\<rparr> | None \<Rightarrow> q))"

definition sel_query :: "world \<Rightarrow> world option" where
  "sel_query w =
     (if wpc w \<noteq> WSelect then None
      else (case qChan w of
              [] \<Rightarrow> None
            | q # qs \<Rightarrow>
                Some (w\<lparr>qChan := qs, wcache := (wcache w)\<lparr>queryCnt := queryCnt (wcache w) + 1\<rparr>,
                        wpc := WForward (answer_from_cache (wmem w) (wvalues w) (wcache w) q)\<rparr>)))"

definition forward_query :: "world \<Rightarrow> world option" where
  "forward_query w =
     (case wpc w of
        WForward q \<Rightarrow> if length (tqChan w) < query_cap then Some (w\<lparr>tqChan := tqChan w @ [q], wpc := WTop\<rparr>) else None
      | _ \<Rightarrow> None)"

text \<open>\<open>case sendTo <- values\<close>: a rendezvous with \<open>case p = <-recvFrom\<close> of the tracker.\<close>

definition sel_send :: "world \<Rightarrow> world option" where
  "sel_send w =
     (if wpc w \<noteq> WSelect \<or> tstopped w \<or> tp w \<noteq> None then None
      else (case wvalues w of
              None \<Rightarrow> None
            | Some v \<Rightarrow> Some (w\<lparr>wvalues := None, wpc := WTop, tp := Some v, tracker := nc_add (wmem w) v (tracker w)\<rparr>)))"

definition item_of :: "memory \<Rightarrow> addr \<Rightarrow> string \<times> Point list" where
  "item_of mem p = (Metric (mem p), points_of (mem p))"

definition sel_input :: "world \<Rightarrow> world option" where
  "sel_input w =
     (if wpc w \<noteq> WSelect then None
      else (case buffered (inChan w) of
              [] \<Rightarrow> None
            | msg # rest \<Rightarrow>
                (let w1 = w\<lparr>inChan := (inChan w)\<lparr>buffered := rest\<rparr>, wpc := WTop\<rparr>; c = wcache w
                 in if maxSize c = 0 \<or> csize c < maxSize c
                    then (let (mem', c') = Cache_Add msg (wmem w) c
                          in Some (w1\<lparr>wmem := mem', wcache := c',
                                      hist := (hist w)\<lparr>accepted := accepted (hist w) @ [item_of (wmem w) msg]\<rparr>\<rparr>))
                    else Some (w1\<lparr>wcache := c\<lparr>overflowCnt := overflowCnt c + 1\<rparr>,
                                  hist := (hist w)\<lparr>dropped := dropped (hist w) @ [item_of (wmem w) msg]\<rparr>\<rparr>))))"

definition sel_exit :: "world \<Rightarrow> world option" where
  "sel_exit w = (if wpc w = WSelect \<and> exitClosed w then Some (w\<lparr>wpc := WStopped\<rparr>) else None)"

section \<open>The loop of the tracker\<close>

definition trk_out :: "world \<Rightarrow> world option" where
  "trk_out w =
     (if tstopped w then None
      else (case tp w of
              None \<Rightarrow> None
            | Some p \<Rightarrow>
                if room (outChan w) then Some (w\<lparr>outChan := (outChan w)\<lparr>buffered := buffered (outChan w) @ [p]\<rparr>, tp := None\<rparr>)
                else None))"

definition trk_confirm :: "world \<Rightarrow> world option" where
  "trk_confirm w =
     (if tstopped w then None
      else (case buffered (confChan w) of
              [] \<Rightarrow> None
            | c # rest \<Rightarrow> Some (w\<lparr>confChan := (confChan w)\<lparr>buffered := rest\<rparr>, tracker := nc_confirm (wmem w) c (tracker w)\<rparr>)))"

definition trk_query :: "world \<Rightarrow> world option" where
  "trk_query w =
     (if tstopped w then None
      else (case tqChan w of
              [] \<Rightarrow> None
            | q # qs \<Rightarrow>
                (case handleQuery (tracker w) q of
                   None \<Rightarrow> Some (w\<lparr>wpc := WPanicked\<rparr>)
                 | Some q' \<Rightarrow> Some (w\<lparr>tqChan := qs, hist := (hist w)\<lparr>answered := answered (hist w) @ [q']\<rparr>\<rparr>))))"

definition trk_exit :: "world \<Rightarrow> world option" where
  "trk_exit w = (if \<not> tstopped w \<and> exitClosed w then Some (w\<lparr>tstopped := True\<rparr>) else None)"

section \<open>The other ends of the channels\<close>

text \<open>A receiver sends a new message; the persister takes one, or confirms one; a client asks; \<open>Stop\<close>.\<close>

definition env_input :: "addr \<Rightarrow> Points \<Rightarrow> world \<Rightarrow> world option" where
  "env_input p msg w =
     (if room (inChan w) \<and> p \<notin> allocated w
      then Some (w\<lparr>inChan := (inChan w)\<lparr>buffered := buffered (inChan w) @ [p]\<rparr>, wmem := (wmem w)(p := msg),
                   allocated := insert p (allocated w)\<rparr>)
      else None)"

definition env_persist :: "world \<Rightarrow> world option" where
  "env_persist w =
     (case buffered (outChan w) of
        [] \<Rightarrow> None
      | v # vs \<Rightarrow> Some (w\<lparr>outChan := (outChan w)\<lparr>buffered := vs\<rparr>, wgiven := wgiven w @ [v],
                          hist := (hist w)\<lparr>delivered := delivered (hist w) @ [item_of (wmem w) v]\<rparr>\<rparr>))"

definition env_confirm :: "addr \<Rightarrow> world \<Rightarrow> world option" where
  "env_confirm v w =
     (if room (confChan w) \<and> v \<in> set (wgiven w)
      then Some (w\<lparr>confChan := (confChan w)\<lparr>buffered := buffered (confChan w) @ [v]\<rparr>, wgiven := remove1 v (wgiven w)\<rparr>)
      else None)"

definition env_query :: "string \<Rightarrow> world \<Rightarrow> world option" where
  "env_query m w = (if length (qChan w) < query_cap then Some (w\<lparr>qChan := qChan w @ [NewQuery m]\<rparr>) else None)"

definition env_stop :: "world \<Rightarrow> world option" where
  "env_stop w = Some (w\<lparr>exitClosed := True\<rparr>)"

inductive wstep :: "world \<Rightarrow> world \<Rightarrow> bool" where
  top: "visits (range_order env) (data (wcache w)) \<Longrightarrow> main_top env w = Some w' \<Longrightarrow> wstep w w'"
| query: "sel_query w = Some w' \<Longrightarrow> wstep w w'"
| forward: "forward_query w = Some w' \<Longrightarrow> wstep w w'"
| send: "sel_send w = Some w' \<Longrightarrow> wstep w w'"
| input: "sel_input w = Some w' \<Longrightarrow> wstep w w'"
| exit: "sel_exit w = Some w' \<Longrightarrow> wstep w w'"
| t_out: "trk_out w = Some w' \<Longrightarrow> wstep w w'"
| t_confirm: "trk_confirm w = Some w' \<Longrightarrow> wstep w w'"
| t_query: "trk_query w = Some w' \<Longrightarrow> wstep w w'"
| t_exit: "trk_exit w = Some w' \<Longrightarrow> wstep w w'"
| e_input: "env_input p msg w = Some w' \<Longrightarrow> wstep w w'"
| e_persist: "env_persist w = Some w' \<Longrightarrow> wstep w w'"
| e_confirm: "env_confirm v w = Some w' \<Longrightarrow> wstep w w'"
| e_query: "env_query m w = Some w' \<Longrightarrow> wstep w w'"
| e_stop: "env_stop w = Some w' \<Longrightarrow> wstep w w'"

section \<open>The invariant\<close>

definition opt_list :: "'a option \<Rightarrow> 'a list" where
  "opt_list r = (case r of None \<Rightarrow> [] | Some x \<Rightarrow> [x])"

text \<open>The messages between the cache and the persister, oldest first, and those not yet confirmed.\<close>

definition pipeline :: "world \<Rightarrow> addr list" where
  "pipeline w = buffered (outChan w) @ opt_list (tp w) @ opt_list (wvalues w)"

definition tracked :: "world \<Rightarrow> addr list" where
  "tracked w = buffered (confChan w) @ wgiven w @ buffered (outChan w) @ opt_list (tp w)"

definition ptr_inv :: "world \<Rightarrow> bool" where
  "ptr_inv w \<longleftrightarrow>
     distinct (buffered (inChan w)) \<and> set (buffered (inChan w)) \<inter> ran (data (wcache w)) = {}
     \<and> set (pipeline w) \<inter> ran (data (wcache w)) = {} \<and> set (pipeline w) \<inter> set (buffered (inChan w)) = {}
     \<and> set (buffered (inChan w)) \<union> ran (data (wcache w)) \<union> set (pipeline w) \<union> set (tracked w) \<subseteq> allocated w"

definition flow_inv :: "world \<Rightarrow> bool" where
  "flow_inv w \<longleftrightarrow>
     (\<forall>m. of_metric m (accepted (hist w)) =
        of_metric m (delivered (hist w)) @ of_metric m (map (item_of (wmem w)) (pipeline w)) @ elems (contents (wmem w) (wcache w) m))"

definition trk_inv :: "world \<Rightarrow> bool" where
  "trk_inv w \<longleftrightarrow> nc_inv (wmem w) (tracker w)
     \<and> (\<forall>k. mset (in_flight (tracker w) k) = mset (filter (\<lambda>a. Metric (wmem w a) = k) (tracked w)))"

definition winv :: "world \<Rightarrow> bool" where
  "winv w \<longleftrightarrow> cache_inv (wmem w) (wcache w) \<and> ptr_inv w \<and> flow_inv w \<and> trk_inv w"

lemma opt_list_simps [simp]: "opt_list None = []" "opt_list (Some x) = [x]"
  by (simp_all add: opt_list_def)

lemma of_metric_append [simp]: "of_metric m (xs @ ys) = of_metric m xs @ of_metric m ys"
  by (simp add: of_metric_def)

lemmas winv_defs = winv_def ptr_inv_def flow_inv_def trk_inv_def pipeline_def tracked_def

text \<open>Steps that move nothing but counters, queries and program counters.\<close>

lemma winv_frame:
  assumes "winv w" "wmem w' = wmem w" "allocated w' = allocated w" "data (wcache w') = data (wcache w)"
    "queue (wcache w') = queue (wcache w)" "csize (wcache w') = csize (wcache w)" "sizeShared (wcache w') = sizeShared (wcache w)"
    "metricCount (wcache w') = metricCount (wcache w)" "inChan w' = inChan w" "outChan w' = outChan w" "confChan w' = confChan w"
    "wvalues w' = wvalues w" "tracker w' = tracker w" "tp w' = tp w" "wgiven w' = wgiven w"
    "accepted (hist w') = accepted (hist w)" "delivered (hist w') = delivered (hist w)"
  shows "winv w'"
  using assms cache_inv_cong [of "wcache w'" "wcache w"] by (simp add: winv_defs)

lemma winv_main_top:
  assumes "winv w" "visits (range_order env) (data (wcache w))" "main_top env w = Some w'"
  shows "winv w'"
proof (cases "wvalues w = None \<and> \<not> length (buffered (inChan w)) > capacity (inChan w) div 10")
  case False
  then have "w' = w\<lparr>wpc := WSelect\<rparr>" using assms(3) by (auto simp: main_top_def Let_def split: if_splits)
  then show ?thesis using winv_frame [OF assms(1)] by simp
next
  case True
  show ?thesis
  proof (cases "Cache_Pop env (wmem w) (wcache w)")
    case (Inl e)
    then have "w' = w\<lparr>wpc := WPanicked\<rparr>" using assms(3) True by (auto simp: main_top_def split: if_splits)
    then show ?thesis using winv_frame [OF assms(1)] by simp
  next
    case (Inr rc)
    obtain r c' where rc: "rc = (r, c')" by fastforce
    have w': "w' = w\<lparr>wvalues := r, wcache := c', wpc := WSelect\<rparr>"
      using assms(3) True Inr rc by (auto simp: main_top_def split: if_splits)
    have i: "cache_inv (wmem w) (wcache w)" using assms(1) by (simp add: winv_def)
    show ?thesis
    proof (cases r)
      case None
      note p = Cache_Pop_None [OF i assms(2) Inr [unfolded rc None]]
      have "data c' = data (wcache w)"
        using Cache_Get_inv(2) [OF i assms(2)] Inr rc None by (auto simp: Cache_Pop_def split: sum.splits option.splits)
      then show ?thesis using assms(1) p True by (simp add: winv_defs w' None)
    next
      case (Some v)
      note p = Cache_Pop_Some [OF i assms(2) Inr [unfolded rc Some]]
      have ran: "ran (data c') \<subseteq> ran (data (wcache w))" "v \<notin> ran (data c')"
        using cache_invD(2) [OF i] by (auto simp: p(5) ran_def split: if_splits)
      have "elems (contents (wmem w) (wcache w) m) = (if Metric (wmem w v) = m then points_of (wmem w v) else []) @ elems (contents (wmem w) c' m)" for m
        using p(3,4) by auto
      then show ?thesis using assms(1) p(1,2) True ran by (auto simp: winv_defs w' Some item_of_def)
    qed
  qed
qed

lemma winv_sel_send:
  assumes "winv w" "sel_send w = Some w'" shows "winv w'"
proof -
  from assms(2) obtain v where v: "wvalues w = Some v" "tp w = None"
    and w': "w' = w\<lparr>wvalues := None, wpc := WTop, tp := Some v, tracker := nc_add (wmem w) v (tracker w)\<rparr>"
    by (auto simp: sel_send_def split: if_splits option.splits)
  have "trk_inv w'" using assms(1) by (auto simp: winv_def trk_inv_def tracked_def w' v nc_inv_add in_flight_add)
  then show ?thesis using assms(1) by (auto simp: winv_def ptr_inv_def flow_inv_def pipeline_def tracked_def w' v)
qed

lemma Cache_Add_mem:
  assumes "Cache_Add p mem c = (mem', c')" "a \<notin> ran (data c)" shows "mem' a = mem a"
  using assms by (auto simp: Cache_Add_def Let_def ran_def split: option.splits)

lemma winv_accept:
  assumes w: "winv w" and b: "buffered (inChan w) = p # rest" and a: "Cache_Add p (wmem w) (wcache w) = (mem', c')"
    and w': "w' = w\<lparr>inChan := (inChan w)\<lparr>buffered := rest\<rparr>, wpc := pc, wmem := mem', wcache := c',
               hist := (hist w)\<lparr>accepted := accepted (hist w) @ [item_of (wmem w) p]\<rparr>\<rparr>"
  shows "winv w'"
proof -
  have i: "cache_inv (wmem w) (wcache w)" and pi: "ptr_inv w" using w by (simp_all add: winv_def)
  have p: "p \<notin> ran (data (wcache w))" using pi b by (auto simp: ptr_inv_def)
  note f = Cache_Add_frame [OF i a] and r = ran_Add [OF i a]
  have same: "mem' x = wmem w x" if "x \<in> set (pipeline w)" for x
    using that pi by (intro Cache_Add_mem [OF a]) (auto simp: ptr_inv_def)
  have pl: "pipeline w' = pipeline w" "tracked w' = tracked w" by (simp_all add: pipeline_def tracked_def w')
  have "ptr_inv w'" using pi r b unfolding ptr_inv_def pl by (auto simp: w')
  moreover have ml: "map (item_of mem') (pipeline w) = map (item_of (wmem w)) (pipeline w)" using same by (simp add: item_of_def)
  have "flow_inv w'" unfolding flow_inv_def pl
  proof
    fix m
    have "of_metric m (accepted (hist w)) =
        of_metric m (delivered (hist w)) @ of_metric m (map (item_of (wmem w)) (pipeline w)) @ elems (contents (wmem w) (wcache w) m)"
      using w by (simp add: winv_def flow_inv_def)
    then show "of_metric m (accepted (hist w')) =
        of_metric m (delivered (hist w')) @ of_metric m (map (item_of (wmem w')) (pipeline w)) @ elems (contents (wmem w') (wcache w') m)"
      using elems_contents_Add [OF i p a, of m] by (simp add: w' ml) (simp add: item_of_def)
  qed
  moreover have "wmem w' = mem'" "tracker w' = tracker w" by (simp_all add: w')
  then have "trk_inv w'" using w nc_inv_mem_cong [of mem' "wmem w"] f(4) by (simp add: winv_def trk_inv_def pl)
  ultimately show ?thesis using inv_Add [OF i p a] by (simp add: winv_def w')
qed

lemma winv_sel_input:
  assumes "winv w" "sel_input w = Some w'" shows "winv w'"
proof -
  from assms(2) obtain p rest where b: "buffered (inChan w) = p # rest" by (auto simp: sel_input_def split: if_splits list.splits)
  show ?thesis
  proof (cases "maxSize (wcache w) = 0 \<or> csize (wcache w) < maxSize (wcache w)")
    case True
    obtain mem' c' where a: "Cache_Add p (wmem w) (wcache w) = (mem', c')" by fastforce
    show ?thesis by (rule winv_accept [OF assms(1) b a]) (use assms(2) b a True in \<open>auto simp: sel_input_def Let_def split: if_splits\<close>)
  next
    case False
    then have w': "w' = w\<lparr>inChan := (inChan w)\<lparr>buffered := rest\<rparr>, wpc := WTop, wcache := (wcache w)\<lparr>overflowCnt := overflowCnt (wcache w) + 1\<rparr>,
        hist := (hist w)\<lparr>dropped := dropped (hist w) @ [item_of (wmem w) p]\<rparr>\<rparr>"
      using assms(2) b by (auto simp: sel_input_def Let_def split: if_splits)
    show ?thesis using assms(1) b cache_inv_cong [of "wcache w'" "wcache w"] by (auto simp: winv_defs w')
  qed
qed

lemma winv_trk_out:
  assumes "winv w" "trk_out w = Some w'" shows "winv w'"
proof -
  from assms(2) obtain p where p: "tp w = Some p"
    and w': "w' = w\<lparr>outChan := (outChan w)\<lparr>buffered := buffered (outChan w) @ [p]\<rparr>, tp := None\<rparr>"
    by (auto simp: trk_out_def split: if_splits option.splits)
  have "pipeline w' = pipeline w" "tracked w' = tracked w" by (simp_all add: pipeline_def tracked_def w' p)
  then show ?thesis using assms(1) by (simp add: winv_def ptr_inv_def flow_inv_def trk_inv_def w')
qed

lemma winv_trk_confirm:
  assumes "winv w" "trk_confirm w = Some w'" shows "winv w'"
proof -
  from assms(2) obtain c rest where b: "buffered (confChan w) = c # rest"
    and w': "w' = w\<lparr>confChan := (confChan w)\<lparr>buffered := rest\<rparr>, tracker := nc_confirm (wmem w) c (tracker w)\<rparr>"
    by (auto simp: trk_confirm_def split: if_splits list.splits)
  have n: "nc_inv (wmem w) (tracker w)" using assms(1) by (simp add: winv_def trk_inv_def)
  have t: "tracked w = c # tracked w'" by (simp add: tracked_def w' b)
  have "mset (in_flight (tracker w') k) = mset (filter (\<lambda>a. Metric (wmem w' a) = k) (tracked w'))" for k
  proof -
    have "mset (in_flight (tracker w) k) = mset (filter (\<lambda>a. Metric (wmem w a) = k) (c # tracked w'))"
      using assms(1) t by (simp add: winv_def trk_inv_def)
    moreover have "in_flight (tracker w') k = (if k = Metric (wmem w c) then remove1 c (in_flight (tracker w) k) else in_flight (tracker w) k)"
      by (simp add: w' in_flight_confirm [OF n])
    moreover have "wmem w' = wmem w" by (simp add: w')
    ultimately show ?thesis by (cases "k = Metric (wmem w c)") auto
  qed
  then have "trk_inv w'" using nc_inv_confirm [OF n] by (simp add: trk_inv_def w')
  moreover have "pipeline w' = pipeline w" by (simp add: pipeline_def w')
  ultimately show ?thesis using assms(1) t by (auto simp: winv_def ptr_inv_def flow_inv_def w')
qed

lemma winv_env_persist:
  assumes "winv w" "env_persist w = Some w'" shows "winv w'"
proof -
  from assms(2) obtain v vs where b: "buffered (outChan w) = v # vs"
    and w': "w' = w\<lparr>outChan := (outChan w)\<lparr>buffered := vs\<rparr>, wgiven := wgiven w @ [v],
               hist := (hist w)\<lparr>delivered := delivered (hist w) @ [item_of (wmem w) v]\<rparr>\<rparr>"
    by (auto simp: env_persist_def split: list.splits)
  have "tracked w' = tracked w" "pipeline w = v # pipeline w'" by (simp_all add: pipeline_def tracked_def w' b)
  then show ?thesis using assms(1) by (auto simp: winv_def ptr_inv_def flow_inv_def trk_inv_def w')
qed

lemma winv_env_confirm:
  assumes "winv w" "env_confirm v w = Some w'" shows "winv w'"
proof -
  from assms(2) have v: "v \<in> set (wgiven w)"
    and w': "w' = w\<lparr>confChan := (confChan w)\<lparr>buffered := buffered (confChan w) @ [v]\<rparr>, wgiven := remove1 v (wgiven w)\<rparr>"
    by (auto simp: env_confirm_def split: if_splits)
  have m: "mset (tracked w') = mset (tracked w)" using v by (simp add: tracked_def w')
  then have "set (tracked w') = set (tracked w)" "\<And>P. mset (filter P (tracked w')) = mset (filter P (tracked w))"
    by (metis set_mset_mset) (simp add: m)
  moreover have "pipeline w' = pipeline w" by (simp add: pipeline_def w')
  ultimately show ?thesis using assms(1) by (simp add: winv_def ptr_inv_def flow_inv_def trk_inv_def w')
qed

lemma winv_env_input:
  assumes "winv w" "env_input p msg w = Some w'" shows "winv w'"
proof -
  from assms(2) have p: "p \<notin> allocated w"
    and w': "w' = w\<lparr>inChan := (inChan w)\<lparr>buffered := buffered (inChan w) @ [p]\<rparr>, wmem := (wmem w)(p := msg), allocated := insert p (allocated w)\<rparr>"
    by (auto simp: env_input_def split: if_splits)
  have pi: "ptr_inv w" and ti: "trk_inv w" and i: "cache_inv (wmem w) (wcache w)" using assms(1) by (simp_all add: winv_def)
  have pl: "pipeline w' = pipeline w" "tracked w' = tracked w" by (simp_all add: pipeline_def tracked_def w')
  have al: "p \<notin> ran (data (wcache w))" "p \<notin> set (pipeline w)" "p \<notin> set (tracked w)" "p \<notin> set (buffered (inChan w))"
    using p pi by (auto simp: ptr_inv_def)
  have co: "contents (wmem w') (wcache w) = contents (wmem w) (wcache w)"
    using al(1) by (auto simp: contents_def fun_eq_iff w' ran_def map_option_case split: option.splits)
  have "cache_inv (wmem w') (wcache w')" using i al(1) co by (auto simp: cache_inv_def w' ran_def)
  moreover have "ptr_inv w'" using pi al unfolding ptr_inv_def pl by (auto simp: w')
  moreover have ml: "map (item_of (wmem w')) (pipeline w) = map (item_of (wmem w)) (pipeline w)" using al(2) by (auto simp: item_of_def w')
  have "hist w' = hist w" "wcache w' = wcache w" by (simp_all add: w')
  then have "flow_inv w'" using assms(1) by (simp add: winv_def flow_inv_def pl ml co)
  moreover have "trk_inv w'"
  proof -
    have fe: "filter (\<lambda>a. Metric (wmem w' a) = k) (tracked w) = filter (\<lambda>a. Metric (wmem w a) = k) (tracked w)" for k
      using al(3) by (intro filter_cong) (auto simp: w')
    have "set (in_flight (tracker w) k) \<subseteq> set (tracked w)" for k
      using ti unfolding trk_inv_def by (metis filter_is_subset set_mset_mset)
    then have out: "p \<notin> set (in_flight (tracker w) k)" for k using al(3) by blast
    have "v \<noteq> p" if "ncdata (tracker w) k = Some vs" "v \<in> set vs" for k vs v
      using that out [of k] by (auto simp: in_flight_def)
    then have "nc_inv (wmem w') (tracker w)" using ti by (auto simp: trk_inv_def nc_inv_def w')
    then show ?thesis using ti by (simp add: trk_inv_def pl fe) (simp add: w')
  qed
  ultimately show ?thesis by (simp add: winv_def)
qed

lemma winv_sel_query:
  assumes "winv w" "sel_query w = Some w'" shows "winv w'"
proof -
  from assms(2) obtain q qs where "w' = w\<lparr>qChan := qs, wcache := (wcache w)\<lparr>queryCnt := queryCnt (wcache w) + 1\<rparr>,
      wpc := WForward (answer_from_cache (wmem w) (wvalues w) (wcache w) q)\<rparr>"
    by (auto simp: sel_query_def split: if_splits list.splits)
  then show ?thesis using winv_frame [OF assms(1)] by simp
qed

lemma winv_forward_query:
  assumes "winv w" "forward_query w = Some w'" shows "winv w'"
proof -
  from assms(2) obtain q where "w' = w\<lparr>tqChan := tqChan w @ [q], wpc := WTop\<rparr>"
    by (auto simp: forward_query_def split: if_splits wpc.splits)
  then show ?thesis using winv_frame [OF assms(1)] by simp
qed

lemma winv_trk_query:
  assumes "winv w" "trk_query w = Some w'" shows "winv w'"
proof -
  from assms(2) obtain qs q' where "w' = w\<lparr>wpc := WPanicked\<rparr> \<or> w' = w\<lparr>tqChan := qs, hist := (hist w)\<lparr>answered := answered (hist w) @ [q']\<rparr>\<rparr>"
    by (auto simp: trk_query_def split: if_splits list.splits option.splits)
  then show ?thesis
  proof
    assume "w' = w\<lparr>wpc := WPanicked\<rparr>"
    then show ?thesis using winv_frame [OF assms(1)] by simp
  next
    assume "w' = w\<lparr>tqChan := qs, hist := (hist w)\<lparr>answered := answered (hist w) @ [q']\<rparr>\<rparr>"
    then show ?thesis using winv_frame [OF assms(1)] by simp
  qed
qed

lemma winv_rest:
  "winv w \<Longrightarrow> sel_exit w = Some w' \<Longrightarrow> winv w'" "winv w \<Longrightarrow> trk_exit w = Some w' \<Longrightarrow> winv w'"
  "winv w \<Longrightarrow> env_query m w = Some w' \<Longrightarrow> winv w'" "winv w \<Longrightarrow> env_stop w = Some w' \<Longrightarrow> winv w'"
  using winv_frame [of w w'] by (auto simp: sel_exit_def trk_exit_def env_query_def env_stop_def split: if_splits)

lemma winv_wstep:
  assumes "wstep w w'" "winv w" shows "winv w'"
  using assms
  by (induction rule: wstep.induct)
    (auto intro: winv_main_top winv_sel_send winv_sel_input winv_trk_out winv_trk_confirm winv_env_persist winv_env_confirm
      winv_env_input winv_sel_query winv_forward_query winv_trk_query winv_rest)

text \<open>A started cache: nothing cached, nothing in the channels.\<close>

definition started :: "world \<Rightarrow> bool" where
  "started w \<longleftrightarrow> (\<exists>mem al c. cache_inv mem c \<and> data c = Map.empty \<and> buffered (confirmChan c) = []
     \<and> (inputChan c = None \<or> buffered (the (inputChan c)) = []) \<and> (outputChan c = None \<or> buffered (the (outputChan c)) = [])
     \<and> w = Cache_Start mem al c)"

lemma Cache_Start_winv:
  assumes "cache_inv mem c" "data c = Map.empty" "buffered (confirmChan c) = []"
    "inputChan c = None \<or> buffered (the (inputChan c)) = []" "outputChan c = None \<or> buffered (the (outputChan c)) = []"
  shows "winv (Cache_Start mem al c)"
proof -
  obtain c1 inc c2 outc where e: "Cache_In c = (c1, inc)" "Cache_Out c1 = (c2, outc)" by (cases "Cache_In c"; cases "Cache_Out (fst (Cache_In c))") auto
  then have f: "data c2 = data c" "queue c2 = queue c" "csize c2 = csize c" "sizeShared c2 = sizeShared c" "metricCount c2 = metricCount c"
    "confirmChan c2 = confirmChan c" "buffered inc = []" "buffered outc = []"
    using assms(4,5) by (auto simp: Cache_In_def Cache_Out_def Let_def split: option.splits)
  have "cache_inv mem c2" using assms(1) f cache_inv_cong(1) [of c2 c] by simp
  moreover have "in_flight newNotConfirmed k = []" for k by (simp add: in_flight_def newNotConfirmed_def)
  ultimately show ?thesis using e f assms nc_inv_new [of mem] by (simp add: winv_defs Cache_Start_def contents_def)
qed

interpretation cache_sys: invariant_system started wstep winv
  by unfold_locales (auto simp: started_def intro: Cache_Start_winv winv_wstep)

section \<open>Queries and panics\<close>

text \<open>Every query under way is still open, and the only panic is the one of the \<open>sort\<close> strategy.\<close>

definition q_inv :: "world \<Rightarrow> bool" where
  "q_inv w \<longleftrightarrow> list_all (\<lambda>q. \<not> WaitClosed q) (qChan w @ tqChan w) \<and> (\<forall>q. wpc w = WForward q \<longrightarrow> \<not> WaitClosed q)
     \<and> (wpc w = WPanicked \<longrightarrow> writeStrategy (wcache w) = TimestampOrder)"

lemma answer_from_cache_frame:
  "WaitClosed (answer_from_cache mem v c q) = WaitClosed q" "QMetric (answer_from_cache mem v c q) = QMetric q"
  "InFlightData (answer_from_cache mem v c q) = InFlightData q"
  by (auto simp: answer_from_cache_def split: option.splits)

lemma Cache_Pop_strategy: "Cache_Pop env mem c = Inr (r, c') \<Longrightarrow> writeStrategy c' = writeStrategy c"
proof -
  assume "Cache_Pop env mem c = Inr (r, c')"
  then obtain c1 where g: "Cache_Get env mem c = Inr (r, c1)" and "writeStrategy c' = writeStrategy c1"
    by (auto simp: Cache_Pop_def Cache_Remove_def Let_def split: sum.splits option.splits)
  moreover from g have "writeStrategy c1 = writeStrategy c"
  proof (cases rule: Cache_Get_cases)
    case (rebuilt c2 c3)
    then show ?thesis using updateQueue_Inr(6) [OF rebuilt(2)] by (auto simp: getNext_def writeout_done_frame split: if_splits)
  qed (auto simp: getNext_def split: if_splits)
  ultimately show ?thesis by simp
qed

lemma q_inv_wstep:
  assumes "wstep w w'" "q_inv w" shows "q_inv w'"
  using assms
proof (induction rule: wstep.induct)
  case (top env w w')
  then show ?case
    by (auto simp: main_top_def Let_def q_inv_def Cache_Pop_Inl sort_queue_Inl dest: Cache_Pop_strategy split: if_splits sum.splits)
next
  case (query w w')
  then show ?case by (auto simp: q_inv_def sel_query_def answer_from_cache_frame split: if_splits list.splits)
next
  case (forward w w')
  then show ?case by (auto simp: q_inv_def forward_query_def split: if_splits wpc.splits)
next
  case (send w w')
  then show ?case by (auto simp: q_inv_def sel_send_def split: if_splits option.splits)
next
  case (input w w')
  then show ?case by (auto simp: q_inv_def sel_input_def Let_def split: if_splits list.splits prod.splits)
next
  case (exit w w')
  then show ?case by (auto simp: q_inv_def sel_exit_def split: if_splits)
next
  case (t_out w w')
  then show ?case by (auto simp: q_inv_def trk_out_def split: if_splits option.splits)
next
  case (t_confirm w w')
  then show ?case by (auto simp: q_inv_def trk_confirm_def split: if_splits list.splits)
next
  case (t_query w w')
  then show ?case by (auto simp: q_inv_def trk_query_def handleQuery_def Let_def split: if_splits list.splits option.splits)
next
  case (t_exit w w')
  then show ?case by (auto simp: q_inv_def trk_exit_def split: if_splits)
next
  case (e_input p msg w w')
  then show ?case by (auto simp: q_inv_def env_input_def split: if_splits)
next
  case (e_persist w w')
  then show ?case by (auto simp: q_inv_def env_persist_def split: list.splits)
next
  case (e_confirm v w w')
  then show ?case by (auto simp: q_inv_def env_confirm_def split: if_splits)
next
  case (e_query m w w')
  then show ?case by (auto simp: q_inv_def env_query_def NewQuery_def split: if_splits)
next
  case (e_stop w w')
  then show ?case by (auto simp: q_inv_def env_stop_def)
qed

lemma Cache_Start_q_inv: "q_inv (Cache_Start mem al c)"
  by (simp add: Cache_Start_def q_inv_def Let_def split: prod.splits)

interpretation query_sys: invariant_system started wstep q_inv
  by unfold_locales (auto simp: started_def intro: Cache_Start_q_inv q_inv_wstep)

end
