(* ===== verification/Cache_Worker_Props.thy ===== *)
theory Cache_Worker_Props
  imports Cache_Worker
begin

text \<open>
  What holds of the running cache in every interleaving of its two goroutines with the receivers, the
  persister and the query clients: order and completeness of the delivered points, what the tracker
  knows, what a query is told, and that nothing panics unless the \<open>sort\<close> strategy meets an empty entry.
\<close>

lemma cache_data_points:
  "elems (map_option points_of (CacheData (answer_from_cache mem v c (NewQuery m)))) =
     (case v of Some a \<Rightarrow> if Metric (mem a) = m then points_of (mem a) else elems (contents mem c m) | None \<Rightarrow> elems (contents mem c m))"
  by (auto simp: answer_from_cache_def NewQuery_def contents_def Copy_def elems_def split: option.splits)

section \<open>A history for the witnesses\<close>

text \<open>A receiver sends a message, the worker takes it, pops it, and hands it to the tracker.\<close>

definition sample_w1 :: world where
  "sample_w1 = the (env_input 0 (OnePoint ''a'' 1 10) (Cache_Start sample_mem {} Cache_New))"

definition sample_w2 :: world where
  "sample_w2 = the (main_top (sample_env []) sample_w1)"

definition sample_w3 :: world where
  "sample_w3 = the (sel_input sample_w2)"

definition sample_w4 :: world where
  "sample_w4 = the (main_top (sample_env [''a'']) sample_w3)"

definition sample_w5 :: world where
  "sample_w5 = the (sel_send sample_w4)"

lemmas world_eval = cache_eval Cache_Start_def Cache_In_def Cache_Out_def env_input_def main_top_def sel_input_def sel_send_def
  room_def item_of_def

lemma sample_w1_eval: "env_input 0 (OnePoint ''a'' 1 10) (Cache_Start sample_mem {} Cache_New) = Some sample_w1"
  by (simp add: sample_w1_def world_eval)

lemma sample_w2_eval: "main_top (sample_env []) sample_w1 = Some sample_w2" "data (wcache sample_w1) = Map.empty"
  by (simp_all add: sample_w2_def sample_w1_def world_eval)

lemma sample_w3_eval: "sel_input sample_w2 = Some sample_w3"
  by (simp add: sample_w3_def sample_w2_def sample_w1_def world_eval)

lemma sample_w4_eval: "main_top (sample_env [''a'']) sample_w3 = Some sample_w4" "data (wcache sample_w3) = [''a'' \<mapsto> 0]"
  by (simp_all add: sample_w4_def sample_w3_def sample_w2_def sample_w1_def world_eval)

lemma sample_w5_eval: "sel_send sample_w4 = Some sample_w5"
  by (simp add: sample_w5_def sample_w4_def sample_w3_def sample_w2_def sample_w1_def world_eval)

lemma sample_w5_facts: "accepted (hist sample_w5) = [(''a'', [\<lparr>Value = 1, Timestamp = 10\<rparr>])]" "tp sample_w5 = Some 0"
  "writeStrategy (wcache sample_w5) = MaximumLength" "tracked sample_w5 = [0]"
  by (simp_all add: sample_w5_def sample_w4_def sample_w3_def sample_w2_def sample_w1_def world_eval tracked_def)

lemma sample_reachable: "reachable started wstep sample_w5"
proof -
  have "started (Cache_Start sample_mem {} Cache_New)"
    unfolding started_def by (intro exI [of _ sample_mem] exI [of _ "{}"] exI [of _ Cache_New] conjI inv_New) (simp_all add: Cache_New_def)
  then have "reachable started wstep sample_w1"
    using wstep.e_input [OF sample_w1_eval] by (blast intro: reachable.intros)
  then have "reachable started wstep sample_w2"
    by (rule reachable_step) (rule wstep.top [OF _ sample_w2_eval(1)], simp add: sample_w2_eval(2) sample_env_def)
  then have "reachable started wstep sample_w3"
    by (rule reachable_step) (rule wstep.input [OF sample_w3_eval])
  then have "reachable started wstep sample_w4"
    by (rule reachable_step) (rule wstep.top [OF _ sample_w4_eval(1)], simp add: sample_w4_eval(2) sample_env_def visits_def)
  then show ?thesis
    by (rule reachable_step) (rule wstep.send [OF sample_w5_eval])
qed

section \<open>Properties\<close>

text \<open>C2. In every reachable state of the running cache, and for every metric, the points accepted from the
  receivers are exactly, and in this order: those the persister received, those on their way to it (output
  channel, tracker, worker), and those still cached.\<close>

theorem pipeline_fifo:
  assumes "reachable started wstep w"
  shows "of_metric m (accepted (hist w)) =
    of_metric m (delivered (hist w)) @ of_metric m (map (item_of (wmem w)) (pipeline w)) @ elems (contents (wmem w) (wcache w) m)"
  using cache_sys.inv_reachable [OF assms] by (simp add: winv_def flow_inv_def)

theorem pipeline_fifo_witness:
  "of_metric ''a'' (accepted (hist sample_w5)) = of_metric ''a'' (delivered (hist sample_w5))
     @ of_metric ''a'' (map (item_of (wmem sample_w5)) (pipeline sample_w5)) @ elems (contents (wmem sample_w5) (wcache sample_w5) ''a'')
   \<and> of_metric ''a'' (accepted (hist sample_w5)) = [\<lparr>Value = 1, Timestamp = 10\<rparr>]"
  using pipeline_fifo [OF sample_reachable, of "''a''"] by (simp add: sample_w5_facts)

text \<open>C15. The tracker knows exactly the messages that were handed to it and not yet confirmed: those the persister
  confirmed but the tracker has not read, those it holds, those in the output channel, and the one being sent.\<close>

theorem inflight_exact:
  assumes "reachable started wstep w"
  shows "mset (in_flight (tracker w) k) = mset (filter (\<lambda>a. Metric (wmem w a) = k) (tracked w)) \<and> nc_inv (wmem w) (tracker w)"
  using cache_sys.inv_reachable [OF assms] by (simp add: winv_def trk_inv_def)

theorem inflight_exact_witness:
  "mset (in_flight (tracker sample_w5) ''a'') = mset (filter (\<lambda>a. Metric (wmem sample_w5 a) = ''a'') (tracked sample_w5))
   \<and> tracked sample_w5 = [0]"
  using inflight_exact [OF sample_reachable, of "''a''"] sample_w5_facts by blast

text \<open>C30. What a query reads from the worker, in every reachable state: the points not yet handed to the tracker, with one
  exception. When the worker holds a message of the same metric, the reply is that message alone and the points
  that reached the cache after it (last line) are left out.\<close>

theorem query_reply:
  assumes "reachable started wstep w"
  shows "of_metric m (accepted (hist w)) =
    of_metric m (delivered (hist w)) @ of_metric m (map (item_of (wmem w)) (buffered (outChan w) @ opt_list (tp w)))
    @ elems (map_option points_of (CacheData (answer_from_cache (wmem w) (wvalues w) (wcache w) (NewQuery m))))
    @ (case wvalues w of Some a \<Rightarrow> if Metric (wmem w a) = m then elems (contents (wmem w) (wcache w) m) else [] | None \<Rightarrow> [])"
proof -
  have "flow_inv w" using cache_sys.inv_reachable [OF assms] by (simp add: winv_def)
  then show ?thesis unfolding cache_data_points
    by (cases "wvalues w") (simp_all add: flow_inv_def pipeline_def item_of_def)
qed

theorem query_reply_witness:
  "of_metric ''a'' (accepted (hist sample_w5)) =
    of_metric ''a'' (delivered (hist sample_w5)) @ of_metric ''a'' (map (item_of (wmem sample_w5)) (buffered (outChan sample_w5) @ opt_list (tp sample_w5)))
    @ elems (map_option points_of (CacheData (answer_from_cache (wmem sample_w5) (wvalues sample_w5) (wcache sample_w5) (NewQuery ''a''))))
    @ (case wvalues sample_w5 of Some a \<Rightarrow> if Metric (wmem sample_w5 a) = ''a'' then elems (contents (wmem sample_w5) (wcache sample_w5) ''a'') else [] | None \<Rightarrow> [])"
  by (rule query_reply [OF sample_reachable])

text \<open>C34. Unless the write strategy is \<open>sort\<close>, no reachable state has panicked; in particular no query is closed twice.\<close>

theorem worker_no_panic:
  assumes "reachable started wstep w" "writeStrategy (wcache w) \<noteq> TimestampOrder"
  shows "wpc w \<noteq> WPanicked"
  using query_sys.inv_reachable [OF assms(1)] assms(2) by (auto simp: q_inv_def)

theorem worker_no_panic_witness: "wpc sample_w5 \<noteq> WPanicked"
  by (rule worker_no_panic [OF sample_reachable]) (simp add: sample_w5_facts)

section \<open>Deviations\<close>

text \<open>
  A dump taken after a stop has what is cached and what is in the output channel. What it misses are the messages that the two goroutines held, at most two;
  and it can happen that a point is lost this way.
\<close>

lemma stop_window:
  assumes "reachable started wstep w"
  shows "\<exists>held. length held \<le> 2 \<and> (\<forall>m. of_metric m (accepted (hist w)) = of_metric m (delivered (hist w))
    @ of_metric m (map (item_of (wmem w)) (buffered (outChan w))) @ of_metric m (map (item_of (wmem w)) held) @ elems (contents (wmem w) (wcache w) m))"
proof (intro exI conjI allI)
  show "length (opt_list (tp w) @ opt_list (wvalues w)) \<le> 2" by (simp add: opt_list_def split: option.splits)
  have "flow_inv w" using cache_sys.inv_reachable [OF assms] by (simp add: winv_def)
  then show "of_metric m (accepted (hist w)) = of_metric m (delivered (hist w)) @ of_metric m (map (item_of (wmem w)) (buffered (outChan w)))
    @ of_metric m (map (item_of (wmem w)) (opt_list (tp w) @ opt_list (wvalues w))) @ elems (contents (wmem w) (wcache w) m)" for m
    by (simp add: flow_inv_def pipeline_def)
qed

lemma dump_misses_held:
  "\<exists>w. reachable started wstep w \<and> wpc w = WStopped \<and> tstopped w \<and> accepted (hist w) = [(''a'', [\<lparr>Value = 1, Timestamp = 10\<rparr>])]
    \<and> delivered (hist w) = [] \<and> buffered (outChan w) = [] \<and> data (wcache w) = Map.empty"
proof -
  let ?w6 = "the (main_top (sample_env []) sample_w5)"
  let ?w7 = "?w6\<lparr>exitClosed := True\<rparr>"
  let ?w8 = "?w7\<lparr>wpc := WStopped\<rparr>"
  have empty: "data (wcache sample_w5) = Map.empty" and e: "main_top (sample_env []) sample_w5 = Some ?w6" and w6: "wpc ?w6 = WSelect" "tstopped ?w6 = False"
    "accepted (hist ?w6) = [(''a'', [\<lparr>Value = 1, Timestamp = 10\<rparr>])]" "delivered (hist ?w6) = []" "buffered (outChan ?w6) = []" "data (wcache ?w6) = Map.empty"
    by (simp_all add: sample_w5_def sample_w4_def sample_w3_def sample_w2_def sample_w1_def world_eval)
  have "reachable started wstep ?w6"
    by (rule reachable_step [OF sample_reachable wstep.top [OF _ e]]) (simp add: empty sample_env_def)
  then have "reachable started wstep ?w7" by (rule reachable_step) (rule wstep.e_stop, simp add: env_stop_def)
  then have "reachable started wstep ?w8" by (rule reachable_step) (rule wstep.exit, simp add: sel_exit_def w6)
  then have "reachable started wstep (?w8\<lparr>tstopped := True\<rparr>)" by (rule reachable_step) (rule wstep.t_exit, simp add: trk_exit_def w6)
  then show ?thesis using w6 by (intro exI [of _ "?w8\<lparr>tstopped := True\<rparr>"]) simp
qed

end
