(* ===== verification/Schemas.thy ===== *)
theory Schemas
  imports Go_Float
begin

text \<open>
  Storage schemas and aggregation rules, \<open>src/persister/whisper_schema.go\<close> and
  \<open>src/persister/whisper_aggregation.go\<close>: reading the sections of a configuration file into rules, and finding
  the rule of a metric.

  The configuration parser, the regular expressions and the whisper library are third-party or pattern code: a
  section is its text and a lookup function, \<open>compile\<close> and \<open>matches\<close> are the regular expressions over an abstract
  type \<open>'r\<close>, \<open>newRet\<close> and \<open>parseRet\<close> build retentions \<open>'t\<close>. White space is that of ASCII.
\<close>

section \<open>Sections of a configuration file\<close>

record section_of =
  sec_String :: string
  ValueOf :: "string \<Rightarrow> string"

text \<open>\<open>strings.Trim(strings.SplitN(sec.String(), "\n", 2)[0], " []")\<close>.\<close>

definition section_name :: "section_of \<Rightarrow> string" where
  "section_name sec = trim '' []'' (hd (split_on CHR 0x0A (sec_String sec)))"

definition skipped_section :: "section_of \<Rightarrow> bool" where
  "skipped_section sec \<longleftrightarrow> section_name sec = [] \<or> hd (section_name sec) = CHR ''#''"

definition TrimSpace :: "string \<Rightarrow> string" where
  "TrimSpace s = trim [CHR 0x09, CHR 0x0A, CHR 0x0B, CHR 0x0C, CHR 0x0D, CHR '' ''] s"

section \<open>Schemas\<close>

record ('r, 't) Schema =
  SName :: string
  Pattern :: 'r
  RetentionStr :: string
  Retentions :: "'t list"
  Priority :: int64

datatype 'e schema_error =
    ConfigError 'e
  | BadRetention string
  | RetentionLib 'e
  | EmptyPattern string
  | BadPattern string 'e
  | BadRetentions string "'e schema_error"
  | BadPriority string

fun schema_Match :: "('r \<Rightarrow> string \<Rightarrow> bool) \<Rightarrow> ('r, 't) Schema list \<Rightarrow> string \<Rightarrow> ('r, 't) Schema option" where
  "schema_Match matches [] metric = None"
| "schema_Match matches (s # ss) metric = (if matches (Pattern s) metric then Some s else schema_Match matches ss metric)"

fun retention_loop :: "(int \<Rightarrow> int \<Rightarrow> 't) \<Rightarrow> (string \<Rightarrow> ('e, 't) result) \<Rightarrow> string list \<Rightarrow> 't list \<Rightarrow> ('e schema_error, 't list) result" where
  "retention_loop newRet parseRet [] rs = Inr rs"
| "retention_loop newRet parseRet (d # ds) rs =
     (let def = TrimSpace d; parts = split_on CHR '':'' def
      in if length parts \<noteq> 2 then Inl (BadRetention def)
         else (case (parse_int (parts ! 0), parse_int (parts ! 1)) of
                 (Some v1, Some v2) \<Rightarrow> retention_loop newRet parseRet ds (rs @ [newRet v1 v2])
               | _ \<Rightarrow> (case parseRet def of Inl e \<Rightarrow> Inl (RetentionLib e) | Inr r \<Rightarrow> retention_loop newRet parseRet ds (rs @ [r]))))"

definition ParseRetentionDefs :: "(int \<Rightarrow> int \<Rightarrow> 't) \<Rightarrow> (string \<Rightarrow> ('e, 't) result) \<Rightarrow> string \<Rightarrow> ('e schema_error, 't list) result" where
  "ParseRetentionDefs newRet parseRet defs = retention_loop newRet parseRet (split_on CHR '','' defs) []"

text \<open>\<open>int64\<close> arithmetic wraps.\<close>

definition wrap64 :: "int \<Rightarrow> int64" where
  "wrap64 x = (x + 2 ^ 63) mod 2 ^ 64 - 2 ^ 63"

definition schema_priority :: "int64 \<Rightarrow> nat \<Rightarrow> int64" where
  "schema_priority p i = wrap64 (wrap64 (p * 2 ^ 32) - int i)"

fun schema_loop ::
  "(string \<Rightarrow> ('e, 'r) result) \<Rightarrow> (int \<Rightarrow> int \<Rightarrow> 't) \<Rightarrow> (string \<Rightarrow> ('e, 't) result)
   \<Rightarrow> nat \<Rightarrow> section_of list \<Rightarrow> ('r, 't) Schema list \<Rightarrow> ('e schema_error, ('r, 't) Schema list) result" where
  "schema_loop compile newRet parseRet i [] ss = Inr ss"
| "schema_loop compile newRet parseRet i (sec # secs) ss =
     (if skipped_section sec then schema_loop compile newRet parseRet (Suc i) secs ss
      else if ValueOf sec ''pattern'' = [] then Inl (EmptyPattern (section_name sec))
      else (case compile (ValueOf sec ''pattern'') of
              Inl e \<Rightarrow> Inl (BadPattern (section_name sec) e)
            | Inr pat \<Rightarrow>
                (case ParseRetentionDefs newRet parseRet (ValueOf sec ''retentions'') of
                   Inl e \<Rightarrow> Inl (BadRetentions (section_name sec) e)
                 | Inr rets \<Rightarrow>
                     (case (if ValueOf sec ''priority'' = [] then Some 0 else parse_int (ValueOf sec ''priority'')) of
                        None \<Rightarrow> Inl (BadPriority (section_name sec))
                      | Some p \<Rightarrow>
                          schema_loop compile newRet parseRet (Suc i) secs
                            (ss @ [\<lparr>SName = section_name sec, Pattern = pat, RetentionStr = ValueOf sec ''retentions'',
                                    Retentions = rets, Priority = schema_priority p i\<rparr>])))))"

text \<open>\<open>sort.Sort\<close>, highest \<open>Priority\<close> first; the priorities of one file differ from each other.\<close>

definition ReadWhisperSchemas ::
  "(string \<Rightarrow> ('e, 'r) result) \<Rightarrow> (int \<Rightarrow> int \<Rightarrow> 't) \<Rightarrow> (string \<Rightarrow> ('e, 't) result)
   \<Rightarrow> ('e, section_of list) result \<Rightarrow> ('e schema_error, ('r, 't) Schema list) result" where
  "ReadWhisperSchemas compile newRet parseRet config =
     (case config of
        Inl e \<Rightarrow> Inl (ConfigError e)
      | Inr secs \<Rightarrow>
          (case schema_loop compile newRet parseRet 0 secs [] of
             Inl e \<Rightarrow> Inl e
           | Inr ss \<Rightarrow> Inr (sort_key (\<lambda>s. - Priority s) ss)))"

section \<open>Aggregation\<close>

datatype AggregationMethod = Average | Sum | Last | Max | Min

record 'r whisperAggregationItem =
  aname :: string
  apattern :: "'r option"
  xFilesFactor :: float64
  aggregationMethodStr :: string
  aggregationMethod :: AggregationMethod

record 'r WhisperAggregation =
  AData :: "'r whisperAggregationItem list"
  ADefault :: "'r whisperAggregationItem"

definition NewWhisperAggregation :: "'r WhisperAggregation" where
  "NewWhisperAggregation = \<lparr>AData = [], ADefault = \<lparr>aname = ''default'', apattern = None, xFilesFactor = 0x3FE0000000000000,
     aggregationMethodStr = ''average'', aggregationMethod = Average\<rparr>\<rparr>"

definition method_of :: "string \<Rightarrow> AggregationMethod option" where
  "method_of s =
     (if s = ''average'' \<or> s = ''avg'' then Some Average
      else if s = ''sum'' then Some Sum
      else if s = ''last'' then Some Last
      else if s = ''max'' then Some Max
      else if s = ''min'' then Some Min
      else None)"

fun aggregation_loop :: "(string \<Rightarrow> ('e, 'r) result) \<Rightarrow> section_of list \<Rightarrow> 'r WhisperAggregation \<Rightarrow> ('e, 'r WhisperAggregation) result" where
  "aggregation_loop compile [] a = Inr a"
| "aggregation_loop compile (sec # secs) a =
     (if skipped_section sec then aggregation_loop compile secs a
      else (case compile (ValueOf sec ''pattern'') of
              Inl e \<Rightarrow> Inl e
            | Inr pat \<Rightarrow>
                (case ParseFloat (ValueOf sec ''xFilesFactor'') of
                   None \<Rightarrow> aggregation_loop compile secs a
                 | Some xff \<Rightarrow>
                     (case method_of (ValueOf sec ''aggregationMethod'') of
                        None \<Rightarrow> aggregation_loop compile secs a
                      | Some m \<Rightarrow>
                          aggregation_loop compile secs
                            (a\<lparr>AData := AData a @ [\<lparr>aname = section_name sec, apattern = Some pat, xFilesFactor = xff,
                                aggregationMethodStr = ValueOf sec ''aggregationMethod'', aggregationMethod = m\<rparr>]\<rparr>)))))"

definition ReadWhisperAggregation :: "(string \<Rightarrow> ('e, 'r) result) \<Rightarrow> ('e, section_of list) result \<Rightarrow> ('e, 'r WhisperAggregation) result" where
  "ReadWhisperAggregation compile config = (case config of Inl e \<Rightarrow> Inl e | Inr secs \<Rightarrow> aggregation_loop compile secs NewWhisperAggregation)"

text \<open>Every item of \<open>Data\<close> has a pattern; \<open>MatchString\<close> of a nil pattern would panic.\<close>

fun aggregation_match_loop :: "('r \<Rightarrow> string \<Rightarrow> bool) \<Rightarrow> 'r whisperAggregationItem list \<Rightarrow> 'r whisperAggregationItem \<Rightarrow> string \<Rightarrow> 'r whisperAggregationItem option" where
  "aggregation_match_loop matches [] dflt metric = Some dflt"
| "aggregation_match_loop matches (s # ss) dflt metric =
     (case apattern s of
        None \<Rightarrow> None
      | Some r \<Rightarrow> if matches r metric then Some s else aggregation_match_loop matches ss dflt metric)"

definition aggregation_match :: "('r \<Rightarrow> string \<Rightarrow> bool) \<Rightarrow> 'r WhisperAggregation \<Rightarrow> string \<Rightarrow> 'r whisperAggregationItem option" where
  "aggregation_match matches a metric = aggregation_match_loop matches (AData a) (ADefault a) metric"

section \<open>Lemmas\<close>

lemma wrap64_id: "- (2 ^ 63) \<le> x \<Longrightarrow> x < 2 ^ 63 \<Longrightarrow> wrap64 x = x"
  by (simp add: wrap64_def)

text \<open>Within 32 bits the priority orders first by the configured number and then by the position in the file.\<close>

lemma schema_priority_small:
  assumes "- (2 ^ 31) \<le> p" "p < 2 ^ 31" "int i < 2 ^ 32" "- (2 ^ 31) < p \<or> i = 0"
  shows "schema_priority p i = p * 2 ^ 32 - int i"
proof -
  have "- (2 ^ 63) \<le> p * 2 ^ 32" "p * 2 ^ 32 < 2 ^ 63" using assms(1,2) by simp_all
  moreover have "- (2 ^ 63) \<le> p * 2 ^ 32 - int i" "p * 2 ^ 32 - int i < 2 ^ 63" using assms by auto
  ultimately show ?thesis by (simp add: schema_priority_def wrap64_id)
qed

lemma schema_priority_less:
  assumes "- (2 ^ 31) < p" "p < 2 ^ 31" "- (2 ^ 31) < p'" "p' < 2 ^ 31" "int i < 2 ^ 32" "int j < 2 ^ 32"
  shows "schema_priority p i > schema_priority p' j \<longleftrightarrow> p > p' \<or> p = p' \<and> i < j"
proof -
  have "schema_priority p i = p * 2 ^ 32 - int i" "schema_priority p' j = p' * 2 ^ 32 - int j"
    by (rule schema_priority_small; use assms in simp)+
  then show ?thesis using assms(5,6) by (cases p p' rule: linorder_cases) auto
qed

text \<open>The schema of the section at position \<open>i\<close>, when it has one, and the priority written there.\<close>

definition schema_at ::
  "(string \<Rightarrow> ('e, 'r) result) \<Rightarrow> (int \<Rightarrow> int \<Rightarrow> 't) \<Rightarrow> (string \<Rightarrow> ('e, 't) result) \<Rightarrow> nat \<Rightarrow> section_of \<Rightarrow> ('r, 't) Schema option" where
  "schema_at compile newRet parseRet i sec =
     (if skipped_section sec then None
      else (case (compile (ValueOf sec ''pattern''), ParseRetentionDefs newRet parseRet (ValueOf sec ''retentions''),
                  (if ValueOf sec ''priority'' = [] then Some 0 else parse_int (ValueOf sec ''priority''))) of
              (Inr pat, Inr rets, Some p) \<Rightarrow>
                Some \<lparr>SName = section_name sec, Pattern = pat, RetentionStr = ValueOf sec ''retentions'', Retentions = rets, Priority = schema_priority p i\<rparr>
            | _ \<Rightarrow> None))"

definition written_priority :: "section_of \<Rightarrow> int" where
  "written_priority sec = (if ValueOf sec ''priority'' = [] then 0 else case parse_int (ValueOf sec ''priority'') of None \<Rightarrow> 0 | Some p \<Rightarrow> p)"

lemma schema_at_priority: "schema_at compile newRet parseRet i sec = Some s \<Longrightarrow> Priority s = schema_priority (written_priority sec) i"
  by (auto simp: schema_at_def written_priority_def split: if_splits sum.splits option.splits)

lemma schema_loop_set:
  "schema_loop compile newRet parseRet i secs acc = Inr ss \<Longrightarrow>
     set ss = set acc \<union> {s. \<exists>k < length secs. schema_at compile newRet parseRet (i + k) (secs ! k) = Some s}"
proof (induction secs arbitrary: i acc)
  case (Cons sec secs)
  have ih: "set ss = set acc' \<union> {s. \<exists>k < length secs. schema_at compile newRet parseRet (Suc i + k) (secs ! k) = Some s}
      \<Longrightarrow> set acc' = set acc \<union> {s. schema_at compile newRet parseRet i sec = Some s} \<Longrightarrow>
      set ss = set acc \<union> {s. \<exists>k < length (sec # secs). schema_at compile newRet parseRet (i + k) ((sec # secs) ! k) = Some s}" for acc'
    by (auto simp: less_Suc_eq_0_disj)
  show ?case
  proof (cases "skipped_section sec")
    case True
    then show ?thesis using Cons.IH [of "Suc i" acc] Cons.prems by (intro ih [of acc]) (auto simp: schema_at_def)
  next
    case False
    with Cons.prems obtain pat rets p where a: "ValueOf sec ''pattern'' \<noteq> []" "compile (ValueOf sec ''pattern'') = Inr pat"
      "ParseRetentionDefs newRet parseRet (ValueOf sec ''retentions'') = Inr rets"
      "(if ValueOf sec ''priority'' = [] then Some 0 else parse_int (ValueOf sec ''priority'')) = Some p"
      by (auto split: sum.splits option.splits if_splits)
    define acc' where "acc' = acc @ [\<lparr>SName = section_name sec, Pattern = pat, RetentionStr = ValueOf sec ''retentions'', Retentions = rets, Priority = schema_priority p i\<rparr>]"
    have "schema_loop compile newRet parseRet (Suc i) secs acc' = Inr ss" using Cons.prems False a by (simp add: acc'_def)
    then have "set ss = set acc' \<union> {s. \<exists>k < length secs. schema_at compile newRet parseRet (Suc i + k) (secs ! k) = Some s}" by (rule Cons.IH)
    moreover have "schema_at compile newRet parseRet i sec = Some \<lparr>SName = section_name sec, Pattern = pat, RetentionStr = ValueOf sec ''retentions'', Retentions = rets, Priority = schema_priority p i\<rparr>"
      unfolding schema_at_def a using False by simp
    ultimately show ?thesis by (intro ih [of acc']) (auto simp: acc'_def)
  qed
qed simp

lemma schema_Match_Some:
  "schema_Match matches ss m = Some s \<Longrightarrow> sorted_wrt (\<lambda>a b. Priority b \<le> Priority a) ss \<Longrightarrow>
     s \<in> set ss \<and> matches (Pattern s) m \<and> (\<forall>s' \<in> set ss. matches (Pattern s') m \<longrightarrow> Priority s' \<le> Priority s)"
  by (induction ss) (auto split: if_splits)

lemma schema_Match_None: "schema_Match matches ss m = None \<longleftrightarrow> (\<forall>s \<in> set ss. \<not> matches (Pattern s) m)"
  by (induction ss) auto

lemma ReadWhisperSchemas_set:
  assumes "ReadWhisperSchemas compile newRet parseRet (Inr secs) = Inr ss"
  shows "set ss = {s. \<exists>k < length secs. schema_at compile newRet parseRet k (secs ! k) = Some s}"
    "sorted_wrt (\<lambda>a b. Priority b \<le> Priority a) ss"
proof -
  obtain l where l: "schema_loop compile newRet parseRet 0 secs [] = Inr l" "ss = sort_key (\<lambda>s. - Priority s) l"
    using assms by (auto simp: ReadWhisperSchemas_def split: sum.splits)
  show "set ss = {s. \<exists>k < length secs. schema_at compile newRet parseRet k (secs ! k) = Some s}"
    using schema_loop_set [OF l(1)] by (simp add: l(2))
  show "sorted_wrt (\<lambda>a b. Priority b \<le> Priority a) ss"
    using sorted_sort_key [of "\<lambda>s. - Priority s" l] by (simp add: l(2) sorted_wrt_map)
qed

lemma priority_order:
  assumes "schema_priority (written_priority a) j \<le> schema_priority (written_priority b) i" "int i < 2 ^ 32" "int j < 2 ^ 32"
    "\<bar>written_priority a\<bar> < 2 ^ 31" "\<bar>written_priority b\<bar> < 2 ^ 31"
  shows "written_priority a < written_priority b \<or> written_priority a = written_priority b \<and> i \<le> j"
  using schema_priority_less [of "written_priority a" "written_priority b" j i] assms by (auto simp: abs_less_iff)

section \<open>Properties\<close>

text \<open>C37. The schema of a metric is that of the matching section with the highest priority and, among equals, the first in the file;
  there is none only when no section matches. (Priorities below \<open>2^31\<close> in absolute value; beyond that the shift wraps.)\<close>

theorem schema_match_best:
  assumes "ReadWhisperSchemas compile newRet parseRet (Inr secs) = Inr ss" "int (length secs) < 2 ^ 32"
    "\<forall>sec \<in> set secs. \<bar>written_priority sec\<bar> < 2 ^ 31"
  shows "case schema_Match matches ss m of
      None \<Rightarrow> (\<forall>k s. k < length secs \<longrightarrow> schema_at compile newRet parseRet k (secs ! k) = Some s \<longrightarrow> \<not> matches (Pattern s) m)
    | Some s \<Rightarrow> matches (Pattern s) m \<and> (\<exists>i < length secs. schema_at compile newRet parseRet i (secs ! i) = Some s
        \<and> (\<forall>j s'. j < length secs \<longrightarrow> schema_at compile newRet parseRet j (secs ! j) = Some s' \<longrightarrow> matches (Pattern s') m \<longrightarrow>
             written_priority (secs ! j) < written_priority (secs ! i) \<or> written_priority (secs ! j) = written_priority (secs ! i) \<and> i \<le> j))"
proof (cases "schema_Match matches ss m")
  case None
  then have "\<forall>s \<in> set ss. \<not> matches (Pattern s) m" by (simp only: schema_Match_None)
  then show ?thesis unfolding None using ReadWhisperSchemas_set(1) [OF assms(1)] by auto
next
  case (Some s)
  note r = ReadWhisperSchemas_set [OF assms(1)] and b = schema_Match_Some [OF Some]
  have s: "s \<in> set ss" "matches (Pattern s) m" "\<And>s'. s' \<in> set ss \<Longrightarrow> matches (Pattern s') m \<Longrightarrow> Priority s' \<le> Priority s"
    using b r(2) by blast+
  obtain i where i: "i < length secs" "schema_at compile newRet parseRet i (secs ! i) = Some s" using s(1) r(1) by blast
  have "written_priority (secs ! j) < written_priority (secs ! i) \<or> written_priority (secs ! j) = written_priority (secs ! i) \<and> i \<le> j"
    if "j < length secs" "schema_at compile newRet parseRet j (secs ! j) = Some s'" "matches (Pattern s') m" for j s'
  proof (rule priority_order)
    have "s' \<in> set ss" using that r(1) by blast
    then show "schema_priority (written_priority (secs ! j)) j \<le> schema_priority (written_priority (secs ! i)) i"
      using s(3) [of s'] that(3) schema_at_priority [OF that(2)] schema_at_priority [OF i(2)] by simp
  qed (use assms(2,3) i(1) that(1) in auto)
  then show ?thesis using Some s(2) i by auto
qed

definition sample_sections :: "section_of list" where
  "sample_sections = [\<lparr>sec_String = ''[low]'', ValueOf = (\<lambda>k. if k = ''pattern'' then ''a'' else if k = ''retentions'' then ''60:10'' else [])\<rparr>,
     \<lparr>sec_String = ''[high]'', ValueOf = (\<lambda>k. if k = ''pattern'' then ''b'' else if k = ''retentions'' then ''60:10'' else if k = ''priority'' then ''7'' else [])\<rparr>]"

definition sample_read :: "(unit schema_error, (string, int \<times> int) Schema list) result" where
  "sample_read = ReadWhisperSchemas (Inr :: string \<Rightarrow> (unit, string) result) Pair (\<lambda>_. Inl ()) (Inr sample_sections)"

definition sample_schemas :: "(string, int \<times> int) Schema list" where
  "sample_schemas = (case sample_read of Inr ss \<Rightarrow> ss | Inl _ \<Rightarrow> [])"

lemma sample_read_eval: "sample_read = Inr sample_schemas" "map SName sample_schemas = [''high'', ''low'']"
  by code_simp+

theorem schema_match_best_witness:
  "map SName sample_schemas = [''high'', ''low''] \<and>
   (case schema_Match (\<lambda>_ _. True) sample_schemas ''m'' of None \<Rightarrow> False
    | Some s \<Rightarrow> (\<exists>i < 2. schema_at (Inr :: string \<Rightarrow> (unit, string) result) Pair (\<lambda>_. Inl ()) i (sample_sections ! i) = Some s
        \<and> (\<forall>j s'. j < 2 \<longrightarrow> schema_at (Inr :: string \<Rightarrow> (unit, string) result) Pair (\<lambda>_. Inl ()) j (sample_sections ! j) = Some s' \<longrightarrow>
             written_priority (sample_sections ! j) < written_priority (sample_sections ! i)
             \<or> written_priority (sample_sections ! j) = written_priority (sample_sections ! i) \<and> i \<le> j)))"
proof -
  note ss = sample_read_eval
  obtain a as where a: "sample_schemas = a # as" using ss(2) by (cases sample_schemas) simp_all
  have r: "ReadWhisperSchemas (Inr :: string \<Rightarrow> (unit, string) result) Pair (\<lambda>_. Inl ()) (Inr sample_sections) = Inr sample_schemas"
    using ss(1) by (simp only: sample_read_def)
  have l: "length sample_sections = 2" by (simp add: sample_sections_def)
  have "parse_int ''7'' = Some 7" by code_simp
  then have p: "\<forall>sec \<in> set sample_sections. \<bar>written_priority sec\<bar> < 2 ^ 31" by (simp add: sample_sections_def written_priority_def)
  show ?thesis using schema_match_best [OF r _ p, of "\<lambda>_ _. True" "''m''"] ss(2) unfolding l by (simp add: a)
qed

text \<open>A priority of \<open>2^31\<close> wraps around: its section is sorted behind one with priority zero.\<close>

theorem priority_wraps: "schema_priority (2 ^ 31) 0 < schema_priority 0 1"
  by (simp add: schema_priority_def wrap64_def)

text \<open>The aggregation rule of a metric is the first matching section, in the order of the file, and the default when none matches;
  every rule that was read has a pattern, so the search never fails.\<close>

theorem aggregation_first_match:
  assumes "ReadWhisperAggregation compile config = Inr a"
  shows "\<exists>item. aggregation_match matches a m = Some item
    \<and> (case List.find (\<lambda>i. matches (the (apattern i)) m) (AData a) of None \<Rightarrow> item = ADefault NewWhisperAggregation | Some i \<Rightarrow> item = i)"
proof -
  have loop: "aggregation_loop compile secs b = Inr a \<Longrightarrow> list_all (\<lambda>i. apattern i \<noteq> None) (AData b) \<Longrightarrow>
      list_all (\<lambda>i. apattern i \<noteq> None) (AData a) \<and> ADefault a = ADefault b" for secs b
  proof (induction secs arbitrary: b)
    case (Cons sec secs)
    then show ?case by (auto split: if_splits sum.splits option.splits)
  qed simp
  obtain secs where "aggregation_loop compile secs NewWhisperAggregation = Inr a"
    using assms by (auto simp: ReadWhisperAggregation_def split: sum.splits)
  from loop [OF this] have a: "list_all (\<lambda>i. apattern i \<noteq> None) (AData a)" "ADefault a = ADefault NewWhisperAggregation"
    by (simp_all add: NewWhisperAggregation_def)
  have "\<exists>item. aggregation_match_loop matches is d m = Some item
      \<and> (case List.find (\<lambda>i. matches (the (apattern i)) m) is of None \<Rightarrow> item = d | Some i \<Rightarrow> item = i)"
    if "list_all (\<lambda>i. apattern i \<noteq> None) is" for "is" d
    using that by (induction "is") auto
  from this [OF a(1), of "ADefault NewWhisperAggregation"] show ?thesis by (simp add: aggregation_match_def a(2))
qed

theorem aggregation_first_match_witness:
  "\<exists>item. aggregation_match (\<lambda>_ _. True) (NewWhisperAggregation :: string WhisperAggregation) ''m'' = Some item
    \<and> (case List.find (\<lambda>i. True) (AData (NewWhisperAggregation :: string WhisperAggregation)) of None \<Rightarrow> item = ADefault NewWhisperAggregation | Some i \<Rightarrow> item = i)"
  using aggregation_first_match [of "Inr :: string \<Rightarrow> (unit, string) result" "Inr []" NewWhisperAggregation "\<lambda>_ _. True" "''m''"]
  by (simp add: ReadWhisperAggregation_def)

end
