(* ===== verification/Whisper_Model.thy ===== *)
theory Whisper_Model
  imports Schemas Points_Model Counters
begin

unbundle bit_operations_syntax

text \<open>
  The persister, \<open>src/persister/whisper.go\<close>: storing one message in its whisper file, the workers and the
  shuffler that distributes messages among them, the throttling of the input, and the statistics. The
  whisper library and the file system are outside: what their calls return is an argument (\<open>store_env\<close>), and
  what \<open>store\<close> asks of them is recorded as a list of actions.
\<close>

section \<open>Paths\<close>

text \<open>\<open>filepath.Clean\<close> on components: empty ones and dots go, \<open>..\<close> removes its predecessor, and is dropped at the root.\<close>

fun clean_step :: "bool \<Rightarrow> string list \<Rightarrow> string \<Rightarrow> string list" where
  "clean_step rooted acc c =
     (if c = [] \<or> c = ''.'' then acc
      else if c = ''..''
      then (if acc \<noteq> [] \<and> last acc \<noteq> ''..'' then butlast acc else if rooted then acc else acc @ [c])
      else acc @ [c])"

definition clean_comps :: "bool \<Rightarrow> string list \<Rightarrow> string list" where
  "clean_comps rooted cs = foldl (clean_step rooted) [] cs"

fun join_slash :: "string list \<Rightarrow> string" where
  "join_slash [] = []"
| "join_slash [c] = c"
| "join_slash (c # cs) = c @ CHR ''/'' # join_slash cs"

definition is_rooted :: "string \<Rightarrow> bool" where
  "is_rooted s \<longleftrightarrow> s \<noteq> [] \<and> hd s = CHR ''/''"

definition render_path :: "bool \<Rightarrow> string list \<Rightarrow> string" where
  "render_path rooted cs = (if rooted then CHR ''/'' # join_slash cs else if cs = [] then ''.'' else join_slash cs)"

definition Clean :: "string \<Rightarrow> string" where
  "Clean s = render_path (is_rooted s) (clean_comps (is_rooted s) (split_on CHR ''/'' s))"

text \<open>\<open>filepath.Join\<close> of two elements of which the second is not empty, and \<open>filepath.Dir\<close>.\<close>

definition Join :: "string \<Rightarrow> string \<Rightarrow> string" where
  "Join a b = (if a = [] then Clean b else Clean (a @ CHR ''/'' # b))"

definition Dir :: "string \<Rightarrow> string" where
  "Dir s = Clean (rev (dropWhile (\<lambda>c. c \<noteq> CHR ''/'') (rev s)))"

definition wsp_rel :: "string \<Rightarrow> string" where
  "wsp_rel metric = replace_char CHR ''.'' CHR ''/'' metric @ ''.wsp''"

definition wsp_path :: "string \<Rightarrow> string \<Rightarrow> string" where
  "wsp_path rootPath metric = Join rootPath (wsp_rel metric)"

section \<open>Store\<close>

record ('r, 't) Whisper =
  updateOperations :: uint32
  committedPoints :: uint32
  has_confirm :: bool
  schemas :: "('r, 't) Schema list"
  aggregation :: "'r WhisperAggregation"
  workersCount :: int
  rootPath :: string
  created :: uint32
  sparse :: bool
  maxUpdatesPerSecond :: int

definition NewWhisper :: "string \<Rightarrow> ('r, 't) Schema list \<Rightarrow> 'r WhisperAggregation \<Rightarrow> bool \<Rightarrow> ('r, 't) Whisper" where
  "NewWhisper path0 ss a conf = \<lparr>updateOperations = 0, committedPoints = 0, has_confirm = conf, schemas = ss, aggregation = a,
     workersCount = 1, rootPath = path0, created = 0, sparse = False, maxUpdatesPerSecond = 0\<rparr>"

definition SetMaxUpdatesPerSecond :: "int \<Rightarrow> ('r, 't) Whisper \<Rightarrow> ('r, 't) Whisper" where
  "SetMaxUpdatesPerSecond n p = p\<lparr>maxUpdatesPerSecond := n\<rparr>"

definition SetWorkers :: "int \<Rightarrow> ('r, 't) Whisper \<Rightarrow> ('r, 't) Whisper" where
  "SetWorkers n p = p\<lparr>workersCount := n\<rparr>"

definition SetSparse :: "bool \<Rightarrow> ('r, 't) Whisper \<Rightarrow> ('r, 't) Whisper" where
  "SetSparse b p = p\<lparr>sparse := b\<rparr>"

datatype open_result = Opened | NotExist | OpenFailed

record store_env =
  open_res :: open_result
  mkdir_ok :: bool
  create_ok :: bool

text \<open>
  \<open>UpdateMany\<close> may panic, which \<open>store\<close> recovers from; the file is closed afterwards in any case. The factor
  of \<open>CreateFile\<close> is the one of the rule: the call narrows it to a \<open>float32\<close>.
\<close>

datatype 't action =
    MkdirAll string
  | CreateFile string "'t list" AggregationMethod float64 bool
  | UpdateMany string "(int \<times> float64) list"
  | CloseFile string
  | Confirmed addr

definition confirm_action :: "('r, 't) Whisper \<Rightarrow> addr \<Rightarrow> 't action list" where
  "confirm_action p v = (if has_confirm p then [Confirmed v] else [])"

definition update_file :: "('r, 't) Whisper \<Rightarrow> string \<Rightarrow> Point list \<Rightarrow> ('r, 't) Whisper \<times> 't action list" where
  "update_file p path ds =
     (p\<lparr>committedPoints := committedPoints p + word_of_nat (length ds), updateOperations := updateOperations p + 1\<rparr>,
      [UpdateMany path (map (\<lambda>d. (Timestamp d, Value d)) ds), CloseFile path])"

definition whisper_store ::
  "('r \<Rightarrow> string \<Rightarrow> bool) \<Rightarrow> store_env \<Rightarrow> (addr \<Rightarrow> Points) \<Rightarrow> addr \<Rightarrow> ('r, 't) Whisper \<Rightarrow> ('r, 't) Whisper \<times> 't action list" where
  "whisper_store matches env mem v p =
     (let values = mem v; path = wsp_path (rootPath p) (Metric values);
          (p', acts) =
            (case open_res env of
               Opened \<Rightarrow> update_file p path (points_of values)
             | OpenFailed \<Rightarrow> (p, [])
             | NotExist \<Rightarrow>
                 (case schema_Match matches (schemas p) (Metric values) of
                    None \<Rightarrow> (p, [])
                  | Some schema \<Rightarrow>
                      (case aggregation_match matches (aggregation p) (Metric values) of
                         None \<Rightarrow> (p, [])
                       | Some aggr \<Rightarrow>
                           if \<not> mkdir_ok env then (p, [MkdirAll (Dir path)])
                           else let create = CreateFile path (Retentions schema) (aggregationMethod aggr) (xFilesFactor aggr) (sparse p)
                                in if \<not> create_ok env then (p, [MkdirAll (Dir path), create])
                                   else (let (p1, acts1) = update_file (p\<lparr>created := created p + 1\<rparr>) path (points_of values)
                                         in (p1, MkdirAll (Dir path) # create # acts1)))))
      in (p', acts @ confirm_action p v))"

text \<open>The worker stores what it receives until it is told to exit or its channel is closed.\<close>

datatype worker_event = WRecv addr store_env | WClosed | WExit

fun whisper_worker ::
  "('r \<Rightarrow> string \<Rightarrow> bool) \<Rightarrow> (addr \<Rightarrow> Points) \<Rightarrow> worker_event list \<Rightarrow> ('r, 't) Whisper \<Rightarrow> ('r, 't) Whisper \<times> 't action list" where
  "whisper_worker matches mem (WRecv v env # es) p =
     (let (p1, a1) = whisper_store matches env mem v p; (p2, a2) = whisper_worker matches mem es p1 in (p2, a1 @ a2))"
| "whisper_worker matches mem (WClosed # es) p = (p, [])"
| "whisper_worker matches mem (WExit # es) p = (p, [])"
| "whisper_worker matches mem [] p = (p, [])"

section \<open>Shuffler\<close>

text \<open>\<open>crc32.ChecksumIEEE\<close>, bit by bit.\<close>

fun crc_bits :: "nat \<Rightarrow> uint32 \<Rightarrow> uint32" where
  "crc_bits 0 c = c"
| "crc_bits (Suc n) c = crc_bits n (if c AND 1 = 1 then drop_bit 1 c XOR 0xEDB88320 else drop_bit 1 c)"

definition ChecksumIEEE :: "bytes \<Rightarrow> uint32" where
  "ChecksumIEEE bs = NOT (foldl (\<lambda>c b. crc_bits 8 (c XOR word_of_nat (of_char b))) 0xFFFFFFFF bs)"

definition shuffle_index :: "nat \<Rightarrow> string \<Rightarrow> nat" where
  "shuffle_index workers metric = unat (ChecksumIEEE metric) mod workers"

text \<open>
  The channels of the workers, and whether they have been closed; \<open>SRecv\<close> carries a message. There is at least
  one worker: \<open>Start\<close> uses the shuffler for two or more.
\<close>

datatype shuffle_event = SRecv addr | SClosed | SExit

fun shuffler :: "(addr \<Rightarrow> Points) \<Rightarrow> shuffle_event list \<Rightarrow> addr list list \<Rightarrow> addr list list \<times> bool" where
  "shuffler mem (SRecv v # es) out =
     (let i = shuffle_index (length out) (Metric (mem v)) in shuffler mem es (out[i := out ! i @ [v]]))"
| "shuffler mem (SClosed # es) out = (out, True)"
| "shuffler mem (SExit # es) out = (out, True)"
| "shuffler mem [] out = (out, False)"

section \<open>Statistics\<close>

definition Whisper_Stat :: "uint32 \<Rightarrow> uint32 \<Rightarrow> uint32 \<Rightarrow> ('r, 't) Whisper \<Rightarrow> ('r, 't) Whisper \<times> sent list" where
  "Whisper_Stat du dc dcr p =
     (let u = updateOperations p; c = committedPoints p; cr = created p
      in (p\<lparr>updateOperations := updateOperations p + du + (- u), committedPoints := committedPoints p + dc + (- c),
            created := created p + dcr + (- cr)\<rparr>,
          [(''updateOperations'', float64_of_nat (unat u)), (''committedPoints'', float64_of_nat (unat c)),
           (''pointsPerUpdate'', if u > 0 then float64_quot (unat c) (unat u) else 0),
           (''created'', float64_of_nat (unat cr))]))"

section \<open>Throttling\<close>

text \<open>The delimiter with the smallest remainder, the first one if several have it.\<close>

fun delimiter_loop :: "nat \<Rightarrow> nat list \<Rightarrow> nat \<Rightarrow> nat \<Rightarrow> nat" where
  "delimiter_loop rate [] delim minRem = delim"
| "delimiter_loop rate (i # is) delim minRem =
     (if rate mod i < minRem then delimiter_loop rate is i (rate mod i) else delimiter_loop rate is delim minRem)"

definition throttle_params :: "nat \<Rightarrow> nat \<times> nat \<times> nat" where
  "throttle_params rate =
     (let delim = (if rate > 1000 then delimiter_loop rate [100..<1000] rate rate else rate);
          chunk = (if rate > 1000 then rate div delim else 1)
      in (delim, chunk, 1000000000 div delim))"

text \<open>
  \<open>throttleWorker\<close>: after a tick up to \<open>chunk\<close> messages pass, one by one; \<open>left\<close> is how many the current tick still
  allows. Events that the code does not wait for there end the trace (None). The flag is whether \<open>out\<close> is closed.
\<close>

datatype throttle_event = TTick | TMsg addr | TClosed | TExit

fun throttle :: "nat \<Rightarrow> nat \<Rightarrow> throttle_event list \<Rightarrow> addr list \<Rightarrow> (addr list \<times> bool) option" where
  "throttle chunk left [] out = Some (out, False)"
| "throttle chunk left (TExit # es) out = Some (out, True)"
| "throttle chunk 0 (TTick # es) out = throttle chunk chunk es out"
| "throttle chunk 0 (e # es) out = None"
| "throttle chunk (Suc n) (TMsg v # es) out = throttle chunk n es (out @ [v])"
| "throttle chunk (Suc n) (TClosed # es) out = Some (out, True)"
| "throttle chunk (Suc n) (TTick # es) out = None"

section \<open>Start\<close>

text \<open>The goroutines \<open>Start\<close> launches: who reads the input (directly, or through the throttle), and whether \<open>exit\<close> stops the reader.\<close>

datatype reader = SoloWorker | ShuffledWorkers nat

record start_plan =
  throttled :: "(nat \<times> nat \<times> nat) option"
  reader_exits :: bool
  plan_reader :: reader

definition Whisper_Start :: "('r, 't) Whisper \<Rightarrow> start_plan" where
  "Whisper_Start p =
     \<lparr>throttled = (if maxUpdatesPerSecond p > 0 then Some (throttle_params (nat (maxUpdatesPerSecond p))) else None),
      reader_exits = \<not> maxUpdatesPerSecond p > 0,
      plan_reader = (if workersCount p \<le> 1 then SoloWorker else ShuffledWorkers (nat (workersCount p)))\<rparr>"

end
