(* ===== verification/Whisper_Props.thy ===== *)
theory Whisper_Props
  imports Whisper_Model
begin

unbundle bit_operations_syntax

text \<open>
  What the persister guarantees: every message is confirmed once, after its points have been handed to the file;
  no metric name leads out of the root directory, and different well-formed names have different files; the
  shuffler keeps the order of each metric; the throttle keeps the order and the rate.
\<close>

section \<open>Components of a path\<close>

definition plain_comp :: "string \<Rightarrow> bool" where
  "plain_comp c \<longleftrightarrow> c \<noteq> [] \<and> c \<noteq> ''.'' \<and> c \<noteq> ''..'' \<and> CHR ''/'' \<notin> set c"

lemma foldl_clean_append: "clean_comps r (xs @ ys) = foldl (clean_step r) (clean_comps r xs) ys"
  by (simp add: clean_comps_def)

text \<open>Components that are neither dot nor dot-dot are only added.\<close>

lemma foldl_clean_no_dots:
  "list_all (\<lambda>c. c \<noteq> ''.'' \<and> c \<noteq> ''..'') cs \<Longrightarrow> foldl (clean_step r) acc cs = acc @ filter (\<lambda>c. c \<noteq> []) cs"
  by (induction cs arbitrary: acc) auto

lemma split_on_append: 
  "split_on c (a @ c # b) = split_on c a @ split_on c b"
proof (induction a)
  case (Cons x a)
  then show ?case by (cases "split_on c a") auto
qed simp

text \<open>The parts of a string whose other separators have been replaced.\<close>

lemma split_on_suffix:
  "c \<notin> set t \<Longrightarrow> split_on c (s @ t) = butlast (split_on c s) @ [last (split_on c s) @ t]"
proof (induction s)
  case Nil
  then show ?case by (simp add: split_on_no_sep)
next
  case (Cons x s)
  then show ?case by (cases "split_on c s") auto
qed

lemma replace_char_gone: "old \<noteq> new \<Longrightarrow> old \<notin> set (replace_char old new s)"
  by (auto simp: replace_char_def)

definition rel_comps :: "string \<Rightarrow> string list" where
  "rel_comps metric = filter (\<lambda>c. c \<noteq> []) (split_on CHR ''/'' (wsp_rel metric))"

lemma split_wsp_rel:
  "split_on CHR ''/'' (wsp_rel metric) =
     (let ps = split_on CHR ''/'' (replace_char CHR ''.'' CHR ''/'' metric) in butlast ps @ [last ps @ ''.wsp''])"
  by (simp add: wsp_rel_def Let_def split_on_suffix)

lemma rel_part:
  assumes "w \<in> set (split_on CHR ''/'' (replace_char CHR ''.'' CHR ''/'' metric))"
  shows "CHR ''.'' \<notin> set w \<and> CHR ''/'' \<notin> set w"
  using split_on_chars [OF assms] split_on_words [OF assms] replace_char_gone [of "CHR ''.''" "CHR ''/''" metric] by auto

lemma wsp_rel_no_dots:
  assumes "c \<in> set (split_on CHR ''/'' (wsp_rel metric))"
  shows "c \<noteq> ''.'' \<and> c \<noteq> ''..'' \<and> CHR ''/'' \<notin> set c"
proof -
  let ?ps = "split_on CHR ''/'' (replace_char CHR ''.'' CHR ''/'' metric)"
  from assms consider "c \<in> set ?ps" | "c = last ?ps @ ''.wsp''"
    unfolding split_wsp_rel Let_def by (auto dest: in_set_butlastD)
  then show ?thesis
  proof cases
    case 1
    with rel_part [OF 1] show ?thesis by auto
  next
    case 2
    have "last ?ps \<in> set ?ps" by simp
    from rel_part [OF this] 2 show ?thesis by (auto simp: Cons_eq_append_conv append_eq_Cons_conv)
  qed
qed

lemma rel_comps_plain: "c \<in> set (rel_comps metric) \<Longrightarrow> plain_comp c"
  by (auto simp: rel_comps_def plain_comp_def dest: wsp_rel_no_dots)

lemma rel_comps_not_Nil: "rel_comps metric \<noteq> []"
  by (simp add: rel_comps_def split_wsp_rel Let_def)

definition root_comps :: "string \<Rightarrow> string list" where
  "root_comps rp = clean_comps (is_rooted rp) (split_on CHR ''/'' rp)"

text \<open>The path of a metric is the cleaned root directory with the parts of the name below it.\<close>

lemma wsp_path_comps:
  assumes "rp \<noteq> []"
  shows "wsp_path rp metric = render_path (is_rooted rp) (root_comps rp @ rel_comps metric)"
proof -
  have r: "is_rooted (rp @ CHR ''/'' # wsp_rel metric) = is_rooted rp"
    using assms by (simp add: is_rooted_def)
  have "list_all (\<lambda>c. c \<noteq> ''.'' \<and> c \<noteq> ''..'') (split_on CHR ''/'' (wsp_rel metric))"
    unfolding list_all_iff using wsp_rel_no_dots by blast
  then have "clean_comps (is_rooted rp) (split_on CHR ''/'' (rp @ CHR ''/'' # wsp_rel metric)) = root_comps rp @ rel_comps metric"
    unfolding split_on_append foldl_clean_append root_comps_def rel_comps_def by (rule foldl_clean_no_dots)
  then show ?thesis using assms unfolding wsp_path_def Join_def Clean_def r by simp
qed

text \<open>Well-formed metric names: parts between dots, none empty, without a slash.\<close>

definition wf_metric :: "string \<Rightarrow> bool" where
  "wf_metric m \<longleftrightarrow> list_all (\<lambda>c. c \<noteq> [] \<and> CHR ''/'' \<notin> set c) (split_on CHR ''.'' m)"

lemma split_replace:
  "new \<notin> set s \<Longrightarrow> split_on new (replace_char old new s) = split_on old s"
proof (induction s)
  case (Cons x s)
  then show ?case by (cases "split_on old s") (auto simp: replace_char_def)
qed (simp add: replace_char_def)

lemma join_slash_split: "join_slash (split_on CHR ''/'' s) = s"
proof (induction s)
  case (Cons x s)
  show ?case
  proof (cases "split_on CHR ''/'' s")
    case (Cons w ws)
    with \<open>join_slash (split_on CHR ''/'' s) = s\<close> show ?thesis by (cases ws) auto
  qed simp
qed simp

lemma join_slash_inj:
  "join_slash xs = join_slash ys \<Longrightarrow> xs \<noteq> [] \<Longrightarrow> ys \<noteq> [] \<Longrightarrow> \<forall>c \<in> set xs. CHR ''/'' \<notin> set c \<Longrightarrow>
   \<forall>c \<in> set ys. CHR ''/'' \<notin> set c \<Longrightarrow> xs = ys"
proof -
  have split: "split_on CHR ''/'' (join_slash zs) = zs" if "zs \<noteq> []" "\<forall>c \<in> set zs. CHR ''/'' \<notin> set c" for zs
    using that by (induction zs rule: join_slash.induct) (auto simp: split_on_no_sep split_on_append_sep)
  assume "join_slash xs = join_slash ys" "xs \<noteq> []" "ys \<noteq> []"
    "\<forall>c \<in> set xs. CHR ''/'' \<notin> set c" "\<forall>c \<in> set ys. CHR ''/'' \<notin> set c"
  then show "xs = ys" using split [of xs] split [of ys] by metis
qed

lemma wf_metric_no_slash: "wf_metric m \<Longrightarrow> CHR ''/'' \<notin> set m"
proof
  assume wf: "wf_metric m" and "CHR ''/'' \<in> set m"
  have "set m \<subseteq> insert CHR ''.'' (\<Union> (set ` set (split_on CHR ''.'' m)))"
    by (subst (1) split_on_join [of m "CHR ''.''"]) (auto dest: in_set_butlastD intro!: bexI [of _ "last (split_on CHR ''.'' m)"])
  with \<open>CHR ''/'' \<in> set m\<close> wf show False unfolding wf_metric_def list_all_iff by auto
qed

lemma rel_comps_wf:
  assumes "wf_metric m"
  shows "rel_comps m = butlast (split_on CHR ''.'' m) @ [last (split_on CHR ''.'' m) @ ''.wsp'']"
proof -
  have "\<forall>c \<in> set (butlast (split_on CHR ''.'' m)). c \<noteq> []"
    using assms unfolding wf_metric_def list_all_iff by (auto dest: in_set_butlastD)
  with wf_metric_no_slash [OF assms] show ?thesis
    by (simp add: rel_comps_def split_wsp_rel Let_def split_replace)
qed

lemma split_on_inj:
  assumes "split_on c s = split_on c t" shows "s = t"
  using split_on_join [of s c] split_on_join [of t c] unfolding assms by simp

lemma rel_comps_inj:
  assumes "wf_metric m" "wf_metric m'" "rel_comps m = rel_comps m'" shows "m = m'"
proof -
  let ?s = "split_on CHR ''.''"
  from assms have "butlast (?s m) = butlast (?s m') \<and> last (?s m) = last (?s m')"
    by (simp add: rel_comps_wf)
  then have "?s m = ?s m'" by (metis append_butlast_last_id split_on_not_Nil)
  then show ?thesis by (rule split_on_inj)
qed

lemma clean_comps_no_slash:
  assumes "\<forall>c \<in> set cs. CHR ''/'' \<notin> set c" shows "\<forall>c \<in> set (clean_comps r cs). CHR ''/'' \<notin> set c"
proof -
  have "\<forall>c \<in> set (foldl (clean_step r) acc cs). CHR ''/'' \<notin> set c" if "\<forall>c \<in> set acc. CHR ''/'' \<notin> set c" for acc
    using assms that
  proof (induction cs arbitrary: acc)
    case (Cons c cs)
    then have "\<forall>d \<in> set (clean_step r acc c). CHR ''/'' \<notin> set d" by (auto dest: in_set_butlastD)
    with Cons show ?case by simp
  qed simp
  from this [of "[]"] show ?thesis by (simp add: clean_comps_def)
qed

lemma render_path_inj:
  assumes "render_path r xs = render_path r ys" "xs \<noteq> []" "ys \<noteq> []"
    "\<forall>c \<in> set xs. CHR ''/'' \<notin> set c" "\<forall>c \<in> set ys. CHR ''/'' \<notin> set c"
  shows "xs = ys"
  using assms join_slash_inj [of xs ys] by (auto simp: render_path_def split: if_splits)

lemma path_comps_no_slash: "\<forall>c \<in> set (root_comps rp @ rel_comps m). CHR ''/'' \<notin> set c"
  using clean_comps_no_slash [of "split_on CHR ''/'' rp" "is_rooted rp"] rel_comps_plain [of _ m]
  unfolding root_comps_def plain_comp_def by (auto dest: split_on_words)

section \<open>Path properties\<close>

text \<open>C35. The file of a metric is below the root directory, whatever bytes the metric name has: the path is the
  cleaned root directory followed by at least one component, and none of those is empty, a dot, a dot-dot or has a slash.\<close>

theorem wsp_path_inside:
  assumes "rp \<noteq> []"
  shows "\<exists>cs. wsp_path rp metric = render_path (is_rooted rp) (clean_comps (is_rooted rp) (split_on CHR ''/'' rp) @ cs)
    \<and> cs \<noteq> [] \<and> list_all (\<lambda>c. c \<noteq> [] \<and> c \<noteq> ''.'' \<and> c \<noteq> ''..'' \<and> CHR ''/'' \<notin> set c) cs"
proof (intro exI conjI)
  show "wsp_path rp metric = render_path (is_rooted rp) (clean_comps (is_rooted rp) (split_on CHR ''/'' rp) @ rel_comps metric)"
    using wsp_path_comps [OF assms] by (simp add: root_comps_def)
  show "rel_comps metric \<noteq> []" by (rule rel_comps_not_Nil)
  show "list_all (\<lambda>c. c \<noteq> [] \<and> c \<noteq> ''.'' \<and> c \<noteq> ''..'' \<and> CHR ''/'' \<notin> set c) (rel_comps metric)"
    using rel_comps_plain unfolding list_all_iff plain_comp_def by blast
qed

theorem wsp_path_inside_witness:
  "\<exists>cs. wsp_path ''/data'' ''a/../../etc'' = render_path (is_rooted ''/data'') (clean_comps (is_rooted ''/data'') (split_on CHR ''/'' ''/data'') @ cs)
    \<and> cs \<noteq> [] \<and> list_all (\<lambda>c. c \<noteq> [] \<and> c \<noteq> ''.'' \<and> c \<noteq> ''..'' \<and> CHR ''/'' \<notin> set c) cs"
  by (rule wsp_path_inside) simp

text \<open>Two well-formed metrics (non-empty parts between dots, no slash) have the same file only if they are the same metric.\<close>

theorem wsp_path_inj:
  assumes "rp \<noteq> []" "wf_metric m" "wf_metric m'"
  shows "wsp_path rp m = wsp_path rp m' \<longleftrightarrow> m = m'"
proof
  assume "wsp_path rp m = wsp_path rp m'"
  then have "render_path (is_rooted rp) (root_comps rp @ rel_comps m) = render_path (is_rooted rp) (root_comps rp @ rel_comps m')"
    by (simp add: wsp_path_comps [OF assms(1)])
  then have "root_comps rp @ rel_comps m = root_comps rp @ rel_comps m'"
    by (rule render_path_inj) (use path_comps_no_slash rel_comps_not_Nil in auto)
  then show "m = m'" using rel_comps_inj [OF assms(2,3)] by simp
qed simp

theorem wsp_path_inj_witness:
  "wf_metric ''a.b'' \<and> wf_metric ''a.c'' \<and> wsp_path ''/data'' ''a.b'' \<noteq> wsp_path ''/data'' ''a.c''
   \<and> wsp_path ''/data'' ''a.b'' = ''/data/a/b.wsp''"
proof -
  have "wf_metric ''a.b''" "wf_metric ''a.c''" by (simp_all add: wf_metric_def)
  moreover from wsp_path_inj [OF _ this, of "''/data''"] have "wsp_path ''/data'' ''a.b'' \<noteq> wsp_path ''/data'' ''a.c''" by simp
  moreover have "wsp_path ''/data'' ''a.b'' = ''/data/a/b.wsp''" by code_simp
  ultimately show ?thesis by simp
qed

section \<open>Storing\<close>

text \<open>What a list of actions writes to files and what it confirms.\<close>

fun updates_of :: "'t action list \<Rightarrow> (string \<times> (int \<times> float64) list) list" where
  "updates_of [] = []"
| "updates_of (UpdateMany path ds # as) = (path, ds) # updates_of as"
| "updates_of (_ # as) = updates_of as"

fun confirms_of :: "'t action list \<Rightarrow> addr list" where
  "confirms_of [] = []"
| "confirms_of (Confirmed v # as) = v # confirms_of as"
| "confirms_of (_ # as) = confirms_of as"

lemma updates_of_append [simp]: "updates_of (as @ bs) = updates_of as @ updates_of bs"
  by (induction as rule: updates_of.induct) auto

lemma confirms_of_append [simp]: "confirms_of (as @ bs) = confirms_of as @ confirms_of bs"
  by (induction as rule: confirms_of.induct) auto

text \<open>The file can be written: it was opened, or it did not exist and could be created by a schema and an aggregation rule.\<close>

definition file_ready :: "('r \<Rightarrow> string \<Rightarrow> bool) \<Rightarrow> ('r, 't) Whisper \<Rightarrow> store_env \<Rightarrow> string \<Rightarrow> bool" where
  "file_ready matches p env metric \<longleftrightarrow> open_res env = Opened \<or>
     (open_res env = NotExist \<and> schema_Match matches (schemas p) metric \<noteq> None
      \<and> aggregation_match matches (aggregation p) metric \<noteq> None \<and> mkdir_ok env \<and> create_ok env)"

definition file_update :: "('r, 't) Whisper \<Rightarrow> Points \<Rightarrow> string \<times> (int \<times> float64) list" where
  "file_update p q = (wsp_path (rootPath p) (Metric q), map (\<lambda>d. (Timestamp d, Value d)) (points_of q))"

definition same_config :: "('r, 't) Whisper \<Rightarrow> ('r, 't) Whisper \<Rightarrow> bool" where
  "same_config p p' \<longleftrightarrow> schemas p' = schemas p \<and> aggregation p' = aggregation p \<and> rootPath p' = rootPath p
     \<and> has_confirm p' = has_confirm p \<and> sparse p' = sparse p"

lemma same_config_refl [simp]: "same_config p p"
  by (simp add: same_config_def)

lemma same_config_trans: "same_config p q \<Longrightarrow> same_config q r \<Longrightarrow> same_config p r"
  by (simp add: same_config_def)

lemma same_config_facts:
  "same_config p p' \<Longrightarrow> file_ready matches p' = file_ready matches p \<and> file_update p' = file_update p \<and> has_confirm p' = has_confirm p"
  by (auto simp: same_config_def file_ready_def file_update_def fun_eq_iff)

lemmas store_unfold = whisper_store_def update_file_def confirm_action_def file_ready_def file_update_def Let_def

lemma store_updates:
  "updates_of (snd (whisper_store matches env mem v p)) =
     (if file_ready matches p env (Metric (mem v)) then [file_update p (mem v)] else [])"
  by (auto simp: store_unfold split: open_result.splits option.splits)

lemma store_confirms:
  "confirms_of (snd (whisper_store matches env mem v p)) = (if has_confirm p then [v] else [])"
  by (auto simp: store_unfold split: open_result.splits option.splits)

lemma store_config: "same_config p (fst (whisper_store matches env mem v p))"
  by (auto simp: store_unfold same_config_def split: open_result.splits option.splits)

lemma store_confirm_last:
  "has_confirm p \<Longrightarrow> snd (whisper_store matches env mem v p) \<noteq> [] \<and> last (snd (whisper_store matches env mem v p)) = Confirmed v"
  by (auto simp: store_unfold split: open_result.splits option.splits)

lemma store_counters:
  "committedPoints (fst (whisper_store matches env mem v p)) =
     committedPoints p + (if file_ready matches p env (Metric (mem v)) then word_of_nat (length (points_of (mem v))) else 0)"
  "updateOperations (fst (whisper_store matches env mem v p)) =
     updateOperations p + (if file_ready matches p env (Metric (mem v)) then 1 else 0)"
  "created (fst (whisper_store matches env mem v p)) =
     created p + (if open_res env = NotExist \<and> file_ready matches p env (Metric (mem v)) then 1 else 0)"
  by (auto simp: store_unfold split: open_result.splits option.splits)

text \<open>C10. Storing a message writes to its file exactly once, with all its points in order, when the file was opened or
  could be created, and otherwise not at all; the counters say so; and in every case, errors included, the message is
  confirmed exactly once and after everything else when there is a confirmation channel.\<close>

theorem store_exact:
  fixes p :: "('r, 't) Whisper"
  assumes "whisper_store matches env mem v p = (p', acts)" and "ready = file_ready matches p env (Metric (mem v))"
  shows "updates_of acts =
      (if ready then [(wsp_path (rootPath p) (Metric (mem v)), map (\<lambda>d. (Timestamp d, Value d)) (points_of (mem v)))] else [])
    \<and> confirms_of acts = (if has_confirm p then [v] else [])
    \<and> (has_confirm p \<longrightarrow> last acts = Confirmed v)
    \<and> committedPoints p' = committedPoints p + (if ready then word_of_nat (length (points_of (mem v))) else 0)
    \<and> updateOperations p' = updateOperations p + (if ready then 1 else 0)
    \<and> created p' = created p + (if open_res env = NotExist \<and> ready then 1 else 0)"
proof -
  from assms(1) have "p' = fst (whisper_store matches env mem v p)" "acts = snd (whisper_store matches env mem v p)" by auto
  then show ?thesis
    by (simp add: store_updates store_confirms store_confirm_last store_counters assms(2) file_update_def)
qed

definition demo_whisper :: "(unit, unit) Whisper" where
  "demo_whisper = NewWhisper ''/data'' [] NewWhisperAggregation True"

definition demo_mem :: "addr \<Rightarrow> Points" where
  "demo_mem v = OnePoint (if v < 2 then ''a.b'' else ''a.c'') 0 (int v)"

definition demo_env :: store_env where
  "demo_env = \<lparr>open_res = Opened, mkdir_ok = True, create_ok = True\<rparr>"

theorem store_exact_witness:
  "updates_of (snd (whisper_store (\<lambda>_ _. True) demo_env demo_mem 1 demo_whisper)) = [(''/data/a/b.wsp'', [(1, 0)])]
   \<and> confirms_of (snd (whisper_store (\<lambda>_ _. True) demo_env demo_mem 1 demo_whisper)) = [1]"
proof -
  have "wsp_path ''/data'' ''a.b'' = ''/data/a/b.wsp''" by code_simp
  with store_exact [of "\<lambda>_ _. True" demo_env demo_mem 1 demo_whisper, OF surjective_pairing refl]
  show ?thesis by (simp add: demo_whisper_def demo_mem_def demo_env_def NewWhisper_def file_ready_def OnePoint_def)
qed

section \<open>Workers\<close>

text \<open>What a worker receives before it stops.\<close>

fun received :: "worker_event list \<Rightarrow> (addr \<times> store_env) list" where
  "received (WRecv v env # es) = (v, env) # received es"
| "received _ = []"

lemma worker_acts:
  "same_config p0 p \<Longrightarrow>
   updates_of (snd (whisper_worker matches mem es p)) =
     map (\<lambda>(v, env). file_update p0 (mem v)) (filter (\<lambda>(v, env). file_ready matches p0 env (Metric (mem v))) (received es))
   \<and> confirms_of (snd (whisper_worker matches mem es p)) = (if has_confirm p0 then map fst (received es) else [])"
proof (induction matches mem es p rule: whisper_worker.induct)
  case (1 matches mem v env es p)
  let ?s = "whisper_store matches env mem v p"
  obtain p1 a1 where s: "?s = (p1, a1)" by fastforce
  have "same_config p0 p1" using same_config_trans [OF 1(2) store_config [of p matches env mem v]] unfolding s by simp
  from 1(1) [OF refl s [symmetric] this] same_config_facts [OF 1(2), of matches]
    store_updates [of matches env mem v p] store_confirms [of matches env mem v p] s
  show ?case by (auto simp: split_beta)
qed auto

section \<open>The shuffler\<close>

lemma shuffler_recv:
  "out \<noteq> [] \<Longrightarrow> shuffler mem (map SRecv vs @ es) out =
     shuffler mem es (map (\<lambda>i. out ! i @ filter (\<lambda>v. shuffle_index (length out) (Metric (mem v)) = i) vs) [0..<length out])"
proof (induction vs arbitrary: out)
  case Nil
  then show ?case by (simp add: map_nth)
next
  case (Cons v vs)
  let ?i = "shuffle_index (length out) (Metric (mem v))"
  have "?i < length out" using Cons.prems by (simp add: shuffle_index_def)
  then have "shuffler mem (map SRecv (v # vs) @ es) out = shuffler mem es
    (map (\<lambda>i. out[?i := out ! ?i @ [v]] ! i @ filter (\<lambda>v. shuffle_index (length out) (Metric (mem v)) = i) vs) [0..<length out])"
    using Cons.prems Cons.IH [of "out[?i := out ! ?i @ [v]]"] by (simp add: Let_def)
  also have "\<dots> = shuffler mem es (map (\<lambda>i. out ! i @ filter (\<lambda>v. shuffle_index (length out) (Metric (mem v)) = i) (v # vs)) [0..<length out])"
    by (intro arg_cong2 [where f = "shuffler mem"] map_cong refl) (auto simp: nth_list_update)
  finally show ?case .
qed

lemma shuffler_split:
  assumes "n > 0" "e = SClosed \<or> e = SExit"
  shows "shuffler mem (map SRecv vs @ [e]) (replicate n []) =
    (map (\<lambda>i. filter (\<lambda>v. shuffle_index n (Metric (mem v)) = i) vs) [0..<n], True)"
  using assms shuffler_recv [of "replicate n []" mem vs "[e]"] by auto

text \<open>With several workers every message goes to exactly one of them, all messages of a metric to the same one and in the order
  they arrived, and each worker confirms exactly the messages it was given in that order: so the messages of one metric
  are stored in the order in which the cache sent them, and none is lost.\<close>

theorem sharded_order:
  assumes "n > 0" "e = SClosed \<or> e = SExit" "has_confirm p"
    and "shuffler mem (map SRecv vs @ [e]) (replicate n []) = (outs, isClosed)"
    and "i < n"
  shows "isClosed \<and> length outs = n
    \<and> confirms_of (snd (whisper_worker matches mem (map (\<lambda>v. WRecv v (env v)) (outs ! i) @ [WClosed]) p)) = outs ! i
    \<and> filter (\<lambda>v. Metric (mem v) = m) (outs ! i) =
        (if i = shuffle_index n m then filter (\<lambda>v. Metric (mem v) = m) vs else [])"
proof -
  have rec: "received (map (\<lambda>v. WRecv v (env v)) ws @ [WClosed]) = map (\<lambda>v. (v, env v)) ws" for ws :: "addr list"
    by (induction ws) auto
  have "outs = map (\<lambda>i. filter (\<lambda>v. shuffle_index n (Metric (mem v)) = i) vs) [0..<n]" "isClosed"
    using assms(4) unfolding shuffler_split [OF assms(1,2)] by auto
  moreover have "filter (\<lambda>v. Metric (mem v) = m) (filter (\<lambda>v. shuffle_index n (Metric (mem v)) = i) vs) =
      (if i = shuffle_index n m then filter (\<lambda>v. Metric (mem v) = m) vs else [])"
    by (auto simp: filter_empty_conv intro!: filter_cong)
  moreover have "map fst (map (\<lambda>v. (v, env v)) ws) = ws" for ws by (simp add: comp_def)
  ultimately show ?thesis
    using worker_acts [OF same_config_refl, of matches mem "map (\<lambda>v. WRecv v (env v)) (outs ! i) @ [WClosed]" p] assms(3,5)
    unfolding rec by simp
qed

theorem sharded_order_witness:
  "case shuffler demo_mem (map SRecv [0, 2, 1] @ [SClosed]) (replicate 2 []) of (outs, isClosed) \<Rightarrow>
     isClosed \<and> filter (\<lambda>v. Metric (demo_mem v) = ''a.b'') (outs ! shuffle_index 2 ''a.b'') = [0, 1]"
proof -
  have "shuffle_index 2 ''a.b'' < 2" by (simp add: shuffle_index_def)
  moreover have "filter (\<lambda>v. Metric (demo_mem v) = ''a.b'') [0, 2, 1] = [0, 1]" by (simp add: demo_mem_def OnePoint_def)
  ultimately show ?thesis
    using sharded_order [of 2 SClosed demo_whisper demo_mem "[0, 2, 1]" _ _ "shuffle_index 2 ''a.b''" "\<lambda>_ _. True" "\<lambda>_. demo_env" "''a.b''"]
    by (auto simp: demo_whisper_def NewWhisper_def split: prod.splits)
qed

section \<open>The throttle\<close>

fun thr_msgs :: "throttle_event list \<Rightarrow> addr list" where
  "thr_msgs [] = []"
| "thr_msgs (TMsg v # es) = v # thr_msgs es"
| "thr_msgs (_ # es) = thr_msgs es"

definition thr_ticks :: "throttle_event list \<Rightarrow> nat" where
  "thr_ticks es = length (filter (\<lambda>e. e = TTick) es)"

lemma throttle_trace:
  "throttle chunk left es out = Some (out', fin) \<Longrightarrow>
   \<exists>sent. out' = out @ sent \<and> prefix sent (thr_msgs es) \<and> length sent \<le> left + chunk * thr_ticks es
     \<and> (\<not> fin \<longrightarrow> sent = thr_msgs es)"
proof (induction chunk left es out rule: throttle.induct)
  case (3 chunk es out)
  then show ?case by (auto simp: thr_ticks_def)
next
  case (5 chunk n v es out)
  then obtain sent where "out' = (out @ [v]) @ sent \<and> prefix sent (thr_msgs es) \<and> length sent \<le> n + chunk * thr_ticks es
     \<and> (\<not> fin \<longrightarrow> sent = thr_msgs es)" by auto
  then show ?case by (intro exI [of _ "v # sent"]) (auto simp: thr_ticks_def)
qed auto

lemma delimiter_loop_min:
  "delimiter_loop rate ns d (rate mod d) \<in> insert d (set ns)
   \<and> (\<forall>i \<in> insert d (set ns). rate mod delimiter_loop rate ns d (rate mod d) \<le> rate mod i)"
proof (induction ns arbitrary: d)
  case (Cons n ns)
  show ?case
  proof (cases "rate mod n < rate mod d")
    case True
    with Cons.IH [of n] show ?thesis by fastforce
  next
    case False
    with Cons.IH [of d] show ?thesis by fastforce
  qed
qed simp

lemma delimiter_chosen:
  assumes "rate > 1000"
  shows "delimiter_loop rate [100..<1000] rate rate \<in> {100..<1000}
    \<and> (\<forall>i \<in> {100..<1000}. rate mod delimiter_loop rate [100..<1000] rate rate \<le> rate mod i)"
proof -
  have less: "rate mod 100 < rate" using assms mod_less_divisor [of 100 rate] by linarith
  have upt: "[100..<1000] = 100 # [101..<1000]" by (subst upt_conv_Cons) (simp_all del: upt_rec_numeral)
  have "delimiter_loop rate [100..<1000] rate rate = delimiter_loop rate [101..<1000] 100 (rate mod 100)"
    unfolding upt delimiter_loop.simps if_P [OF less] ..
  moreover have "insert 100 (set [101..<1000]) = {100..<1000::nat}" unfolding set_upt by auto
  ultimately show ?thesis using delimiter_loop_min [of rate "[101..<1000]" 100] by metis
qed

text \<open>The throttle passes messages on in the order received, none twice, and never more than a chunk for every tick of
  its timer; while it has not stopped it has passed on everything it received.\<close>

theorem throttle_fifo:
  assumes "throttle chunk 0 es [] = Some (out, fin)"
  shows "prefix out (thr_msgs es) \<and> length out \<le> chunk * thr_ticks es \<and> (\<not> fin \<longrightarrow> out = thr_msgs es)"
  using throttle_trace [OF assms] by auto

theorem throttle_fifo_witness:
  "throttle 2 0 [TTick, TMsg 5, TMsg 6, TTick, TMsg 7, TExit] [] = Some ([5, 6, 7], True)
   \<and> length [5, 6, 7::addr] \<le> 2 * thr_ticks [TTick, TMsg 5, TMsg 6, TTick, TMsg 7, TExit]"
proof -
  have "throttle 2 0 [TTick, TMsg 5, TMsg 6, TTick, TMsg 7, TExit] [] = Some ([5, 6, 7], True)"
    by (simp add: numeral_2_eq_2)
  from throttle_fifo [OF this] this show ?thesis by blast
qed

text \<open>C36. The delimiter and chunk for a rate: up to 1000 updates a second one message per tick; above, the number of ticks a second is
  in [100, 1000), with the smallest remainder of the rate, so that chunk times ticks never exceeds the rate and misses it by
  less than 100. The period is at least a millisecond: \<open>NewTicker\<close> does not panic.\<close>

theorem throttle_rate:
  assumes "rate > 0" "throttle_params rate = (delim, chunk, period)"
  shows "chunk \<ge> 1 \<and> chunk * delim \<le> rate \<and> rate < chunk * delim + 100 \<and> period \<ge> 1000000 \<and> period * delim \<le> 1000000000
    \<and> (rate \<le> 1000 \<longrightarrow> chunk * delim = rate)
    \<and> (rate > 1000 \<longrightarrow> (\<forall>i \<in> {100..<1000}. rate - chunk * delim \<le> rate mod i))"
proof (cases "rate > 1000")
  case True
  define d where "d = delimiter_loop rate [100..<1000] rate rate"
  from assms(2) True have eqs: "delim = d" "chunk = rate div d" "period = 1000000000 div d"
    unfolding throttle_params_def Let_def if_P [OF True] d_def [symmetric] by auto
  from delimiter_chosen [OF True, folded d_def]
  have d: "100 \<le> d" "d < 1000" "\<forall>i \<in> {100..<1000}. rate mod d \<le> rate mod i" by simp_all
  have "rate div d * d + rate mod d = rate" by simp
  moreover have "rate mod d < 100" using bspec [OF d(3), of 100] mod_less_divisor [of 100 rate] by simp
  moreover have "rate div d \<ge> 1" using True d by (simp add: Suc_le_eq div_greater_zero_iff)
  moreover have "1000000000 div d \<ge> 1000000000 div 1000" by (rule div_le_mono2) (use d in simp_all)
  moreover have "1000000000 div d * d \<le> 1000000000" by simp
  moreover have "rate - rate div d * d = rate mod d" by (rule minus_div_mult_eq_mod)
  ultimately show ?thesis using d(3) True unfolding eqs by simp
next
  case False
  with assms have eqs: "delim = rate" "chunk = 1" "period = 1000000000 div rate" by (auto simp: throttle_params_def)
  have "1000000000 div rate \<ge> 1000000000 div 1000" by (rule div_le_mono2) (use False assms in auto)
  with False show ?thesis unfolding eqs by simp
qed

theorem throttle_rate_witness:
  "case throttle_params 2500 of (delim, chunk, period) \<Rightarrow> chunk * delim \<le> 2500 \<and> 2500 < chunk * delim + 100"
  using throttle_rate [of 2500] by (auto split: prod.splits)

end
