(* ===== verification/Persister_System.thy ===== *)
theory Persister_System
  imports Cache_Worker_Props Whisper_Props
begin

text \<open>
  The goroutines of the persister, as \<open>Start\<close> of \<open>src/persister/whisper.go\<close> launches them, together with those of the cache: the throttle, the
  shuffler and the workers with the channels between them, or the one worker that reads the input itself, in every interleaving. They take messages
  from the cache's output channel (\<open>env_persist\<close>), store them and confirm them to the tracker (\<open>env_confirm\<close>).

  A step is one case of a \<open>select\<close>, one send, or one store. \<open>slog\<close> and \<open>files\<close> record what was stored: each message with whether its file could be written, and
  the updates of files.
\<close>

section \<open>State\<close>

text \<open>A worker: its channel, whether it waits for a message, stores one or confirms one, and whether it has returned.\<close>

datatype wk_task = Idle | Storing addr | Confirming addr

record worker =
  wk_chan :: "addr list"
  wk_task :: wk_task
  wk_stopped :: bool

record ('r, 't) psys =
  cw :: world
  plan :: start_plan
  thr_left :: nat
  thr_hold :: "addr option"
  thr_out :: "addr list"
  thr_closed :: bool
  rd_hold :: "addr option"
  rd_done :: bool
  workers :: "worker list"
  pexit :: bool
  pers :: "('r, 't) Whisper"
  slog :: "(bool \<times> string \<times> Point list) list"
  files :: "(string \<times> (int \<times> float64) list) list"

definition new_worker :: worker where
  "new_worker = \<lparr>wk_chan = [], wk_task = Idle, wk_stopped = False\<rparr>"

definition persister_start :: "world \<Rightarrow> ('r, 't) Whisper \<Rightarrow> ('r, 't) psys" where
  "persister_start w p =
     \<lparr>cw = w, plan = Whisper_Start p, thr_left = 0, thr_hold = None, thr_out = [], thr_closed = False, rd_hold = None, rd_done = False,
      workers = replicate (case plan_reader (Whisper_Start p) of SoloWorker \<Rightarrow> 1 | ShuffledWorkers n \<Rightarrow> n) new_worker,
      pexit = False, pers = p, slog = [], files = []\<rparr>"

section \<open>The throttle\<close>

text \<open>The receive of the throttle, or of the reader when there is no throttle.\<close>

definition take_output :: "('r, 't) psys \<Rightarrow> (addr \<times> ('r, 't) psys) option" where
  "take_output s =
     (case env_persist (cw s) of None \<Rightarrow> None | Some w \<Rightarrow> Some (hd (buffered (outChan (cw s))), s\<lparr>cw := w\<rparr>))"

definition thr_tick :: "('r, 't) psys \<Rightarrow> ('r, 't) psys option" where
  "thr_tick s =
     (case throttled (plan s) of
        None \<Rightarrow> None
      | Some (delim, chunk, period) \<Rightarrow>
          if thr_closed s \<or> thr_hold s \<noteq> None \<or> thr_left s \<noteq> 0 then None else Some (s\<lparr>thr_left := chunk\<rparr>))"

definition thr_take :: "('r, 't) psys \<Rightarrow> ('r, 't) psys option" where
  "thr_take s =
     (if throttled (plan s) = None \<or> thr_closed s \<or> thr_hold s \<noteq> None \<or> thr_left s = 0 then None
      else (case take_output s of None \<Rightarrow> None | Some (v, s1) \<Rightarrow> Some (s1\<lparr>thr_hold := Some v\<rparr>)))"

text \<open>The channel out of the throttle has the capacity of the one into it.\<close>

definition thr_put :: "('r, 't) psys \<Rightarrow> ('r, 't) psys option" where
  "thr_put s =
     (case thr_hold s of
        None \<Rightarrow> None
      | Some v \<Rightarrow>
          if length (thr_out s) < capacity (outChan (cw s))
          then Some (s\<lparr>thr_out := thr_out s @ [v], thr_hold := None, thr_left := thr_left s - 1\<rparr>) else None)"

definition thr_exit :: "('r, 't) psys \<Rightarrow> ('r, 't) psys option" where
  "thr_exit s =
     (if throttled (plan s) \<noteq> None \<and> pexit s \<and> thr_hold s = None \<and> \<not> thr_closed s then Some (s\<lparr>thr_closed := True\<rparr>) else None)"

section \<open>The reader: shuffler or solo worker\<close>

definition reader_recv :: "('r, 't) psys \<Rightarrow> (addr \<times> ('r, 't) psys) option" where
  "reader_recv s =
     (if throttled (plan s) = None then take_output s
      else (case thr_out s of [] \<Rightarrow> None | v # vs \<Rightarrow> Some (v, s\<lparr>thr_out := vs\<rparr>)))"

text \<open>Without a throttle the reader ends when told to; with one, when its channel is closed and empty.\<close>

definition reader_ends :: "('r, 't) psys \<Rightarrow> bool" where
  "reader_ends s \<longleftrightarrow> (if reader_exits (plan s) then pexit s else thr_closed s \<and> thr_out s = [])"

definition sh_take :: "('r, 't) psys \<Rightarrow> ('r, 't) psys option" where
  "sh_take s =
     (if plan_reader (plan s) = SoloWorker \<or> rd_done s \<or> rd_hold s \<noteq> None then None
      else (case reader_recv s of None \<Rightarrow> None | Some (v, s1) \<Rightarrow> Some (s1\<lparr>rd_hold := Some v\<rparr>)))"

definition sh_put :: "('r, 't) psys \<Rightarrow> ('r, 't) psys option" where
  "sh_put s =
     (case rd_hold s of
        None \<Rightarrow> None
      | Some v \<Rightarrow>
          (let i = shuffle_index (length (workers s)) (Metric (wmem (cw s) v)); k = workers s ! i
           in if length (wk_chan k) < 32
              then Some (s\<lparr>rd_hold := None, workers := (workers s)[i := k\<lparr>wk_chan := wk_chan k @ [v]\<rparr>]\<rparr>) else None))"

definition sh_exit :: "('r, 't) psys \<Rightarrow> ('r, 't) psys option" where
  "sh_exit s =
     (if plan_reader (plan s) \<noteq> SoloWorker \<and> \<not> rd_done s \<and> rd_hold s = None \<and> reader_ends s then Some (s\<lparr>rd_done := True\<rparr>) else None)"

definition solo_take :: "('r, 't) psys \<Rightarrow> ('r, 't) psys option" where
  "solo_take s =
     (let k = workers s ! 0 in
      if plan_reader (plan s) \<noteq> SoloWorker \<or> wk_stopped k \<or> wk_task k \<noteq> Idle then None
      else (case reader_recv s of None \<Rightarrow> None | Some (v, s1) \<Rightarrow> Some (s1\<lparr>workers := (workers s)[0 := k\<lparr>wk_task := Storing v\<rparr>]\<rparr>)))"

definition solo_exit :: "('r, 't) psys \<Rightarrow> ('r, 't) psys option" where
  "solo_exit s =
     (let k = workers s ! 0 in
      if plan_reader (plan s) = SoloWorker \<and> \<not> wk_stopped k \<and> wk_task k = Idle \<and> reader_ends s
      then Some (s\<lparr>rd_done := True, workers := (workers s)[0 := k\<lparr>wk_stopped := True\<rparr>]\<rparr>) else None)"

section \<open>The workers\<close>

definition wk_take :: "nat \<Rightarrow> ('r, 't) psys \<Rightarrow> ('r, 't) psys option" where
  "wk_take i s =
     (let k = workers s ! i in
      if \<not> i < length (workers s) \<or> wk_stopped k \<or> wk_task k \<noteq> Idle then None
      else (case wk_chan k of
              [] \<Rightarrow> None
            | v # vs \<Rightarrow> Some (s\<lparr>workers := (workers s)[i := k\<lparr>wk_chan := vs, wk_task := Storing v\<rparr>]\<rparr>)))"

text \<open>\<open>store\<close>, up to its deferred confirmation, which waits for room in the channel.\<close>

definition wk_store :: "('r \<Rightarrow> string \<Rightarrow> bool) \<Rightarrow> store_env \<Rightarrow> nat \<Rightarrow> ('r, 't) psys \<Rightarrow> ('r, 't) psys option" where
  "wk_store matches env i s =
     (let k = workers s ! i; mem = wmem (cw s) in
      if \<not> i < length (workers s) then None
      else (case wk_task k of
              Storing v \<Rightarrow>
                (case whisper_store matches env mem v (pers s) of
                   (p, acts) \<Rightarrow>
                     Some (s\<lparr>pers := p, files := files s @ updates_of acts,
                             slog := slog s @ [(updates_of acts \<noteq> [], item_of mem v)],
                             workers := (workers s)[i := k\<lparr>wk_task := Confirming v\<rparr>]\<rparr>))
            | _ \<Rightarrow> None))"

definition wk_confirm :: "nat \<Rightarrow> ('r, 't) psys \<Rightarrow> ('r, 't) psys option" where
  "wk_confirm i s =
     (let k = workers s ! i in
      if \<not> i < length (workers s) then None
      else (case wk_task k of
              Confirming v \<Rightarrow>
                (case env_confirm v (cw s) of
                   None \<Rightarrow> None
                 | Some w \<Rightarrow> Some (s\<lparr>cw := w, workers := (workers s)[i := k\<lparr>wk_task := Idle\<rparr>]\<rparr>))
            | _ \<Rightarrow> None))"

definition wk_exit :: "nat \<Rightarrow> ('r, 't) psys \<Rightarrow> ('r, 't) psys option" where
  "wk_exit i s =
     (let k = workers s ! i in
      if plan_reader (plan s) \<noteq> SoloWorker \<and> i < length (workers s) \<and> rd_done s \<and> \<not> wk_stopped k \<and> wk_chan k = [] \<and> wk_task k = Idle
      then Some (s\<lparr>workers := (workers s)[i := k\<lparr>wk_stopped := True\<rparr>]\<rparr>) else None)"

section \<open>The system\<close>

text \<open>The steps of the cache and its other clients are those that neither take nor confirm a message.\<close>

inductive pstep :: "('r \<Rightarrow> string \<Rightarrow> bool) \<Rightarrow> ('r, 't) psys \<Rightarrow> ('r, 't) psys \<Rightarrow> bool"
  for matches :: "'r \<Rightarrow> string \<Rightarrow> bool"
where
  p_cache: "wstep (cw s) w \<Longrightarrow> wgiven w = wgiven (cw s) \<Longrightarrow> pstep matches s (s\<lparr>cw := w\<rparr>)"
| p_tick: "thr_tick s = Some s' \<Longrightarrow> pstep matches s s'"
| p_thr_take: "thr_take s = Some s' \<Longrightarrow> pstep matches s s'"
| p_thr_put: "thr_put s = Some s' \<Longrightarrow> pstep matches s s'"
| p_thr_exit: "thr_exit s = Some s' \<Longrightarrow> pstep matches s s'"
| p_sh_take: "sh_take s = Some s' \<Longrightarrow> pstep matches s s'"
| p_sh_put: "sh_put s = Some s' \<Longrightarrow> pstep matches s s'"
| p_sh_exit: "sh_exit s = Some s' \<Longrightarrow> pstep matches s s'"
| p_solo_take: "solo_take s = Some s' \<Longrightarrow> pstep matches s s'"
| p_solo_exit: "solo_exit s = Some s' \<Longrightarrow> pstep matches s s'"
| p_wk_take: "wk_take i s = Some s' \<Longrightarrow> pstep matches s s'"
| p_wk_store: "wk_store matches env i s = Some s' \<Longrightarrow> pstep matches s s'"
| p_wk_confirm: "wk_confirm i s = Some s' \<Longrightarrow> pstep matches s s'"
| p_wk_exit: "wk_exit i s = Some s' \<Longrightarrow> pstep matches s s'"
| p_stop: "pstep matches s (s\<lparr>pexit := True\<rparr>)"

text \<open>A started cache with a started persister, which has a confirmation channel.\<close>

definition pstarted :: "('r, 't) psys \<Rightarrow> bool" where
  "pstarted s \<longleftrightarrow> (\<exists>w p. started w \<and> has_confirm p \<and> s = persister_start w p)"

section \<open>The cache within the system\<close>

text \<open>A message that was handed to the tracker is no longer in the cache's map, nor in its input: nobody writes to it.\<close>

definition given_inv :: "world \<Rightarrow> bool" where
  "given_inv w \<longleftrightarrow> winv w \<and> set (tracked w) \<inter> (ran (data (wcache w)) \<union> set (buffered (inChan w))) = {}"

lemma given_inv_pop:
  assumes "given_inv w" "visits (range_order env) (data (wcache w))" "main_top env w = Some w'"
  shows "tracked w' = tracked w \<and> inChan w' = inChan w \<and> ran (data (wcache w')) \<subseteq> ran (data (wcache w))"
proof -
  have i: "cache_inv (wmem w) (wcache w)" using assms(1) by (simp add: given_inv_def winv_def)
  have "ran (data c') \<subseteq> ran (data (wcache w))" if r: "Cache_Pop env (wmem w) (wcache w) = Inr (r, c')" for r c'
  proof (cases r)
    case None
    then have "data c' = data (wcache w)"
      using Cache_Get_inv(2) [OF i assms(2)] r by (auto simp: Cache_Pop_def split: sum.splits option.splits)
    then show ?thesis by simp
  next
    case (Some v)
    note p = Cache_Pop_Some [OF i assms(2) r [unfolded Some]]
    show ?thesis by (auto simp: p(5) ran_def split: if_splits)
  qed
  then show ?thesis using assms(3) by (auto simp: main_top_def Let_def tracked_def split: if_splits sum.splits)
qed

lemma given_frame:
  assumes "given_inv w" "set (tracked w') \<subseteq> set (tracked w)" "data (wcache w') = data (wcache w)" "inChan w' = inChan w"
  shows "set (tracked w') \<inter> (ran (data (wcache w')) \<union> set (buffered (inChan w'))) = {}"
  using assms by (auto simp: given_inv_def)

lemma given_inv_wstep:
  assumes "wstep w w'" "given_inv w" shows "given_inv w'"
proof -
  have w: "winv w" "winv w'" "ptr_inv w" using assms winv_wstep by (auto simp: given_inv_def winv_def)
  have "set (tracked w') \<inter> (ran (data (wcache w')) \<union> set (buffered (inChan w'))) = {}"
    using assms(1)
  proof (cases rule: wstep.cases)
    case (top env)
    from given_inv_pop [OF assms(2) top] show ?thesis using assms(2) by (auto simp: given_inv_def)
  next
    case input
    obtain p rest where b: "buffered (inChan w) = p # rest" using input by (auto simp: sel_input_def split: if_splits list.splits)
    obtain mem' c' where a: "Cache_Add p (wmem w) (wcache w) = (mem', c')" by fastforce
    have "cache_inv (wmem w) (wcache w)" using w(1) by (simp add: winv_def)
    from ran_Add [OF this a] have "ran (data c') \<subseteq> insert p (ran (data (wcache w)))" by simp
    then have "ran (data (wcache w')) \<subseteq> insert p (ran (data (wcache w)))" "tracked w' = tracked w" "buffered (inChan w') = rest"
      using input a b by (auto simp: sel_input_def Let_def tracked_def split: if_splits)
    then show ?thesis using assms(2) b unfolding given_inv_def by auto
  next
    case (e_input p msg)
    then show ?thesis using assms(2) w(3) by (auto simp: env_input_def given_inv_def tracked_def ptr_inv_def split: if_splits)
  next
    case send
    then show ?thesis using assms(2) w(3) by (auto simp: sel_send_def given_inv_def tracked_def ptr_inv_def pipeline_def split: if_splits option.splits)
  next
    case (e_confirm v)
    then have w': "w' = w\<lparr>confChan := (confChan w)\<lparr>buffered := buffered (confChan w) @ [v]\<rparr>, wgiven := remove1 v (wgiven w)\<rparr>" "v \<in> set (wgiven w)"
      by (auto simp: env_confirm_def split: if_splits)
    have "set (tracked w') \<subseteq> set (tracked w)" using w'(2) set_remove1_subset [of v "wgiven w"] unfolding w'(1) tracked_def by auto
    then show ?thesis using assms(2) by (auto simp: given_inv_def w'(1))
  qed (rule given_frame [OF assms(2)];
       simp add: tracked_def sel_query_def forward_query_def sel_exit_def trk_out_def trk_confirm_def trk_query_def trk_exit_def env_persist_def
         env_query_def env_stop_def split: if_splits list.splits option.splits wpc.splits; fastforce)+
  with w(2) show ?thesis by (simp add: given_inv_def)
qed

lemma started_given: "started w \<Longrightarrow> given_inv w"
proof -
  assume st: "started w"
  then have "winv w" by (rule cache_sys.inv_init)
  moreover from st have "tracked w = []" by (auto simp: started_def Cache_Start_def Cache_In_def Cache_Out_def tracked_def Let_def split: option.splits)
  ultimately show ?thesis by (simp add: given_inv_def)
qed

interpretation given_sys: invariant_system started wstep given_inv
  by unfold_locales (auto intro: started_given given_inv_wstep)

lemma given_mem:
  assumes "wstep w w'" "given_inv w" "a \<in> set (tracked w)"
  shows "wmem w' a = wmem w a"
  using assms(1)
proof (cases rule: wstep.cases)
  case input
  obtain p rest where b: "buffered (inChan w) = p # rest" using input by (auto simp: sel_input_def split: if_splits list.splits)
  obtain mem' c' where add: "Cache_Add p (wmem w) (wcache w) = (mem', c')" by fastforce
  have "a \<notin> ran (data (wcache w))" using assms(2,3) by (auto simp: given_inv_def)
  from Cache_Add_mem [OF add this] show ?thesis using input b add by (auto simp: sel_input_def Let_def split: if_splits)
next
  case (e_input p msg)
  have "a \<in> allocated w" using assms(2,3) by (auto simp: given_inv_def winv_def ptr_inv_def)
  then show ?thesis using e_input by (auto simp: env_input_def split: if_splits)
qed (auto simp: main_top_def Let_def sel_query_def forward_query_def sel_send_def sel_exit_def trk_out_def trk_confirm_def trk_query_def trk_exit_def
       env_persist_def env_confirm_def env_query_def env_stop_def split: if_splits sum.splits list.splits option.splits wpc.splits)

lemma quiet_delivered:
  assumes "wstep w w'" "wgiven w' = wgiven w"
  shows "delivered (hist w') = delivered (hist w)"
  using assms
  by (cases rule: wstep.cases)
    (auto simp: main_top_def Let_def sel_query_def forward_query_def sel_send_def sel_input_def sel_exit_def trk_out_def trk_confirm_def trk_query_def
      trk_exit_def env_input_def env_persist_def env_confirm_def env_query_def env_stop_def split: if_splits sum.splits list.splits option.splits wpc.splits prod.splits)

section \<open>The invariant\<close>

definition wk_waiting :: "worker \<Rightarrow> addr list" where
  "wk_waiting k = (case wk_task k of Storing v \<Rightarrow> [v] | _ \<Rightarrow> []) @ wk_chan k"

definition wk_all :: "worker \<Rightarrow> addr list" where
  "wk_all k = (case wk_task k of Confirming v \<Rightarrow> [v] | _ \<Rightarrow> []) @ wk_waiting k"

definition upstream :: "('r, 't) psys \<Rightarrow> addr list" where
  "upstream s = opt_list (rd_hold s) @ thr_out s @ opt_list (thr_hold s)"

text \<open>What a message of the metric waits for, oldest first: its worker, the reader and the throttle.\<close>

definition route :: "('r, 't) psys \<Rightarrow> string \<Rightarrow> addr list" where
  "route s m = wk_waiting (workers s ! shuffle_index (length (workers s)) m) @ upstream s"

definition inhouse :: "('r, 't) psys \<Rightarrow> addr list" where
  "inhouse s = concat (map wk_all (workers s)) @ upstream s"

definition shape_inv :: "('r, 't) psys \<Rightarrow> bool" where
  "shape_inv s \<longleftrightarrow>
     workers s \<noteq> [] \<and> has_confirm (pers s) \<and> reader_exits (plan s) = (throttled (plan s) = None)
     \<and> (plan_reader (plan s) = SoloWorker \<longrightarrow> length (workers s) = 1 \<and> rd_hold s = None)
     \<and> (throttled (plan s) = None \<longrightarrow> thr_out s = [] \<and> thr_hold s = None)
     \<and> (thr_closed s \<longrightarrow> thr_hold s = None)
     \<and> (rd_done s \<longrightarrow> rd_hold s = None \<and> (throttled (plan s) \<noteq> None \<longrightarrow> thr_closed s \<and> thr_out s = []))
     \<and> (\<forall>k \<in> set (workers s). wk_stopped k \<longrightarrow> rd_done s \<and> wk_all k = [])
     \<and> (plan_reader (plan s) = SoloWorker \<longrightarrow> wk_chan (workers s ! 0) = [])"

definition route_inv :: "('r, 't) psys \<Rightarrow> bool" where
  "route_inv s \<longleftrightarrow>
     given_inv (cw s)
     \<and> (\<forall>i < length (workers s). \<forall>v \<in> set (wk_waiting (workers s ! i)). shuffle_index (length (workers s)) (Metric (wmem (cw s) v)) = i)
     \<and> mset (wgiven (cw s)) = mset (inhouse s)
     \<and> (\<forall>m. of_metric m (delivered (hist (cw s))) =
             of_metric m (map snd (slog s)) @ of_metric m (map (item_of (wmem (cw s))) (route s m)))"

lemma shuffle_index_less: "ws \<noteq> [] \<Longrightarrow> shuffle_index (length ws) m < length ws"
  by (simp add: shuffle_index_def)

lemma mset_workers_update:
  "i < length ws \<Longrightarrow> mset (concat (map f (ws[i := k]))) + mset (f (ws ! i)) = mset (concat (map f ws)) + mset (f k)"
  by (induction ws arbitrary: i) (auto split: nat.splits)

lemma inhouse_given: "route_inv s \<Longrightarrow> set (inhouse s) = set (wgiven (cw s))"
  by (metis route_inv_def set_mset_mset)

lemma waiting_inhouse: "i < length (workers s) \<Longrightarrow> set (wk_all (workers s ! i)) \<subseteq> set (inhouse s)"
  by (auto simp: inhouse_def intro!: bexI [OF _ nth_mem])

lemma flow_cw [simp]: "upstream (s\<lparr>cw := w\<rparr>) = upstream s" "route (s\<lparr>cw := w\<rparr>) m = route s m" "inhouse (s\<lparr>cw := w\<rparr>) = inhouse s"
  by (simp_all add: upstream_def route_def inhouse_def)

lemma route_inhouse: "workers s \<noteq> [] \<Longrightarrow> set (route s m) \<subseteq> set (inhouse s)"
  using waiting_inhouse [OF shuffle_index_less, of s m] by (auto simp: route_def inhouse_def wk_all_def)

lemma route_inv_cache:
  assumes "route_inv s" "shape_inv s" "wstep (cw s) w" "wgiven w = wgiven (cw s)"
  shows "route_inv (s\<lparr>cw := w\<rparr>)"
proof -
  have g: "given_inv (cw s)" "given_inv w" using assms given_inv_wstep by (auto simp: route_inv_def)
  have mem: "wmem w v = wmem (cw s) v" if "v \<in> set (inhouse s)" for v
    using given_mem [OF assms(3) g(1)] that inhouse_given [OF assms(1)] by (auto simp: tracked_def)
  have ne: "workers s \<noteq> []" using assms(2) by (simp add: shape_inv_def)
  have rt: "map (item_of (wmem w)) (route s m) = map (item_of (wmem (cw s))) (route s m)" for m
    using mem route_inhouse [OF ne, of m] by (auto simp: item_of_def)
  have "v \<in> set (inhouse s)" if "i < length (workers s)" "v \<in> set (wk_waiting (workers s ! i))" for i v
    using waiting_inhouse [OF that(1)] that(2) by (auto simp: wk_all_def)
  then show ?thesis
    using assms(1) g(2) mem quiet_delivered [OF assms(3,4)] assms(4) by (simp add: route_inv_def rt del: map_eq_conv)
qed

text \<open>The steps of the persister: a message is taken, moved on, stored, or confirmed.\<close>

definition routed :: "('r, 't) psys \<Rightarrow> bool" where
  "routed s \<longleftrightarrow> (\<forall>i < length (workers s). \<forall>v \<in> set (wk_waiting (workers s ! i)). shuffle_index (length (workers s)) (Metric (wmem (cw s) v)) = i)"

lemma env_persist_Some:
  assumes "env_persist w = Some w'"
  shows "wmem w' = wmem w" "wgiven w' = wgiven w @ [hd (buffered (outChan w))]"
    "delivered (hist w') = delivered (hist w) @ [item_of (wmem w) (hd (buffered (outChan w)))]" "wstep w w'" "capacity (outChan w') = capacity (outChan w)"
  using assms wstep.e_persist [OF assms] by (auto simp: env_persist_def split: list.splits)

lemma route_inv_take:
  assumes "route_inv s" "env_persist (cw s) = Some w" "v = hd (buffered (outChan (cw s)))"
    and "cw s' = w" "slog s' = slog s" "routed s'" "\<And>m. route s' m = route s m @ [v]" "mset (inhouse s') = mset (inhouse s) + {#v#}"
  shows "route_inv s'"
  using assms(1) env_persist_Some [OF assms(2)] given_inv_wstep [of "cw s" w] assms(3-)
  by (simp add: route_inv_def routed_def item_of_def)

lemma route_inv_move:
  assumes "route_inv s" "cw s' = cw s" "slog s' = slog s" "routed s'"
    "\<And>m. of_metric m (map (item_of (wmem (cw s))) (route s' m)) = of_metric m (map (item_of (wmem (cw s))) (route s m))" "mset (inhouse s') = mset (inhouse s)"
  shows "route_inv s'"
  using assms by (simp add: route_inv_def routed_def)

lemma route_inv_store:
  assumes "route_inv s" "cw s' = cw s" "slog s' = slog s @ [(b, item_of (wmem (cw s)) v)]" "routed s'"
    and "route s (Metric (wmem (cw s) v)) = v # route s' (Metric (wmem (cw s) v))"
    and "\<And>m. m \<noteq> Metric (wmem (cw s) v) \<Longrightarrow> of_metric m (map (item_of (wmem (cw s))) (route s' m)) = of_metric m (map (item_of (wmem (cw s))) (route s m))"
    and "mset (inhouse s') = mset (inhouse s)"
  shows "route_inv s'"
proof -
  have "of_metric m (delivered (hist (cw s'))) = of_metric m (map snd (slog s')) @ of_metric m (map (item_of (wmem (cw s'))) (route s' m))" for m
  proof (cases "m = Metric (wmem (cw s) v)")
    case True
    then show ?thesis using assms(1,2,3,5) by (simp add: route_inv_def item_of_def)
  next
    case False
    then show ?thesis using assms(1,2,3) assms(6) [OF False] by (simp add: route_inv_def item_of_def)
  qed
  then show ?thesis using assms(1,2,4,7) by (simp add: route_inv_def routed_def)
qed

lemma env_confirm_Some:
  assumes "env_confirm v w = Some w'"
  shows "wmem w' = wmem w" "wgiven w' = remove1 v (wgiven w)" "delivered (hist w') = delivered (hist w)" "wstep w w'" "v \<in> set (wgiven w)" "outChan w' = outChan w"
  using assms wstep.e_confirm [OF assms] by (auto simp: env_confirm_def split: if_splits)

lemma route_inv_confirm:
  assumes "route_inv s" "env_confirm v (cw s) = Some w" "cw s' = w" "slog s' = slog s" "routed s'" "\<And>m. route s' m = route s m"
    "mset (inhouse s') + {#v#} = mset (inhouse s)"
  shows "route_inv s'"
proof -
  note c = env_confirm_Some [OF assms(2)]
  have "mset (wgiven w) = mset (inhouse s')" using assms(1,7) c(2) by (simp add: route_inv_def flip: assms(7))
  then show ?thesis using assms(1,3-6) c given_inv_wstep [OF c(4)] by (simp add: route_inv_def routed_def)
qed

section \<open>One lemma per step\<close>

definition pinv :: "('r, 't) psys \<Rightarrow> bool" where
  "pinv s \<longleftrightarrow> shape_inv s \<and> route_inv s"

lemma routed_same: "routed s \<Longrightarrow> workers s' = workers s \<Longrightarrow> wmem (cw s') = wmem (cw s) \<Longrightarrow> routed s'"
  by (simp add: routed_def)

lemma route_inv_routed: "route_inv s \<Longrightarrow> routed s"
  by (simp add: route_inv_def routed_def)

lemma routed_update:
  assumes "routed s" "workers s' = (workers s)[i := k]" "wmem (cw s') = wmem (cw s)"
    and "\<And>v. v \<in> set (wk_waiting k) \<Longrightarrow> v \<in> set (wk_waiting (workers s ! i)) \<or> shuffle_index (length (workers s)) (Metric (wmem (cw s) v)) = i"
  shows "routed s'"
proof -
  have "shuffle_index (length (workers s)) (Metric (wmem (cw s) v)) = j" if "j < length (workers s)" "v \<in> set (wk_waiting (workers s' ! j))" for j v
  proof (cases "j = i")
    case True
    with that have "v \<in> set (wk_waiting k)" by (simp add: assms(2))
    from assms(4) [OF this] show ?thesis using assms(1) that(1) True by (auto simp: routed_def)
  next
    case False
    with that show ?thesis using assms(1) by (simp add: assms(2) routed_def)
  qed
  then show ?thesis by (simp add: routed_def assms(2,3))
qed

lemma mset_all_update:
  "i < length ws \<Longrightarrow> mset (wk_all k) = mset (wk_all (ws ! i)) + X \<Longrightarrow> mset (concat (map wk_all (ws[i := k]))) = mset (concat (map wk_all ws)) + X"
  using mset_workers_update [of i ws wk_all k] by simp

lemma in_set_update: "k' \<in> set (ws[i := k]) \<Longrightarrow> k' = k \<or> k' \<in> set ws"
  using set_update_subset_insert [of ws i k] by blast

lemma route_inv_frame:
  assumes "route_inv s" "cw s' = cw s" "slog s' = slog s" "workers s' = workers s" "rd_hold s' = rd_hold s" "thr_out s' = thr_out s" "thr_hold s' = thr_hold s"
  shows "route_inv s'"
  by (rule route_inv_move [OF assms(1-3)])
    (use assms route_inv_routed [OF assms(1)] in \<open>simp_all add: routed_def route_def upstream_def inhouse_def\<close>)

lemma pinv_tick:
  assumes "pinv s" "thr_tick s = Some s'" shows "pinv s'"
proof -
  from assms(2) obtain n where s': "s' = s\<lparr>thr_left := n\<rparr>" by (auto simp: thr_tick_def split: option.splits if_splits)
  have "route_inv s'" using assms(1) by - (rule route_inv_frame [of s], simp_all add: pinv_def s')
  moreover have "shape_inv s'" using assms(1) by (simp add: pinv_def shape_inv_def s')
  ultimately show ?thesis by (simp add: pinv_def)
qed

lemma pinv_thr_exit:
  assumes "pinv s" "thr_exit s = Some s'" shows "pinv s'"
proof -
  from assms(2) have s': "s' = s\<lparr>thr_closed := True\<rparr>" "thr_hold s = None" by (auto simp: thr_exit_def split: if_splits)
  have "route_inv s'" using assms(1) by - (rule route_inv_frame [of s], simp_all add: pinv_def s')
  moreover have "shape_inv s'" using assms(1) s'(2) by (auto simp: pinv_def shape_inv_def s'(1))
  ultimately show ?thesis by (simp add: pinv_def)
qed

lemma pinv_stop: "pinv s \<Longrightarrow> pinv (s\<lparr>pexit := True\<rparr>)"
  using route_inv_frame [of s "s\<lparr>pexit := True\<rparr>"] by (simp add: pinv_def shape_inv_def)

lemma pinv_sh_exit:
  assumes "pinv s" "sh_exit s = Some s'" shows "pinv s'"
proof -
  from assms(2) have s': "s' = s\<lparr>rd_done := True\<rparr>" "rd_hold s = None" "reader_ends s" by (auto simp: sh_exit_def split: if_splits)
  have "route_inv s'" using assms(1) by - (rule route_inv_frame [of s], simp_all add: pinv_def s')
  moreover have "shape_inv s'" using assms(1) s'(2,3) by (auto simp: pinv_def shape_inv_def reader_ends_def s'(1))
  ultimately show ?thesis by (simp add: pinv_def)
qed

lemma pinv_cache:
  assumes "pinv s" "wstep (cw s) w" "wgiven w = wgiven (cw s)" shows "pinv (s\<lparr>cw := w\<rparr>)"
  using assms route_inv_cache [of s w] by (simp add: pinv_def shape_inv_def)

lemma take_output_Some:
  assumes "take_output s = Some (v, s1)"
  obtains w where "env_persist (cw s) = Some w" "v = hd (buffered (outChan (cw s)))" "s1 = s\<lparr>cw := w\<rparr>"
  using assms by (auto simp: take_output_def split: option.splits)

lemma pinv_thr_take:
  assumes "pinv s" "thr_take s = Some s'" shows "pinv s'"
proof -
  from assms(2) obtain v s1 where t: "take_output s = Some (v, s1)" "s' = s1\<lparr>thr_hold := Some v\<rparr>" "thr_hold s = None" "throttled (plan s) \<noteq> None" "\<not> thr_closed s"
    by (auto simp: thr_take_def split: if_splits option.splits)
  from t(1) obtain w where w: "env_persist (cw s) = Some w" "v = hd (buffered (outChan (cw s)))" "s1 = s\<lparr>cw := w\<rparr>" by (rule take_output_Some)
  have s': "s' = s\<lparr>cw := w, thr_hold := Some v\<rparr>" by (simp add: t(2) w(3))
  have r: "route_inv s" using assms(1) by (simp add: pinv_def)
  have "route_inv s'"
    by (rule route_inv_take [OF r w(1,2)])
      (use env_persist_Some(1) [OF w(1)] route_inv_routed [OF r] t(3) in \<open>simp_all add: s' routed_def route_def upstream_def inhouse_def\<close>)
  moreover have "shape_inv s'" using assms(1) t(4,5) by (auto simp: pinv_def shape_inv_def s')
  ultimately show ?thesis by (simp add: pinv_def)
qed

lemma pinv_thr_put:
  assumes "pinv s" "thr_put s = Some s'" shows "pinv s'"
proof -
  from assms(2) obtain v where t: "thr_hold s = Some v" "s' = s\<lparr>thr_out := thr_out s @ [v], thr_hold := None, thr_left := thr_left s - 1\<rparr>"
    by (auto simp: thr_put_def split: if_splits option.splits)
  have "route_inv s'"
    by (rule route_inv_move [of s])
      (use assms(1) route_inv_routed [of s] t(1) in \<open>simp_all add: pinv_def t(2) routed_def route_def upstream_def inhouse_def\<close>)
  moreover have "shape_inv s'" using assms(1) t(1) by (auto simp: pinv_def shape_inv_def t(2))
  ultimately show ?thesis by (simp add: pinv_def)
qed

lemma reader_recv_cases:
  assumes "reader_recv s = Some (v, s1)"
  obtains (direct) w where "throttled (plan s) = None" "env_persist (cw s) = Some w" "v = hd (buffered (outChan (cw s)))" "s1 = s\<lparr>cw := w\<rparr>"
  | (throttle) vs where "throttled (plan s) \<noteq> None" "thr_out s = v # vs" "s1 = s\<lparr>thr_out := vs\<rparr>"
  using assms by (auto simp: reader_recv_def split: if_splits list.splits elim: take_output_Some)

lemma pinv_sh_take:
  assumes "pinv s" "sh_take s = Some s'" shows "pinv s'"
proof -
  from assms(2) obtain v s1 where t: "reader_recv s = Some (v, s1)" "s' = s1\<lparr>rd_hold := Some v\<rparr>" "rd_hold s = None" "\<not> rd_done s" "plan_reader (plan s) \<noteq> SoloWorker"
    by (auto simp: sh_take_def split: if_splits option.splits)
  have r: "route_inv s" "shape_inv s" using assms(1) by (simp_all add: pinv_def)
  from t(1) have "route_inv s' \<and> shape_inv s'"
  proof (cases rule: reader_recv_cases)
    case (direct w)
    have s': "s' = s\<lparr>cw := w, rd_hold := Some v\<rparr>" by (simp add: t(2) direct(4))
    have up: "upstream s = []" using r(2) direct(1) t(3) by (simp add: shape_inv_def upstream_def)
    have "route_inv s'"
      by (rule route_inv_take [OF r(1) direct(2,3)])
        (use env_persist_Some(1) [OF direct(2)] route_inv_routed [OF r(1)] up in \<open>simp_all add: s' routed_def route_def upstream_def inhouse_def\<close>)
    moreover have "shape_inv s'" using r(2) t(4,5) by (auto simp: shape_inv_def s')
    ultimately show ?thesis ..
  next
    case (throttle vs)
    have s': "s' = s\<lparr>thr_out := vs, rd_hold := Some v\<rparr>" by (simp add: t(2) throttle(3))
    have "route_inv s'"
      by (rule route_inv_move [OF r(1)])
        (use route_inv_routed [OF r(1)] t(3) throttle(2) in \<open>simp_all add: s' routed_def route_def upstream_def inhouse_def\<close>)
    moreover have "shape_inv s'" using r(2) t(4,5) throttle(1) by (auto simp: shape_inv_def s')
    ultimately show ?thesis ..
  qed
  then show ?thesis by (simp add: pinv_def)
qed

lemma solo_workers:
  assumes "shape_inv s" "plan_reader (plan s) = SoloWorker"
  shows "workers s = [workers s ! 0]" "rd_hold s = None" "wk_chan (workers s ! 0) = []"
proof -
  have "length (workers s) = 1" using assms by (simp add: shape_inv_def)
  then show "workers s = [workers s ! 0]" by (cases "workers s") auto
  show "rd_hold s = None" "wk_chan (workers s ! 0) = []" using assms by (simp_all add: shape_inv_def)
qed

lemma solo_chan: "shape_inv s \<Longrightarrow> i < length (workers s) \<Longrightarrow> plan_reader (plan s) = SoloWorker \<Longrightarrow> wk_chan (workers s ! i) = []"
  by (auto simp: shape_inv_def)

lemma shuffle_index_1 [simp]: "shuffle_index (Suc 0) m = 0"
  by (simp add: shuffle_index_def)

lemma pinv_solo_take:
  assumes "pinv s" "solo_take s = Some s'" shows "pinv s'"
proof -
  define k where "k = workers s ! 0"
  from assms(2) obtain v s1 where t: "reader_recv s = Some (v, s1)" "s' = s1\<lparr>workers := (workers s)[0 := k\<lparr>wk_task := Storing v\<rparr>]\<rparr>"
    "wk_task k = Idle" "\<not> wk_stopped k" and solo: "plan_reader (plan s) = SoloWorker"
    by (auto simp: solo_take_def Let_def k_def split: if_splits option.splits)
  have r: "route_inv s" "shape_inv s" using assms(1) by (simp_all add: pinv_def)
  have ws: "workers s = [k]" "rd_hold s = None" "wk_chan k = []" using solo_workers [OF r(2) solo] by (simp_all add: k_def)
  from t(1) have "route_inv s' \<and> shape_inv s'"
  proof (cases rule: reader_recv_cases)
    case (direct w)
    have s': "s' = s\<lparr>cw := w, workers := [k\<lparr>wk_task := Storing v\<rparr>]\<rparr>" by (simp add: t(2) direct(4) ws(1))
    have up: "upstream s = []" using r(2) direct(1) ws(2) by (simp add: shape_inv_def upstream_def)
    have "route_inv s'"
      by (rule route_inv_take [OF r(1) direct(2,3)])
        (use up ws t(3) in \<open>simp_all add: s' routed_def route_def upstream_def inhouse_def wk_waiting_def wk_all_def\<close>)
    moreover have "shape_inv s'" using r(2) ws t(4) by (auto simp: shape_inv_def s')
    ultimately show ?thesis ..
  next
    case (throttle vs)
    have s': "s' = s\<lparr>thr_out := vs, workers := [k\<lparr>wk_task := Storing v\<rparr>]\<rparr>" by (simp add: t(2) throttle(3) ws(1))
    have "route_inv s'"
      by (rule route_inv_move [OF r(1)])
        (use ws t(3) throttle(2) in \<open>simp_all add: s' routed_def route_def upstream_def inhouse_def wk_waiting_def wk_all_def\<close>)
    moreover have "shape_inv s'" using r(2) ws t(4) throttle(1,2) by (auto simp: shape_inv_def s')
    ultimately show ?thesis ..
  qed
  then show ?thesis by (simp add: pinv_def)
qed

lemma pinv_solo_exit:
  assumes "pinv s" "solo_exit s = Some s'" shows "pinv s'"
proof -
  define k where "k = workers s ! 0"
  from assms(2) have s': "s' = s\<lparr>rd_done := True, workers := (workers s)[0 := k\<lparr>wk_stopped := True\<rparr>]\<rparr>"
    and k: "wk_task k = Idle" "reader_ends s" and solo: "plan_reader (plan s) = SoloWorker"
    by (auto simp: solo_exit_def Let_def k_def split: if_splits)
  have r: "route_inv s" "shape_inv s" using assms(1) by (simp_all add: pinv_def)
  have ws: "workers s = [k]" "rd_hold s = None" "wk_chan k = []" using solo_workers [OF r(2) solo] by (simp_all add: k_def)
  have "route_inv s'"
    by (rule route_inv_move [OF r(1)]) (use ws k in \<open>simp_all add: s' routed_def route_def upstream_def inhouse_def wk_waiting_def wk_all_def\<close>)
  moreover have "shape_inv s'" using r(2) ws k by (auto simp: shape_inv_def s' reader_ends_def wk_all_def wk_waiting_def)
  ultimately show ?thesis by (simp add: pinv_def)
qed

lemma shape_inv_update:
  assumes "shape_inv s" "workers s' = (workers s)[i := k]" "plan s' = plan s" "has_confirm (pers s')" "thr_out s' = thr_out s" "thr_hold s' = thr_hold s"
    "thr_closed s' = thr_closed s" "rd_done s' = rd_done s" "rd_hold s' = rd_hold s \<or> rd_hold s' = None"
    "wk_stopped k \<longrightarrow> rd_done s \<and> wk_all k = []" "plan_reader (plan s) = SoloWorker \<longrightarrow> wk_chan k = []"
  shows "shape_inv s'"
proof -
  have "\<forall>k' \<in> set (workers s'). wk_stopped k' \<longrightarrow> rd_done s' \<and> wk_all k' = []"
  proof
    fix k' assume "k' \<in> set (workers s')"
    then consider "k' = k" | "k' \<in> set (workers s)" using in_set_update [of k' "workers s" i k] by (auto simp: assms(2))
    then show "wk_stopped k' \<longrightarrow> rd_done s' \<and> wk_all k' = []" using assms(1,8,10) by cases (simp_all add: shape_inv_def)
  qed
  moreover have "plan_reader (plan s) = SoloWorker \<longrightarrow> wk_chan (workers s' ! 0) = []"
    using assms(1,2,11) by (cases "workers s"; cases i) (auto simp: shape_inv_def)
  ultimately show ?thesis using assms(9) by (elim disjE) (use assms(1-8) in \<open>simp_all add: shape_inv_def\<close>)
qed

lemma route_update:
  assumes "workers s' = (workers s)[i := k]" "upstream s' = upstream s" "i < length (workers s)"
  shows "route s' m = (if shuffle_index (length (workers s)) m = i then wk_waiting k @ upstream s else route s m)"
  using assms by (simp add: route_def)

lemma worker_not_stopped: "shape_inv s \<Longrightarrow> i < length (workers s) \<Longrightarrow> wk_all (workers s ! i) \<noteq> [] \<Longrightarrow> \<not> wk_stopped (workers s ! i)"
  using nth_mem [of i "workers s"] unfolding shape_inv_def by blast

lemma pinv_sh_put:
  assumes "pinv s" "sh_put s = Some s'" shows "pinv s'"
proof -
  from assms(2) obtain v where v: "rd_hold s = Some v" by (auto simp: sh_put_def split: option.splits)
  define i where "i = shuffle_index (length (workers s)) (Metric (wmem (cw s) v))"
  define k where "k = (workers s ! i)\<lparr>wk_chan := wk_chan (workers s ! i) @ [v]\<rparr>"
  have s': "s' = s\<lparr>rd_hold := None, workers := (workers s)[i := k]\<rparr>"
    using assms(2) v by (auto simp: sh_put_def Let_def i_def k_def split: if_splits)
  have r: "route_inv s" "shape_inv s" using assms(1) by (simp_all add: pinv_def)
  have i: "i < length (workers s)" using r(2) shuffle_index_less [of "workers s"] by (simp add: i_def shape_inv_def)
  have wk: "wk_waiting k = wk_waiting (workers s ! i) @ [v]" "wk_all k = wk_all (workers s ! i) @ [v]" by (simp_all add: k_def wk_waiting_def wk_all_def)
  have up: "upstream s = v # upstream s'" by (simp add: upstream_def s' v)
  have nd: "\<not> rd_done s" "plan_reader (plan s) \<noteq> SoloWorker" using r(2) v by (auto simp: shape_inv_def)
  have "route_inv s'"
  proof (rule route_inv_move [OF r(1)])
    show "routed s'" by (rule routed_update [OF route_inv_routed [OF r(1)], of _ i k]) (auto simp: s' wk(1) i_def)
    show "of_metric m (map (item_of (wmem (cw s))) (route s' m)) = of_metric m (map (item_of (wmem (cw s))) (route s m))" for m
      using i by (cases "Metric (wmem (cw s) v) = m") (auto simp: route_def up s' wk(1) nth_list_update item_of_def i_def)
    show "mset (inhouse s') = mset (inhouse s)"
      using mset_all_update [OF i, of k "{#v#}"] wk(2) by (simp add: inhouse_def up) (simp add: s')
  qed (simp_all add: s')
  moreover have "shape_inv s'"
    by (rule shape_inv_update [OF r(2), of _ i k]) (use r(2) nd nth_mem [OF i] in \<open>auto simp: s' k_def shape_inv_def\<close>)
  ultimately show ?thesis by (simp add: pinv_def)
qed

lemma pinv_wk_take:
  assumes "pinv s" "wk_take i s = Some s'" shows "pinv s'"
proof -
  from assms(2) obtain v vs where i: "i < length (workers s)" and v: "wk_chan (workers s ! i) = v # vs" "wk_task (workers s ! i) = Idle" "\<not> wk_stopped (workers s ! i)"
    and s': "s' = s\<lparr>workers := (workers s)[i := (workers s ! i)\<lparr>wk_chan := vs, wk_task := Storing v\<rparr>]\<rparr>"
    by (auto simp: wk_take_def Let_def split: if_splits list.splits)
  define k where "k = (workers s ! i)\<lparr>wk_chan := vs, wk_task := Storing v\<rparr>"
  have r: "route_inv s" "shape_inv s" using assms(1) by (simp_all add: pinv_def)
  have wk: "wk_waiting k = wk_waiting (workers s ! i)" "wk_all k = wk_all (workers s ! i)" by (simp_all add: k_def wk_waiting_def wk_all_def v)
  have up: "upstream s' = upstream s" by (simp add: upstream_def s')
  have "route_inv s'"
  proof (rule route_inv_move [OF r(1)])
    show "routed s'" by (rule routed_update [OF route_inv_routed [OF r(1)], of _ i k]) (auto simp: s' wk(1) simp flip: k_def)
    show "of_metric m (map (item_of (wmem (cw s))) (route s' m)) = of_metric m (map (item_of (wmem (cw s))) (route s m))" for m
      using route_update [of s' s i k m] i up wk(1) by (auto simp: s' route_def simp flip: k_def)
    show "mset (inhouse s') = mset (inhouse s)"
      using mset_all_update [OF i, of k "{#}"] wk(2) by (simp add: inhouse_def up) (simp add: s' flip: k_def)
  qed (simp_all add: s')
  moreover have "shape_inv s'"
    by (rule shape_inv_update [OF r(2), of _ i k])
      (use r(2) v solo_chan [OF r(2) i] in \<open>auto simp: s' k_def shape_inv_def simp del: split_paired_Ex not_None_eq\<close>)
  ultimately show ?thesis by (simp add: pinv_def)
qed

lemma pinv_wk_store:
  assumes "pinv s" "wk_store matches env i s = Some s'" shows "pinv s'"
proof -
  define old where "old = workers s ! i"
  from assms(2) obtain v p acts where i: "i < length (workers s)" and v: "wk_task old = Storing v"
    and st: "whisper_store matches env (wmem (cw s)) v (pers s) = (p, acts)"
    and s': "s' = s\<lparr>pers := p, files := files s @ updates_of acts, slog := slog s @ [(updates_of acts \<noteq> [], item_of (wmem (cw s)) v)],
             workers := (workers s)[i := old\<lparr>wk_task := Confirming v\<rparr>]\<rparr>"
    by (auto simp: wk_store_def Let_def old_def split: if_splits wk_task.splits prod.splits)
  define k where "k = old\<lparr>wk_task := Confirming v\<rparr>"
  have r: "route_inv s" "shape_inv s" using assms(1) by (simp_all add: pinv_def)
  have wait: "wk_waiting old = v # wk_waiting k" by (simp add: k_def wk_waiting_def v)
  have ix: "shuffle_index (length (workers s)) (Metric (wmem (cw s) v)) = i"
    using route_inv_routed [OF r(1)] i wait by (simp add: routed_def flip: old_def)
  have up: "upstream s' = upstream s" by (simp add: upstream_def s')
  have s'w: "workers s' = (workers s)[i := k]" "cw s' = cw s" by (simp_all add: s' k_def)
  note ru = route_update [OF s'w(1) up i]
  have live: "\<not> wk_stopped old" using v worker_not_stopped [OF r(2) i] by (simp add: old_def wk_all_def wk_waiting_def)
  have "route_inv s'"
  proof (rule route_inv_store [OF r(1)])
    show "slog s' = slog s @ [(updates_of acts \<noteq> [], item_of (wmem (cw s)) v)]" by (simp add: s')
    show "routed s'" by (rule routed_update [OF route_inv_routed [OF r(1)] s'w(1)]) (use wait s'w(2) in \<open>auto simp flip: old_def\<close>)
    show "route s (Metric (wmem (cw s) v)) = v # route s' (Metric (wmem (cw s) v))" using wait by (simp add: ru ix) (simp add: route_def ix flip: old_def)
    show "of_metric m (map (item_of (wmem (cw s))) (route s' m)) = of_metric m (map (item_of (wmem (cw s))) (route s m))"
      if "m \<noteq> Metric (wmem (cw s) v)" for m
      using wait that by (simp add: ru) (simp add: route_def item_of_def flip: old_def)
    show "mset (inhouse s') = mset (inhouse s)"
      using mset_all_update [OF i, of k "{#}"] wait v by (simp add: inhouse_def up s'w(1) wk_all_def flip: old_def) (simp add: k_def)
  qed (simp add: s'w)
  moreover have "has_confirm p" using r(2) store_config [of "pers s" matches env "wmem (cw s)" v] st by (simp add: shape_inv_def same_config_def)
  then have "shape_inv s'"
    by - (rule shape_inv_update [OF r(2) s'w(1)], use live solo_chan [OF r(2) i] in \<open>simp_all add: s' k_def old_def\<close>)
  ultimately show ?thesis by (simp add: pinv_def)
qed

lemma pinv_wk_confirm:
  assumes "pinv s" "wk_confirm i s = Some s'" shows "pinv s'"
proof -
  define old where "old = workers s ! i"
  from assms(2) obtain v w where i: "i < length (workers s)" and v: "wk_task old = Confirming v" and c: "env_confirm v (cw s) = Some w"
    and s': "s' = s\<lparr>cw := w, workers := (workers s)[i := old\<lparr>wk_task := Idle\<rparr>]\<rparr>"
    by (auto simp: wk_confirm_def Let_def old_def split: if_splits option.splits wk_task.splits)
  define k where "k = old\<lparr>wk_task := Idle\<rparr>"
  have r: "route_inv s" "shape_inv s" using assms(1) by (simp_all add: pinv_def)
  have wk: "wk_waiting k = wk_waiting old" "wk_all old = v # wk_all k" by (simp_all add: k_def wk_waiting_def wk_all_def v)
  have s'w: "workers s' = (workers s)[i := k]" "upstream s' = upstream s" by (simp_all add: s' k_def upstream_def)
  have "route_inv s'"
  proof (rule route_inv_confirm [OF r(1) c])
    show "routed s'" by (rule routed_update [OF route_inv_routed [OF r(1)] s'w(1)]) (use env_confirm_Some(1) [OF c] wk(1) in \<open>auto simp: s' old_def\<close>)
    show "route s' m = route s m" for m using route_update [OF s'w i, of m] wk(1) by (simp add: route_def old_def)
    show "mset (inhouse s') + {#v#} = mset (inhouse s)"
      using mset_workers_update [OF i, of wk_all k] wk(2) by (simp add: inhouse_def s'w flip: old_def)
  qed (simp_all add: s')
  moreover have "\<not> wk_stopped old" using worker_not_stopped [OF r(2) i] wk(2) by (simp add: old_def)
  then have "shape_inv s'"
    by - (rule shape_inv_update [OF r(2) s'w(1)], use r(2) solo_chan [OF r(2) i] in \<open>simp_all add: s' k_def old_def shape_inv_def\<close>)
  ultimately show ?thesis by (simp add: pinv_def)
qed

lemma pinv_wk_exit:
  assumes "pinv s" "wk_exit i s = Some s'" shows "pinv s'"
proof -
  define k where "k = (workers s ! i)\<lparr>wk_stopped := True\<rparr>"
  from assms(2) have i: "i < length (workers s)" and k: "wk_chan (workers s ! i) = []" "wk_task (workers s ! i) = Idle" "rd_done s" "plan_reader (plan s) \<noteq> SoloWorker"
    and s': "s' = s\<lparr>workers := (workers s)[i := k]\<rparr>"
    by (auto simp: wk_exit_def Let_def k_def split: if_splits)
  have r: "route_inv s" "shape_inv s" using assms(1) by (simp_all add: pinv_def)
  have wk: "wk_waiting k = wk_waiting (workers s ! i)" "wk_all k = wk_all (workers s ! i)" "wk_all k = []" by (simp_all add: k_def wk_waiting_def wk_all_def k(1,2))
  have s'w: "workers s' = (workers s)[i := k]" "upstream s' = upstream s" by (simp_all add: s' upstream_def)
  have "route_inv s'"
  proof (rule route_inv_move [OF r(1)])
    show "routed s'" by (rule routed_update [OF route_inv_routed [OF r(1)] s'w(1)]) (simp_all add: s' wk(1))
    show "of_metric m (map (item_of (wmem (cw s))) (route s' m)) = of_metric m (map (item_of (wmem (cw s))) (route s m))" for m
      using route_update [OF s'w i, of m] wk(1) by (simp add: route_def)
    show "mset (inhouse s') = mset (inhouse s)" using mset_all_update [OF i, of k "{#}"] wk(2) by (simp add: inhouse_def s'w)
  qed (simp_all add: s')
  moreover have "shape_inv s'"
    by (rule shape_inv_update [OF r(2) s'w(1)]) (use r(2) k wk(3) in \<open>simp_all add: s' shape_inv_def\<close>)
  ultimately show ?thesis by (simp add: pinv_def)
qed

lemmas pinv_steps = pinv_cache pinv_tick pinv_thr_take pinv_thr_put pinv_thr_exit pinv_sh_take pinv_sh_put pinv_sh_exit pinv_solo_take pinv_solo_exit
  pinv_wk_take pinv_wk_store pinv_wk_confirm pinv_wk_exit pinv_stop

lemma pinv_pstep: "pstep matches s s' \<Longrightarrow> pinv s \<Longrightarrow> pinv s'"
  by (induction rule: pstep.induct) (auto intro: pinv_steps)

lemma pinv_start:
  assumes "started w" "has_confirm p"
  shows "pinv (persister_start w p)"
proof -
  let ?s = "persister_start w p"
  obtain N where n: "workers ?s = replicate N new_worker" "N \<noteq> 0" by (auto simp: persister_start_def Whisper_Start_def)
  have w: "wk_all new_worker = []" "wk_waiting new_worker = []" by (simp_all add: new_worker_def wk_all_def wk_waiting_def)
  have wi: "wk_waiting (workers ?s ! i) = []" if "i < length (workers ?s)" for i using w(2) that by (simp add: n(1))
  have all: "concat (map wk_all (workers ?s)) = []" using w(1) by (simp add: n(1))
  have ne: "workers ?s \<noteq> []" using n(2) by (simp add: n(1))
  have g: "wgiven w = []" "delivered (hist w) = []" using assms(1) by (auto simp: started_def Cache_Start_def Let_def case_prod_beta)
  have up: "upstream ?s = []" by (simp add: persister_start_def upstream_def)
  have rt: "route ?s m = []" for m using wi [OF shuffle_index_less [OF ne]] up by (simp add: route_def)
  have "route_inv ?s"
    unfolding route_inv_def inhouse_def up all rt using started_given [OF assms(1)] wi g by (simp add: persister_start_def)
  moreover have "shape_inv ?s"
    using assms(2) ne by (auto simp: shape_inv_def persister_start_def Whisper_Start_def new_worker_def wk_all_def wk_waiting_def split: reader.splits)
  ultimately show ?thesis by (simp add: pinv_def)
qed

interpretation persister_sys: invariant_system pstarted "pstep matches" pinv
  by unfold_locales (auto simp: pstarted_def intro: pinv_start pinv_pstep)

section \<open>Files\<close>

definition file_inv :: "('r, 't) Whisper \<Rightarrow> ('r, 't) psys \<Rightarrow> bool" where
  "file_inv p s \<longleftrightarrow> same_config p (pers s)
     \<and> files s = map (\<lambda>(ready, m, ds). (wsp_path (rootPath p) m, map (\<lambda>d. (Timestamp d, Value d)) ds)) (filter fst (slog s))"

text \<open>Only a store touches the files and the counters of the persister.\<close>

lemma take_output_frame: "take_output s = Some (v, s1) \<Longrightarrow> pers s1 = pers s \<and> files s1 = files s \<and> slog s1 = slog s"
  by (auto elim: take_output_Some)

lemma reader_recv_frame: "reader_recv s = Some (v, s1) \<Longrightarrow> pers s1 = pers s \<and> files s1 = files s \<and> slog s1 = slog s"
  by (auto elim: reader_recv_cases)

lemma pstep_store_frame:
  assumes "pstep matches s s'" "\<And>env i. wk_store matches env i s \<noteq> Some s'"
  shows "pers s' = pers s \<and> files s' = files s \<and> slog s' = slog s"
  using assms
proof (cases rule: pstep.cases)
  case p_thr_take
  then show ?thesis by (auto simp: thr_take_def dest: take_output_frame split: if_splits option.splits)
next
  case p_sh_take
  then show ?thesis by (auto simp: sh_take_def dest: reader_recv_frame split: if_splits option.splits)
next
  case p_solo_take
  then show ?thesis by (auto simp: solo_take_def Let_def dest: reader_recv_frame split: if_splits option.splits)
qed (auto simp: thr_tick_def thr_put_def thr_exit_def sh_put_def sh_exit_def solo_exit_def wk_take_def wk_confirm_def wk_exit_def Let_def
       split: if_splits option.splits list.splits wk_task.splits)

lemma file_inv_store:
  assumes "wk_store matches env i s = Some s'" "file_inv p s"
  shows "file_inv p s'"
proof -
  from assms(1) obtain v q acts k where st: "whisper_store matches env (wmem (cw s)) v (pers s) = (q, acts)"
    and s': "s' = s\<lparr>pers := q, files := files s @ updates_of acts, slog := slog s @ [(updates_of acts \<noteq> [], item_of (wmem (cw s)) v)], workers := k\<rparr>"
    by (auto simp: wk_store_def Let_def split: if_splits wk_task.splits prod.splits)
  have c: "same_config p (pers s)" "same_config (pers s) q" using assms(2) store_config [of "pers s" matches env "wmem (cw s)" v] st by (simp_all add: file_inv_def)
  then have "same_config p q" by (rule same_config_trans)
  moreover have "updates_of acts = (if file_ready matches (pers s) env (Metric (wmem (cw s) v)) then [file_update (pers s) (wmem (cw s) v)] else [])"
    using store_updates [of matches env "wmem (cw s)" v "pers s"] st by simp
  moreover have "rootPath (pers s) = rootPath p" using c(1) by (simp add: same_config_def)
  ultimately show ?thesis using assms(2) by (simp add: file_inv_def s' file_update_def item_of_def)
qed

interpretation files_sys: invariant_system "\<lambda>s. \<exists>w. s = persister_start w p" "pstep matches" "file_inv p"
proof
  show "file_inv p s" if "\<exists>w. s = persister_start w p" for s using that by (auto simp: file_inv_def persister_start_def)
  show "file_inv p s'" if "file_inv p s" "pstep matches s s'" for s s'
  proof (cases "\<exists>env i. wk_store matches env i s = Some s'")
    case True
    then show ?thesis using file_inv_store that(1) by blast
  next
    case False
    then show ?thesis using pstep_store_frame [OF that(2)] that(1) by (auto simp: file_inv_def)
  qed
qed

section \<open>Projections\<close>

lemma pstep_cw: "pstep matches s s' \<Longrightarrow> cw s' = cw s \<or> wstep (cw s) (cw s')"
  by (induction rule: pstep.induct)
    (auto simp: thr_tick_def thr_take_def thr_put_def thr_exit_def sh_take_def sh_put_def sh_exit_def solo_take_def solo_exit_def wk_take_def wk_store_def
      wk_confirm_def wk_exit_def Let_def split: if_splits option.splits list.splits wk_task.splits prod.splits
      elim!: take_output_Some reader_recv_cases dest: env_persist_Some(4) env_confirm_Some(4))

lemma pstep_reachable: "reachable pstarted (pstep matches) s \<Longrightarrow> reachable started wstep (cw s)"
proof (induction rule: reachable.induct)
  case (reachable_init s)
  then show ?case by (auto simp: pstarted_def persister_start_def intro: reachable.reachable_init)
next
  case (reachable_step s t)
  then show ?case using pstep_cw [of matches s t] by (auto intro: reachable.reachable_step)
qed

end
