(* ===== verification/Persister_System_Props.thy ===== *)
theory Persister_System_Props
  imports Persister_System
begin

text \<open>
  What holds of the cache and the persister together, in every interleaving of their goroutines: from the message that the cache accepts to the update of
  a file, no point is lost, repeated or reordered; what a file has received is a prefix of what was accepted for its metric; a persister that has stopped
  has stored and confirmed everything it took; and a stop can always complete.
\<close>

section \<open>Running systems\<close>

definition system_start :: "('r, 't) Whisper \<Rightarrow> ('r, 't) psys \<Rightarrow> bool" where
  "system_start p s \<longleftrightarrow> has_confirm p \<and> (\<exists>w. started w \<and> s = persister_start w p)"

lemma reachable_mono: "reachable i st s \<Longrightarrow> (\<And>x. i x \<Longrightarrow> j x) \<Longrightarrow> reachable j st s"
  by (induction rule: reachable.induct) (auto intro: reachable.intros)

lemma system_pinv: "reachable (system_start p) (pstep matches) s \<Longrightarrow> pinv s"
  by (rule persister_sys.inv_reachable [of matches], erule reachable_mono) (auto simp: system_start_def pstarted_def)

lemma system_files: "reachable (system_start p) (pstep matches) s \<Longrightarrow> file_inv p s"
  by (rule files_sys.inv_reachable [of p matches], erule reachable_mono) (auto simp: system_start_def)

lemma system_cache: "reachable (system_start p) (pstep matches) s \<Longrightarrow> reachable started wstep (cw s)"
  by (rule pstep_reachable [of matches], erule reachable_mono) (auto simp: system_start_def pstarted_def)

lemma system_flow:
  assumes "reachable (system_start p) (pstep matches) s"
  shows "of_metric m (accepted (hist (cw s))) = of_metric m (map snd (slog s))
    @ of_metric m (map (item_of (wmem (cw s))) (route s m @ pipeline (cw s))) @ elems (contents (wmem (cw s)) (wcache (cw s)) m)"
proof -
  have "of_metric m (delivered (hist (cw s))) = of_metric m (map snd (slog s)) @ of_metric m (map (item_of (wmem (cw s))) (route s m))"
    using system_pinv [OF assms] by (simp add: pinv_def route_inv_def)
  moreover have "flow_inv (cw s)" using cache_sys.inv_reachable [OF system_cache [OF assms]] by (simp add: winv_def)
  ultimately show ?thesis by (simp add: flow_inv_def)
qed

text \<open>What the file of a metric received, when every store could write and distinct metrics have distinct files.\<close>

lemma file_of_metric:
  assumes "rp \<noteq> []" "wf_metric m" "\<forall>x \<in> set L. fst x \<and> wf_metric (fst (snd x))"
  shows "concat (map snd (filter (\<lambda>u. fst u = wsp_path rp m)
      (map (\<lambda>(ready, m, ds). (wsp_path rp m, map (\<lambda>d. (Timestamp d, Value d)) ds)) (filter fst L))))
    = map (\<lambda>d. (Timestamp d, Value d)) (of_metric m (map snd L))"
  using assms(3)
proof (induction L)
  case (Cons x L)
  obtain b k ds where x: "x = (b, k, ds)" by (cases x) auto
  with Cons.prems have "b" "wf_metric k" by simp_all
  from wsp_path_inj [OF assms(1) this(2) assms(2)] this(1) Cons show ?case by (simp add: x)
qed simp

section \<open>Stopping\<close>

definition all_ended :: "('r, 't) psys \<Rightarrow> bool" where
  "all_ended s \<longleftrightarrow> (\<forall>k \<in> set (workers s). wk_stopped k)"

lemma ended_empty:
  assumes "shape_inv s" "all_ended s"
  shows "inhouse s = [] \<and> rd_done s \<and> (throttled (plan s) \<noteq> None \<longrightarrow> thr_closed s)"
proof -
  have k: "wk_stopped k \<longrightarrow> rd_done s \<and> wk_all k = []" if "k \<in> set (workers s)" for k using assms(1) that by (simp add: shape_inv_def)
  have "workers s \<noteq> []" using assms(1) by (simp add: shape_inv_def)
  then have "hd (workers s) \<in> set (workers s)" by simp
  with k assms(2) have d: "rd_done s" by (auto simp: all_ended_def)
  have "concat (map wk_all (workers s)) = []" using k assms(2) by (auto simp: all_ended_def)
  moreover have "upstream s = []" using assms(1) d by (cases "throttled (plan s)") (simp_all add: shape_inv_def upstream_def)
  ultimately show ?thesis using assms(1) d by (simp add: inhouse_def shape_inv_def)
qed

text \<open>
  The weight of what a stopping persister still has to do: a message counts the more the farther it is from being confirmed, and so does every goroutine
  that has not returned.
\<close>

definition wk_weight :: "worker \<Rightarrow> nat" where
  "wk_weight k = 3 * length (wk_chan k) + (case wk_task k of Idle \<Rightarrow> 0 | Storing v \<Rightarrow> 2 | Confirming v \<Rightarrow> 1) + (if wk_stopped k then 0 else 1)"

definition weight :: "('r, 't) psys \<Rightarrow> nat" where
  "weight s = sum_list (map wk_weight (workers s)) + 4 * length (opt_list (rd_hold s)) + 5 * length (thr_out s) + 6 * length (opt_list (thr_hold s))
     + (if thr_closed s then 0 else 1) + (if rd_done s then 0 else 1)"

text \<open>The confirmation channel never holds more than fits.\<close>

definition conf_bounded :: "world \<Rightarrow> bool" where
  "conf_bounded w \<longleftrightarrow> length (buffered (confChan w)) \<le> capacity (confChan w)"

lemma conf_bounded_wstep: "wstep w w' \<Longrightarrow> conf_bounded w \<Longrightarrow> conf_bounded w' \<and> capacity (outChan w') = capacity (outChan w) \<and> capacity (confChan w') = capacity (confChan w)"
proof (induction rule: wstep.induct)
  case (t_confirm w w')
  then show ?case by (auto simp: trk_confirm_def conf_bounded_def split: if_splits list.splits)
next
  case (e_confirm v w w')
  then show ?case by (auto simp: env_confirm_def conf_bounded_def room_def split: if_splits)
qed (auto simp: main_top_def Let_def sel_query_def forward_query_def sel_send_def sel_input_def sel_exit_def trk_out_def trk_query_def
      trk_exit_def env_input_def env_persist_def env_query_def env_stop_def conf_bounded_def split: if_splits sum.splits list.splits option.splits wpc.splits prod.splits)

interpretation conf_sys: invariant_system started wstep conf_bounded
proof
  show "conf_bounded w" if "started w" for w
    using that by (auto simp: started_def Cache_Start_def Cache_In_def Cache_Out_def conf_bounded_def Let_def split: option.splits)
  show "conf_bounded w'" if "conf_bounded w" "wstep w w'" for w w' using conf_bounded_wstep [OF that(2,1)] by blast
qed

lemma conf_bounded_system: "pstep matches s s' \<Longrightarrow> conf_bounded (cw s) \<Longrightarrow> conf_bounded (cw s') \<and> capacity (outChan (cw s')) = capacity (outChan (cw s))
    \<and> capacity (confChan (cw s')) = capacity (confChan (cw s))"
  using pstep_cw [of matches s s'] conf_bounded_wstep [of "cw s" "cw s'"] by auto

text \<open>A persister that was told to stop, while the tracker still reads confirmations.\<close>

definition stopping :: "('r, 't) psys \<Rightarrow> bool" where
  "stopping s \<longleftrightarrow> pinv s \<and> pexit s \<and> \<not> tstopped (cw s) \<and> conf_bounded (cw s) \<and> 0 < capacity (confChan (cw s)) \<and> 0 < capacity (outChan (cw s))"

lemma weight_update:
  "i < length ws \<Longrightarrow> sum_list (map wk_weight (ws[i := k])) + wk_weight (ws ! i) = sum_list (map wk_weight ws) + wk_weight k"
  by (induction ws arbitrary: i) (auto split: nat.splits)

lemma weight_worker_less:
  assumes "i < length (workers s)" "workers s' = (workers s)[i := k]" "wk_weight k < wk_weight (workers s ! i)"
    "rd_hold s' = rd_hold s" "thr_out s' = thr_out s" "thr_hold s' = thr_hold s" "thr_closed s' = thr_closed s" "rd_done s' = rd_done s"
  shows "weight s' < weight s"
  using weight_update [OF assms(1), of k] assms(2-) by (simp add: weight_def)

lemma rtranclp_two: "r a b \<Longrightarrow> r b c \<Longrightarrow> r\<^sup>*\<^sup>* a c"
  by (rule rtranclp.rtrancl_into_rtrancl, rule r_into_rtranclp)

lemma progress_confirm:
  assumes "stopping s" "i < length (workers s)" "wk_task (workers s ! i) = Confirming v"
  shows "\<exists>s'. (pstep matches)\<^sup>*\<^sup>* s s' \<and> stopping s' \<and> weight s' < weight s"
proof -
  have direct: "\<exists>s'. pstep matches s s' \<and> stopping s' \<and> weight s' < weight s"
    if st: "stopping s" "i < length (workers s)" "wk_task (workers s ! i) = Confirming v" "room (confChan (cw s))" for s :: "('a, 'b) psys"
  proof -
    have "v \<in> set (inhouse s)" using waiting_inhouse [OF st(2)] st(3) by (auto simp: wk_all_def)
    then have "v \<in> set (wgiven (cw s))" using inhouse_given [of s] st(1) by (simp add: stopping_def pinv_def)
    with st(4) obtain w where c: "env_confirm v (cw s) = Some w" by (simp add: env_confirm_def)
    define s' where "s' = s\<lparr>cw := w, workers := (workers s)[i := (workers s ! i)\<lparr>wk_task := Idle\<rparr>]\<rparr>"
    have e: "wk_confirm i s = Some s'" using st(2,3) c by (simp add: wk_confirm_def Let_def s'_def)
    have "stopping s'" using st(1) pinv_wk_confirm [OF _ e] c conf_bounded_system [OF p_wk_confirm [OF e]]
      by (auto simp: stopping_def s'_def env_confirm_def split: if_splits)
    moreover have "weight s' < weight s"
      by (rule weight_worker_less [OF st(2), of s' "(workers s ! i)\<lparr>wk_task := Idle\<rparr>"]) (simp_all add: s'_def wk_weight_def st(3))
    ultimately show ?thesis using p_wk_confirm [OF e] by blast
  qed
  show ?thesis
  proof (cases "room (confChan (cw s))")
    case True
    from direct [OF assms True] show ?thesis by blast
  next
    case False
    with assms(1) obtain c rest where b: "buffered (confChan (cw s)) = c # rest" by (cases "buffered (confChan (cw s))") (auto simp: room_def stopping_def conf_bounded_def)
    define w where "w = (cw s)\<lparr>confChan := (confChan (cw s))\<lparr>buffered := rest\<rparr>, tracker := nc_confirm (wmem (cw s)) c (tracker (cw s))\<rparr>"
    have t: "trk_confirm (cw s) = Some w" using assms(1) b by (simp add: trk_confirm_def w_def stopping_def)
    have step: "pstep matches s (s\<lparr>cw := w\<rparr>)" by (rule p_cache [OF wstep.t_confirm [OF t]]) (simp add: w_def)
    have "length (buffered (confChan (cw s))) \<le> capacity (confChan (cw s))" using assms(1) by (simp add: stopping_def conf_bounded_def)
    then have "room (confChan (cw (s\<lparr>cw := w\<rparr>)))" using b by (simp add: room_def w_def)
    moreover have "stopping (s\<lparr>cw := w\<rparr>)" using assms(1) pinv_pstep [OF step] conf_bounded_system [OF step] by (simp add: stopping_def w_def)
    ultimately obtain s' where s': "pstep matches (s\<lparr>cw := w\<rparr>) s'" "stopping s'" "weight s' < weight (s\<lparr>cw := w\<rparr>)"
      using direct [of "s\<lparr>cw := w\<rparr>"] assms(2,3) by auto
    have "(pstep matches)\<^sup>*\<^sup>* s s'" using step s'(1) by (rule rtranclp_two)
    moreover have "weight (s\<lparr>cw := w\<rparr>) = weight s" by (simp add: weight_def)
    ultimately show ?thesis using s'(2,3) by auto
  qed
qed

lemma progress_step:
  assumes "stopping s" "pstep matches s s'" "pexit s' = pexit s" "cw s' = cw s" "weight s' < weight s"
  shows "\<exists>s'. (pstep matches)\<^sup>*\<^sup>* s s' \<and> stopping s' \<and> weight s' < weight s"
proof -
  have "stopping s'" using assms(1,3,4) pinv_pstep [OF assms(2)] by (simp add: stopping_def)
  with assms(2,5) show ?thesis by blast
qed

lemma progress_worker:
  assumes "stopping s" "i < length (workers s)" "wk_all (workers s ! i) \<noteq> []"
  shows "\<exists>s'. (pstep matches)\<^sup>*\<^sup>* s s' \<and> stopping s' \<and> weight s' < weight s"
proof (cases "wk_task (workers s ! i)")
  case (Confirming v)
  then show ?thesis by (rule progress_confirm [OF assms(1,2)])
next
  case (Storing v)
  define env where "env = \<lparr>open_res = OpenFailed, mkdir_ok = False, create_ok = False\<rparr>"
  obtain p acts where st: "whisper_store matches env (wmem (cw s)) v (pers s) = (p, acts)" by fastforce
  define k where "k = (workers s ! i)\<lparr>wk_task := Confirming v\<rparr>"
  define s' where "s' = s\<lparr>pers := p, files := files s @ updates_of acts, slog := slog s @ [(updates_of acts \<noteq> [], item_of (wmem (cw s)) v)],
     workers := (workers s)[i := k]\<rparr>"
  have e: "wk_store matches env i s = Some s'" using assms(2) Storing st by (simp add: wk_store_def Let_def s'_def k_def)
  have "weight s' < weight s" by (rule weight_worker_less [OF assms(2), of s' k]) (simp_all add: s'_def k_def wk_weight_def Storing)
  then show ?thesis by (intro progress_step [OF assms(1) p_wk_store [OF e]]) (simp_all add: s'_def)
next
  case Idle
  then obtain v vs where c: "wk_chan (workers s ! i) = v # vs" using assms(3) by (cases "wk_chan (workers s ! i)") (auto simp: wk_all_def wk_waiting_def)
  have live: "\<not> wk_stopped (workers s ! i)" using worker_not_stopped [OF _ assms(2,3)] assms(1) by (simp add: stopping_def pinv_def)
  define k where "k = (workers s ! i)\<lparr>wk_chan := vs, wk_task := Storing v\<rparr>"
  define s' where "s' = s\<lparr>workers := (workers s)[i := k]\<rparr>"
  have e: "wk_take i s = Some s'" using assms(2) Idle c live by (simp add: wk_take_def Let_def s'_def k_def)
  have "weight s' < weight s" by (rule weight_worker_less [OF assms(2), of s' k]) (simp_all add: s'_def k_def wk_weight_def Idle c)
  then show ?thesis by (intro progress_step [OF assms(1) p_wk_take [OF e]]) (simp_all add: s'_def)
qed

text \<open>Workers with nothing to do, and a message before them.\<close>

lemma progress_upstream:
  assumes "stopping s" "\<And>k. k \<in> set (workers s) \<Longrightarrow> wk_all k = []" "upstream s \<noteq> []"
  shows "\<exists>s'. (pstep matches)\<^sup>*\<^sup>* s s' \<and> stopping s' \<and> weight s' < weight s"
proof -
  have sh: "shape_inv s" using assms(1) by (simp add: stopping_def pinv_def)
  have idle: "wk_task k = Idle \<and> wk_chan k = []" if "k \<in> set (workers s)" for k
    using assms(2) [OF that] by (auto simp: wk_all_def wk_waiting_def split: wk_task.splits)
  consider (reader) v where "rd_hold s = Some v" | (out) v vs where "rd_hold s = None" "thr_out s = v # vs" | (hold) v where "rd_hold s = None" "thr_out s = []" "thr_hold s = Some v"
    using assms(3) by (cases "rd_hold s"; cases "thr_out s"; cases "thr_hold s") (auto simp: upstream_def)
  then show ?thesis
  proof cases
    case reader
    define i where "i = shuffle_index (length (workers s)) (Metric (wmem (cw s) v))"
    have i: "i < length (workers s)" using sh shuffle_index_less [of "workers s"] by (simp add: i_def shape_inv_def)
    define k where "k = (workers s ! i)\<lparr>wk_chan := [v]\<rparr>"
    define s' where "s' = s\<lparr>rd_hold := None, workers := (workers s)[i := k]\<rparr>"
    have c: "wk_chan (workers s ! i) = []" "wk_task (workers s ! i) = Idle" using idle nth_mem [OF i] by simp_all
    have e: "sh_put s = Some s'" using reader c by (simp add: sh_put_def Let_def s'_def k_def flip: i_def)
    have "weight s' < weight s" using weight_update [OF i, of k] c reader by (simp add: weight_def s'_def) (simp add: k_def wk_weight_def)
    then show ?thesis by (intro progress_step [OF assms(1) p_sh_put [OF e]]) (simp_all add: s'_def)
  next
    case out
    then have thr: "throttled (plan s) \<noteq> None" "\<not> rd_done s" using sh by (auto simp: shape_inv_def)
    have recv: "reader_recv s = Some (v, s\<lparr>thr_out := vs\<rparr>)" using out thr(1) by (auto simp: reader_recv_def)
    show ?thesis
    proof (cases "plan_reader (plan s) = SoloWorker")
      case True
      have ws: "workers s = [workers s ! 0]" by (rule solo_workers(1) [OF sh True])
      then have "workers s ! 0 \<in> set (workers s)" by (metis list.set_intros(1))
      then have c: "wk_task (workers s ! 0) = Idle" "wk_chan (workers s ! 0) = []" "\<not> wk_stopped (workers s ! 0)" using idle sh thr(2) by (auto simp: shape_inv_def)
      define k where "k = (workers s ! 0)\<lparr>wk_task := Storing v\<rparr>"
      define s' where "s' = s\<lparr>thr_out := vs, workers := (workers s)[0 := k]\<rparr>"
      have e: "solo_take s = Some s'" using True c recv by (simp add: solo_take_def Let_def s'_def k_def)
      have i: "0 < length (workers s)" using sh by (simp add: shape_inv_def)
      have "weight s' < weight s" using weight_update [OF i, of k] c out by (simp add: weight_def s'_def) (simp add: k_def wk_weight_def)
      then show ?thesis by (intro progress_step [OF assms(1) p_solo_take [OF e]]) (simp_all add: s'_def)
    next
      case False
      define s' where "s' = s\<lparr>thr_out := vs, rd_hold := Some v\<rparr>"
      have e: "sh_take s = Some s'" using False out(1) thr(2) recv by (simp add: sh_take_def s'_def)
      have "weight s' < weight s" using out by (simp add: weight_def s'_def)
      then show ?thesis by (intro progress_step [OF assms(1) p_sh_take [OF e]]) (simp_all add: s'_def)
    qed
  next
    case hold
    define s' where "s' = s\<lparr>thr_out := [v], thr_hold := None, thr_left := thr_left s - 1\<rparr>"
    have e: "thr_put s = Some s'" using hold assms(1) by (simp add: thr_put_def s'_def stopping_def)
    have "weight s' < weight s" using hold by (simp add: weight_def s'_def)
    then show ?thesis by (intro progress_step [OF assms(1) p_thr_put [OF e]]) (simp_all add: s'_def)
  qed
qed

text \<open>Nothing left to move: the goroutines return one after the other.\<close>

lemma progress_exit:
  assumes "stopping s" "\<And>k. k \<in> set (workers s) \<Longrightarrow> wk_all k = []" "upstream s = []" "\<not> all_ended s"
  shows "\<exists>s'. (pstep matches)\<^sup>*\<^sup>* s s' \<and> stopping s' \<and> weight s' < weight s"
proof -
  have sh: "shape_inv s" and pe: "pexit s" using assms(1) by (simp_all add: stopping_def pinv_def)
  have up: "rd_hold s = None" "thr_out s = []" "thr_hold s = None" using assms(3) by (auto simp: upstream_def opt_list_def split: option.splits)
  from assms(4) obtain i where i: "i < length (workers s)" "\<not> wk_stopped (workers s ! i)" by (auto simp: all_ended_def in_set_conv_nth)
  have c: "wk_task (workers s ! i) = Idle" "wk_chan (workers s ! i) = []"
    using assms(2) [OF nth_mem [OF i(1)]] by (auto simp: wk_all_def wk_waiting_def split: wk_task.splits)
  define k where "k = (workers s ! i)\<lparr>wk_stopped := True\<rparr>"
  have wk: "sum_list (map wk_weight ((workers s)[i := k])) + wk_weight (workers s ! i) = sum_list (map wk_weight (workers s)) + wk_weight k" "wk_weight k < wk_weight (workers s ! i)"
    using weight_update [OF i(1), of k] i(2) by (simp_all add: k_def wk_weight_def)
  consider (throttle) "throttled (plan s) \<noteq> None" "\<not> thr_closed s" | (ends) "reader_ends s"
  proof -
    have "reader_exits (plan s) = (throttled (plan s) = None)" using sh by (simp add: shape_inv_def)
    then have "\<not> thr_closed s \<and> throttled (plan s) \<noteq> None \<or> reader_ends s" using pe up(2) by (auto simp: reader_ends_def)
    then show thesis using that by blast
  qed
  then show ?thesis
  proof cases
    case throttle
    define s' where "s' = s\<lparr>thr_closed := True\<rparr>"
    have e: "thr_exit s = Some s'" using throttle pe up(3) by (auto simp: thr_exit_def s'_def)
    have "weight s' < weight s" using throttle by (simp add: weight_def s'_def)
    then show ?thesis by (intro progress_step [OF assms(1) p_thr_exit [OF e]]) (simp_all add: s'_def)
  next
    case ends
    consider (solo) "plan_reader (plan s) = SoloWorker" | (shuffler) "plan_reader (plan s) \<noteq> SoloWorker" "\<not> rd_done s"
      | (worker) "plan_reader (plan s) \<noteq> SoloWorker" "rd_done s" by blast
    then show ?thesis
    proof cases
      case solo
      then have "i = 0" using sh i(1) by (simp add: shape_inv_def)
      define s' where "s' = s\<lparr>rd_done := True, workers := (workers s)[i := k]\<rparr>"
      have e: "solo_exit s = Some s'" using solo ends i c by (simp add: solo_exit_def Let_def s'_def k_def \<open>i = 0\<close>)
      have "weight s' < weight s" using wk by (simp add: weight_def s'_def)
      then show ?thesis by (intro progress_step [OF assms(1) p_solo_exit [OF e]]) (simp_all add: s'_def)
    next
      case shuffler
      define s' where "s' = s\<lparr>rd_done := True\<rparr>"
      have e: "sh_exit s = Some s'" using shuffler ends up(1) by (simp add: sh_exit_def s'_def)
      have "weight s' < weight s" using shuffler by (simp add: weight_def s'_def)
      then show ?thesis by (intro progress_step [OF assms(1) p_sh_exit [OF e]]) (simp_all add: s'_def)
    next
      case worker
      define s' where "s' = s\<lparr>workers := (workers s)[i := k]\<rparr>"
      have e: "wk_exit i s = Some s'" using worker i c by (simp add: wk_exit_def Let_def s'_def k_def)
      have "weight s' < weight s" using wk by (simp add: weight_def s'_def)
      then show ?thesis by (intro progress_step [OF assms(1) p_wk_exit [OF e]]) (simp_all add: s'_def)
    qed
  qed
qed

lemma progress:
  assumes "stopping s" "\<not> all_ended s"
  shows "\<exists>s'. (pstep matches)\<^sup>*\<^sup>* s s' \<and> stopping s' \<and> weight s' < weight s"
proof (cases "\<forall>k \<in> set (workers s). wk_all k = []")
  case True
  then show ?thesis using progress_upstream [OF assms(1)] progress_exit [OF assms(1) _ _ assms(2)] by (cases "upstream s = []") blast+
next
  case False
  then show ?thesis using progress_worker [OF assms(1)] by (auto simp: in_set_conv_nth)
qed

lemma stopping_ends: "stopping s \<Longrightarrow> \<exists>s'. (pstep matches)\<^sup>*\<^sup>* s s' \<and> all_ended s'"
proof (induction s rule: measure_induct_rule [of weight])
  case (less s)
  show ?case
  proof (cases "all_ended s")
    case False
    with progress [OF less.prems] obtain s1 where s1: "(pstep matches)\<^sup>*\<^sup>* s s1" "stopping s1" "weight s1 < weight s" by blast
    with less.IH [OF s1(3,2)] show ?thesis by (meson rtranclp_trans)
  qed blast
qed

section \<open>A history for the witnesses\<close>

definition sample_w6 :: world where
  "sample_w6 = the (trk_out sample_w5)"

definition sample_s0 :: "(unit, unit) psys" where
  "sample_s0 = persister_start (Cache_Start sample_mem {} Cache_New) demo_whisper"

definition sample_s7 :: "(unit, unit) psys" where
  "sample_s7 = the (solo_take (sample_s0\<lparr>cw := sample_w6\<rparr>))"

definition sample_s8 :: "(unit, unit) psys" where
  "sample_s8 = the (wk_store (\<lambda>_ _. True) demo_env 0 sample_s7)"

lemmas sample_world_defs = sample_w6_def sample_w5_def sample_w4_def sample_w3_def sample_w2_def sample_w1_def trk_out_def

lemma sample_w6_eval: "trk_out sample_w5 = Some sample_w6"
  by (simp add: sample_world_defs world_eval)

lemma sample_given: "wgiven (Cache_Start sample_mem {} Cache_New) = []" "wgiven sample_w1 = []" "wgiven sample_w2 = []" "wgiven sample_w3 = []"
  "wgiven sample_w4 = []" "wgiven sample_w5 = []" "wgiven sample_w6 = []"
  by (simp_all add: sample_world_defs world_eval)

lemma sample_w6_facts: "buffered (outChan sample_w6) = [0]" "wmem sample_w6 0 = OnePoint ''a'' 1 10" "accepted (hist sample_w6) = [(''a'', [\<lparr>Value = 1, Timestamp = 10\<rparr>])]"
  "tstopped sample_w6 = False" "confChan sample_w6 = \<lparr>capacity = 2048, buffered = []\<rparr>" "capacity (outChan sample_w6) = 1024"
  by (simp_all add: sample_world_defs world_eval)

lemma sample_start: "system_start demo_whisper sample_s0"
proof -
  have "started (Cache_Start sample_mem {} Cache_New)"
    unfolding started_def by (intro exI [of _ sample_mem] exI [of _ "{}"] exI [of _ Cache_New] conjI inv_New) (simp_all add: Cache_New_def)
  then show ?thesis by (auto simp: system_start_def sample_s0_def demo_whisper_def NewWhisper_def)
qed

text \<open>The cache's own steps, before the persister takes anything.\<close>

lemma system_cache_step:
  assumes "reachable (system_start p) (pstep matches) (s\<lparr>cw := w\<rparr>)" "wstep w w'" "wgiven w' = wgiven w"
  shows "reachable (system_start p) (pstep matches) (s\<lparr>cw := w'\<rparr>)"
  using reachable_step [OF assms(1) p_cache [of "s\<lparr>cw := w\<rparr>" w' matches]] assms(2,3) by simp

lemma sample_s6_reachable: "reachable (system_start demo_whisper) (pstep matches) (sample_s0\<lparr>cw := sample_w6\<rparr>)"
proof -
  let ?R = "\<lambda>w. reachable (system_start demo_whisper) (pstep matches) (sample_s0\<lparr>cw := w\<rparr>)"
  have "sample_s0\<lparr>cw := Cache_Start sample_mem {} Cache_New\<rparr> = sample_s0" by (simp add: sample_s0_def persister_start_def)
  then have "?R (Cache_Start sample_mem {} Cache_New)" using reachable_init [of "system_start demo_whisper", OF sample_start] by simp
  then have "?R sample_w1" by (rule system_cache_step [OF _ wstep.e_input [OF sample_w1_eval]]) (simp add: sample_given)
  then have "?R sample_w2" by (rule system_cache_step [OF _ wstep.top [OF _ sample_w2_eval(1)]]) (simp_all add: sample_given sample_w2_eval(2) sample_env_def)
  then have "?R sample_w3" by (rule system_cache_step [OF _ wstep.input [OF sample_w3_eval]]) (simp add: sample_given)
  then have "?R sample_w4"
    by (rule system_cache_step [OF _ wstep.top [OF _ sample_w4_eval(1)]]) (simp_all add: sample_given sample_w4_eval(2) sample_env_def visits_def)
  then have "?R sample_w5" by (rule system_cache_step [OF _ wstep.send [OF sample_w5_eval]]) (simp add: sample_given)
  then show "?R sample_w6" by (rule system_cache_step [OF _ wstep.t_out [OF sample_w6_eval]]) (simp add: sample_given)
qed

lemmas sample_s_defs = sample_s0_def persister_start_def Whisper_Start_def demo_whisper_def NewWhisper_def solo_take_def reader_recv_def take_output_def
  env_persist_def new_worker_def Let_def

lemma sample_s7_eval: "solo_take (sample_s0\<lparr>cw := sample_w6\<rparr>) = Some sample_s7"
  "workers sample_s7 = [\<lparr>wk_chan = [], wk_task = Storing 0, wk_stopped = False\<rparr>]" "wmem (cw sample_s7) 0 = OnePoint ''a'' 1 10" "pers sample_s7 = demo_whisper"
  "slog sample_s7 = []" "accepted (hist (cw sample_s7)) = [(''a'', [\<lparr>Value = 1, Timestamp = 10\<rparr>])]" "pexit sample_s7 = False" "tstopped (cw sample_s7) = False"
  "confChan (cw sample_s7) = \<lparr>capacity = 2048, buffered = []\<rparr>" "capacity (outChan (cw sample_s7)) = 1024"
  by (simp_all add: sample_s7_def sample_s_defs sample_w6_facts)

lemma sample_store: "wk_store (\<lambda>_ _. True) demo_env 0 sample_s7 = Some sample_s8"
  by (simp add: sample_s8_def wk_store_def sample_s7_eval Let_def split: prod.splits)

lemma sample_s8_facts: "slog sample_s8 = [(True, ''a'', [\<lparr>Value = 1, Timestamp = 10\<rparr>])]" "accepted (hist (cw sample_s8)) = [(''a'', [\<lparr>Value = 1, Timestamp = 10\<rparr>])]"
  by (simp_all add: sample_s8_def wk_store_def sample_s7_eval Let_def item_of_def OnePoint_def whisper_store_def update_file_def demo_env_def confirm_action_def
      demo_whisper_def NewWhisper_def)

lemma sample_s7_reachable: "reachable (system_start demo_whisper) (pstep (\<lambda>_ _. True)) sample_s7"
  by (rule reachable_step [OF sample_s6_reachable p_solo_take [OF sample_s7_eval(1)]])

lemma sample_s8_reachable: "reachable (system_start demo_whisper) (pstep (\<lambda>_ _. True)) sample_s8"
  by (rule reachable_step [OF sample_s7_reachable p_wk_store [OF sample_store]])

section \<open>Properties\<close>

text \<open>C1. For the cache and the persister running together, throttled or not, with any number of workers, and for every metric: the points that the cache
  accepted are, in this order, those stored, those that wait in the persister (in the worker's hands and channel, in the shuffler's, in the throttle), those on
  their way to it, and those cached. The updates of files are exactly the stored messages whose file could be written, each whole and at the metric's path.\<close>

theorem end_to_end:
  assumes "reachable (system_start p) (pstep matches) s"
  shows "of_metric m (accepted (hist (cw s))) = of_metric m (map snd (slog s))
      @ of_metric m (map (item_of (wmem (cw s))) (route s m @ pipeline (cw s))) @ elems (contents (wmem (cw s)) (wcache (cw s)) m)
    \<and> files s = map (\<lambda>(ready, m, ds). (wsp_path (rootPath p) m, map (\<lambda>d. (Timestamp d, Value d)) ds)) (filter fst (slog s))"
  using system_flow [OF assms] system_files [OF assms] by (simp add: file_inv_def)

theorem end_to_end_witness:
  "files sample_s8 = [(''/data/a.wsp'', [(10, 1)])] \<and> of_metric ''a'' (accepted (hist (cw sample_s8))) = [\<lparr>Value = 1, Timestamp = 10\<rparr>]"
proof -
  have "wsp_path ''/data'' ''a'' = ''/data/a.wsp''" by code_simp
  with end_to_end [OF sample_s8_reachable, of "''a''"] show ?thesis by (simp add: sample_s8_facts demo_whisper_def NewWhisper_def)
qed

text \<open>C8. As long as every store can write, and for metrics with distinct files, what the file of a metric has received is a prefix of the points that the
  cache accepted for the metric, in their order.\<close>

theorem file_gets_prefix:
  assumes "reachable (system_start p) (pstep matches) s" "rootPath p \<noteq> []" "wf_metric m" "\<forall>x \<in> set (slog s). fst x \<and> wf_metric (fst (snd x))"
  shows "prefix (concat (map snd (filter (\<lambda>u. fst u = wsp_path (rootPath p) m) (files s))))
    (map (\<lambda>d. (Timestamp d, Value d)) (of_metric m (accepted (hist (cw s)))))"
proof -
  have "files s = map (\<lambda>(ready, m, ds). (wsp_path (rootPath p) m, map (\<lambda>d. (Timestamp d, Value d)) ds)) (filter fst (slog s))"
    using system_files [OF assms(1)] by (simp add: file_inv_def)
  then show ?thesis using file_of_metric [OF assms(2-4)] by (simp add: system_flow [OF assms(1), of m])
qed

theorem file_gets_prefix_witness:
  "prefix (concat (map snd (filter (\<lambda>u. fst u = wsp_path ''/data'' ''a'') (files sample_s8)))) [(10, 1)]"
proof -
  have "wf_metric ''a''" by (simp add: wf_metric_def)
  with file_gets_prefix [OF sample_s8_reachable, of "''a''"] show ?thesis by (simp add: sample_s8_facts demo_whisper_def NewWhisper_def)
qed

text \<open>C7. When the workers of the persister have returned, every message it ever took from the cache has been stored, in the order of its metric, and
  confirmed; nothing is left in the throttle, the shuffler or a channel, and these have ended too.\<close>

theorem persister_stop_complete:
  assumes "reachable (system_start p) (pstep matches) s" "\<forall>k \<in> set (workers s). wk_stopped k"
  shows "of_metric m (delivered (hist (cw s))) = of_metric m (map snd (slog s)) \<and> wgiven (cw s) = [] \<and> thr_out s = [] \<and> thr_hold s = None \<and> rd_hold s = None
    \<and> rd_done s \<and> (throttled (plan s) \<noteq> None \<longrightarrow> thr_closed s)"
proof -
  have i: "shape_inv s" "route_inv s" using system_pinv [OF assms(1)] by (simp_all add: pinv_def)
  from ended_empty [OF i(1)] assms(2) have e: "inhouse s = []" "rd_done s" "throttled (plan s) \<noteq> None \<longrightarrow> thr_closed s" by (simp_all add: all_ended_def)
  then have "upstream s = []" "route s m = []" using route_inhouse [of s m] i(1) by (auto simp: inhouse_def shape_inv_def)
  moreover have "wgiven (cw s) = []" using i(2) e(1) by (simp add: route_inv_def)
  ultimately show ?thesis using i(2) e by (auto simp: route_inv_def upstream_def opt_list_def split: option.splits)
qed

text \<open>A stop of the sample system that has run to its end.\<close>

lemma sample_stopping: "stopping (sample_s7\<lparr>pexit := True\<rparr>)"
  using pinv_stop [OF system_pinv [OF sample_s7_reachable]] by (simp add: stopping_def conf_bounded_def sample_s7_eval)

lemma reachable_star: "st\<^sup>*\<^sup>* s t \<Longrightarrow> reachable i st s \<Longrightarrow> reachable i st t"
  by (induction rule: rtranclp_induct) (auto intro: reachable.reachable_step)

lemma sample_ended: "\<exists>s. reachable (system_start demo_whisper) (pstep (\<lambda>_ _. True)) s \<and> all_ended s"
proof -
  from stopping_ends [OF sample_stopping] obtain s where "(pstep (\<lambda>_ _. True))\<^sup>*\<^sup>* (sample_s7\<lparr>pexit := True\<rparr>) s" "all_ended s" by blast
  then show ?thesis using reachable_star [OF _ reachable_step [OF sample_s7_reachable p_stop]] by blast
qed

theorem persister_stop_complete_witness:
  "\<exists>s. reachable (system_start demo_whisper) (pstep (\<lambda>_ _. True)) s \<and> (\<forall>k \<in> set (workers s). wk_stopped k)
    \<and> of_metric ''a'' (delivered (hist (cw s))) = of_metric ''a'' (map snd (slog s)) \<and> wgiven (cw s) = []"
proof -
  from sample_ended obtain s where s: "reachable (system_start demo_whisper) (pstep (\<lambda>_ _. True)) s" "\<forall>k \<in> set (workers s). wk_stopped k"
    by (auto simp: all_ended_def)
  from persister_stop_complete [OF this, of "''a''"] s show ?thesis by blast
qed

text \<open>C20. A stop of the persister never gets stuck: from every reachable state in which it was asked to stop while the cache's tracker still runs, whatever waits in
  throttle, shuffler, channels and workers, there is a continuation in which all its goroutines return. (The application stops the persister before the cache.)\<close>

theorem persister_can_stop:
  assumes "reachable (system_start p) (pstep matches) s" "pexit s" "\<not> tstopped (cw s)" "0 < capacity (outChan (cw s))" "0 < capacity (confChan (cw s))"
  shows "\<exists>s'. (pstep matches)\<^sup>*\<^sup>* s s' \<and> (\<forall>k \<in> set (workers s'). wk_stopped k)"
proof -
  have "stopping s" using assms(2-5) system_pinv [OF assms(1)] conf_sys.inv_reachable [OF system_cache [OF assms(1)]] by (simp add: stopping_def)
  from stopping_ends [OF this, of matches] show ?thesis by (simp add: all_ended_def)
qed

theorem persister_can_stop_witness:
  "\<exists>s'. (pstep (\<lambda>_ _. True))\<^sup>*\<^sup>* (sample_s7\<lparr>pexit := True\<rparr>) s' \<and> (\<forall>k \<in> set (workers s'). wk_stopped k)"
  by (rule persister_can_stop [OF reachable_step [OF sample_s7_reachable p_stop]]) (simp_all add: sample_s7_eval conf_bounded_def)

end
