(* ===== verification/Framing.thy ===== *)
theory Framing
  imports Go_Prelude
begin

text \<open>
  Length-prefixed frames, \<open>src/helper/framing/conn.go\<close>. The connection underneath is the bytes the
  peer sends until it closes (\<open>stream\<close>), and for writing a function that takes bytes or fails.
  \<open>io.ReadFull\<close> and \<open>binary.Read\<close> fail with EOF when nothing is left and with UnexpectedEOF in
  the middle; what was read is gone in either case.

  The frames of a connection are a \<open>prefix_codec\<close>, so a sequence of frames is read back as it was written.
\<close>

section \<open>Data\<close>

datatype 'e frame_error = EOF | UnexpectedEOF | ErrPrefixLength | ErrFrameTooLarge | ConnError 'e

datatype ByteOrder = LittleEndian | BigEndian

record Conn =
  stream :: bytes
  PrefixLength :: nat
  Endianess :: ByteOrder
  MaxFrameSize :: nat
  bytesLeft :: nat

definition NewConn :: "bytes \<Rightarrow> nat \<Rightarrow> ByteOrder \<Rightarrow> ('e frame_error, Conn) result" where
  "NewConn inner prefixLength endianess =
     (if \<not> (prefixLength = 1 \<or> prefixLength = 2 \<or> prefixLength = 4) then Inl ErrPrefixLength
      else Inr \<lparr>stream = inner, PrefixLength = prefixLength, Endianess = endianess,
                MaxFrameSize = (if prefixLength = 1 then 255 else if prefixLength = 2 then 65535 else 4294967295),
                bytesLeft = 0\<rparr>)"

section \<open>Reading\<close>

definition ReadFull :: "nat \<Rightarrow> bytes \<Rightarrow> ('e frame_error, bytes) result \<times> bytes" where
  "ReadFull n bs =
     (if n \<le> length bs then (Inr (take n bs), drop n bs) else (Inl (if bs = [] then EOF else UnexpectedEOF), []))"

definition get_uint :: "ByteOrder \<Rightarrow> bytes \<Rightarrow> nat" where
  "get_uint e bs = (case e of LittleEndian \<Rightarrow> le_val bs | BigEndian \<Rightarrow> be_val bs)"

definition put_uint :: "ByteOrder \<Rightarrow> nat \<Rightarrow> nat \<Rightarrow> bytes" where
  "put_uint e k n = (case e of LittleEndian \<Rightarrow> le_bytes k n | BigEndian \<Rightarrow> be_bytes k n)"

definition readSize :: "Conn \<Rightarrow> ('e frame_error, nat) result \<times> Conn" where
  "readSize f =
     (let (r, rest) = (if PrefixLength f \<in> {1, 2, 4} then ReadFull (PrefixLength f) (stream f) else (Inr [], stream f));
          f1 = f\<lparr>stream := rest\<rparr>
      in case r of
           Inl e \<Rightarrow> (Inl e, f1)
         | Inr bs \<Rightarrow> if get_uint (Endianess f) bs > MaxFrameSize f then (Inl ErrPrefixLength, f1)
                     else (Inr (get_uint (Endianess f) bs), f1))"

definition ReadFrame :: "Conn \<Rightarrow> ('e frame_error, bytes) result \<times> Conn" where
  "ReadFrame f =
     (case readSize f of
        (Inl e, f1) \<Rightarrow> (Inl e, f1)
      | (Inr sz, f1) \<Rightarrow> (let (r, rest) = ReadFull sz (stream f1) in (r, f1\<lparr>stream := rest\<rparr>)))"

text \<open>\<open>Read(b)\<close>: the bytes put into \<open>b\<close> (of length \<open>n\<close>), the error if any, and the connection.\<close>

definition conn_Read :: "nat \<Rightarrow> Conn \<Rightarrow> bytes \<times> 'e frame_error option \<times> Conn" where
  "conn_Read n f =
     (let (e, f1) = (if bytesLeft f = 0
                     then (case readSize f of (Inl e, f1) \<Rightarrow> (Some e, f1) | (Inr sz, f1) \<Rightarrow> (None, f1\<lparr>bytesLeft := sz\<rparr>))
                     else (None, f))
      in case e of
           Some err \<Rightarrow> ([], Some err, f1)
         | None \<Rightarrow>
             (let k = min (bytesLeft f1) n; got = take k (stream f1); (r, rest) = ReadFull k (stream f1)
              in (got, (case r of Inl err \<Rightarrow> Some err | Inr _ \<Rightarrow> None),
                  f1\<lparr>stream := rest, bytesLeft := bytesLeft f1 - length got\<rparr>)))"

section \<open>Writing\<close>

definition conn_Write :: "('w \<Rightarrow> bytes \<Rightarrow> ('e, 'w) result) \<Rightarrow> Conn \<Rightarrow> bytes \<Rightarrow> 'w \<Rightarrow> ('e frame_error, nat) result \<times> 'w" where
  "conn_Write wr f b w =
     (if length b > MaxFrameSize f then (Inl ErrFrameTooLarge, w)
      else let r = (if PrefixLength f \<in> {1, 2, 4} then wr w (put_uint (Endianess f) (PrefixLength f) (length b)) else Inr w)
           in case r of
                Inl e \<Rightarrow> (Inl (ConnError e), w)
              | Inr w1 \<Rightarrow> (case wr w1 b of Inl e \<Rightarrow> (Inl (ConnError e), w1) | Inr w2 \<Rightarrow> (Inr (length b), w2)))"

section \<open>Lemmas\<close>

definition conn_ok :: "Conn \<Rightarrow> bool" where
  "conn_ok f \<longleftrightarrow> PrefixLength f \<in> {1, 2, 4} \<and> MaxFrameSize f < 256 ^ PrefixLength f"

definition frame :: "Conn \<Rightarrow> bytes \<Rightarrow> bytes" where
  "frame f b = put_uint (Endianess f) (PrefixLength f) (length b) @ b"

lemma NewConn_ok: "NewConn inner k e = Inr f \<Longrightarrow> conn_ok f"
  by (auto simp: NewConn_def conn_ok_def split: if_splits)

lemma get_put_uint: "n < 256 ^ k \<Longrightarrow> get_uint e (put_uint e k n) = n"
  by (cases e) (simp_all add: get_uint_def put_uint_def codec_simps)

lemma length_put_uint [simp]: "length (put_uint e k n) = k"
  by (cases e) (simp_all add: put_uint_def)

lemma ReadFull_append [simp]: "ReadFull (length b) (b @ rest) = (Inr b, rest)"
  by (simp add: ReadFull_def)

lemma ReadFull_put_uint [simp]: "ReadFull k (put_uint e k n @ rest) = (Inr (put_uint e k n), rest)"
  using ReadFull_append [of "put_uint e k n" rest] by simp

lemma readSize_frame:
  assumes "conn_ok f" "n \<le> MaxFrameSize f" "stream f = put_uint (Endianess f) (PrefixLength f) n @ rest"
  shows "readSize f = (Inr n, f\<lparr>stream := rest\<rparr>)"
proof -
  have "get_uint (Endianess f) (put_uint (Endianess f) (PrefixLength f) n) = n"
    using assms(1,2) by (intro get_put_uint) (simp add: conn_ok_def)
  then show ?thesis using assms by (simp add: readSize_def conn_ok_def)
qed

lemma ReadFrame_frame:
  assumes "conn_ok f" "length b \<le> MaxFrameSize f" "stream f = frame f b @ rest"
  shows "ReadFrame f = (Inr b, f\<lparr>stream := rest\<rparr>)"
proof -
  have "stream f = put_uint (Endianess f) (PrefixLength f) (length b) @ b @ rest" using assms(3) by (simp add: frame_def)
  then show ?thesis by (simp add: ReadFrame_def readSize_frame [OF assms(1,2)])
qed

text \<open>The decoder of one frame in front of any remaining input.\<close>

definition decode_frame :: "Conn \<Rightarrow> bytes \<Rightarrow> (bytes \<times> bytes) option" where
  "decode_frame f bs = (case ReadFrame (f\<lparr>stream := bs\<rparr>) of (Inr b, f1) \<Rightarrow> Some (b, stream f1) | (Inl (_ :: unit frame_error), _) \<Rightarrow> None)"

interpretation frames: prefix_codec "frame f" "decode_frame f" "\<lambda>b. conn_ok f \<and> length b \<le> MaxFrameSize f" for f
proof
  fix b rest :: bytes
  assume "conn_ok f \<and> length b \<le> MaxFrameSize f"
  then have "ReadFrame (f\<lparr>stream := frame f b @ rest\<rparr>) = (Inr b :: (unit frame_error, bytes) result, f\<lparr>stream := rest\<rparr>)"
    using ReadFrame_frame [of "f\<lparr>stream := frame f b @ rest\<rparr>" b rest] by (simp add: conn_ok_def frame_def)
  then show "decode_frame f (frame f b @ rest) = Some (b, rest)" by (simp add: decode_frame_def)
qed

text \<open>A writer that never fails and keeps everything.\<close>

definition append_writer :: "bytes \<Rightarrow> bytes \<Rightarrow> (unit, bytes) result" where
  "append_writer w b = Inr (w @ b)"

lemma conn_Write_append:
  "conn_Write append_writer f b w =
     (if length b > MaxFrameSize f then (Inl ErrFrameTooLarge, w)
      else (Inr (length b), w @ (if PrefixLength f \<in> {1, 2, 4} then put_uint (Endianess f) (PrefixLength f) (length b) else []) @ b))"
  by (simp add: conn_Write_def append_writer_def Let_def)

fun write_all :: "Conn \<Rightarrow> bytes list \<Rightarrow> bytes \<Rightarrow> bytes" where
  "write_all f [] w = w"
| "write_all f (b # bs) w = write_all f bs (snd (conn_Write append_writer f b w))"

lemma write_all_frames:
  "conn_ok f \<Longrightarrow> list_all (\<lambda>b. length b \<le> MaxFrameSize f) bs \<Longrightarrow> write_all f bs w = w @ concat (map (frame f) bs)"
  by (induction bs arbitrary: w) (auto simp: conn_Write_append conn_ok_def frame_def)

text \<open>Reading a frame piece by piece, through a buffer of \<open>n\<close> bytes.\<close>

fun read_pieces :: "nat \<Rightarrow> nat \<Rightarrow> Conn \<Rightarrow> bytes list \<times> Conn" where
  "read_pieces n 0 f = ([], f)"
| "read_pieces n (Suc k) f = (let (b, e, f1) = (conn_Read n f :: bytes \<times> unit frame_error option \<times> Conn); (bs, f2) = read_pieces n k f1 in (b # bs, f2))"

lemma conn_Read_inside:
  assumes "0 < bytesLeft f" "bytesLeft f \<le> length (stream f)"
  shows "conn_Read n f = (take (min (bytesLeft f) n) (stream f), None,
    f\<lparr>stream := drop (min (bytesLeft f) n) (stream f), bytesLeft := bytesLeft f - min (bytesLeft f) n\<rparr>)"
  using assms by (simp add: conn_Read_def ReadFull_def Let_def)

lemma read_pieces_inside:
  assumes "0 < n" "bytesLeft f \<le> length (stream f)" "(k - 1) * n < bytesLeft f" "bytesLeft f \<le> k * n"
  shows "concat (fst (read_pieces n k f)) = take (bytesLeft f) (stream f)
    \<and> snd (read_pieces n k f) = f\<lparr>stream := drop (bytesLeft f) (stream f), bytesLeft := 0\<rparr>"
  using assms(2-4)
proof (induction k arbitrary: f)
  case (Suc k)
  define f1 where "f1 = f\<lparr>stream := drop (min (bytesLeft f) n) (stream f), bytesLeft := bytesLeft f - min (bytesLeft f) n\<rparr>"
  have r: "conn_Read n f = (take (min (bytesLeft f) n) (stream f), None :: unit frame_error option, f1)"
    unfolding f1_def by (rule conn_Read_inside) (use Suc.prems in auto)
  show ?case
  proof (cases k)
    case 0
    then show ?thesis using r Suc.prems by (simp add: f1_def min_absorb1)
  next
    case (Suc j)
    have n: "n < bytesLeft f" using Suc.prems(2) \<open>k = Suc j\<close> assms(1) by (cases j) auto
    have "concat (fst (read_pieces n k f1)) = take (bytesLeft f1) (stream f1)
        \<and> snd (read_pieces n k f1) = f1\<lparr>stream := drop (bytesLeft f1) (stream f1), bytesLeft := 0\<rparr>"
      by (rule Suc.IH) (use Suc.prems n \<open>k = Suc j\<close> in \<open>auto simp: f1_def algebra_simps\<close>)
    moreover obtain bs f2 where p: "read_pieces n k f1 = (bs, f2)" by fastforce
    ultimately have bs: "concat bs = take (bytesLeft f1) (stream f1)" "f2 = f1\<lparr>stream := drop (bytesLeft f1) (stream f1), bytesLeft := 0\<rparr>" by simp_all
    have "take (bytesLeft f) (stream f) = take n (stream f) @ take (bytesLeft f - n) (drop n (stream f))"
      using take_add [of n "bytesLeft f - n" "stream f"] n by simp
    then show ?thesis using r p bs n by (simp add: f1_def)
  qed
qed simp

section \<open>Properties\<close>

text \<open>C38. A sequence of packets written to a framed connection, each within the frame size, is read back as the
  same sequence of frames, in front of whatever follows.\<close>

theorem framing_roundtrip:
  assumes "NewConn inner k e = Inr f" "list_all (\<lambda>b. length b \<le> MaxFrameSize f) bs"
  shows "dec_many (decode_frame f) (length bs) (write_all f bs [] @ rest) = Some (bs, rest)"
  using frames.dec_many_concat [of f bs rest] NewConn_ok [OF assms(1)] assms(2) write_all_frames [of f bs "[]"]
  by (simp add: list_all_iff)

definition sample_conn :: Conn where
  "sample_conn = \<lparr>stream = [], PrefixLength = 2, Endianess = BigEndian, MaxFrameSize = 65535, bytesLeft = 0\<rparr>"

theorem framing_roundtrip_witness:
  "dec_many (decode_frame sample_conn) 2 (write_all sample_conn [''abc'', []] [] @ ''x'') = Some ([''abc'', []], ''x'')"
proof -
  have "NewConn [] 2 BigEndian = (Inr sample_conn :: (unit frame_error, Conn) result)" by (simp add: NewConn_def sample_conn_def)
  from framing_roundtrip [OF this, of "[''abc'', []]" "''x''"] show ?thesis by (simp add: sample_conn_def numeral_2_eq_2)
qed

text \<open>C39. A packet over the frame size is refused before anything is written; a stream that ends inside a prefix or a
  frame gives \<open>ErrUnexpectedEOF\<close>, and one that ends between frames gives \<open>EOF\<close>: an incomplete frame is never returned.\<close>

theorem framing_errors:
  assumes "conn_ok f" "length b \<le> MaxFrameSize f" "k < length (frame f b)" "MaxFrameSize f < length c"
  shows "fst (ReadFrame (f\<lparr>stream := take k (frame f b)\<rparr>) :: (unit frame_error, bytes) result \<times> Conn)
      = Inl (if k = 0 \<or> k = PrefixLength f then EOF else UnexpectedEOF)
    \<and> conn_Write wr f c w = (Inl ErrFrameTooLarge, w)"
proof
  define P where "P = PrefixLength f"
  have P: "P \<in> {1, 2, 4}" and P0: "0 < P" using assms(1) by (auto simp: conn_ok_def P_def)
  define f1 where "f1 = f\<lparr>stream := take k (frame f b)\<rparr>"
  have f1: "conn_ok f1" "PrefixLength f1 = P" "Endianess f1 = Endianess f" "MaxFrameSize f1 = MaxFrameSize f" using assms(1) by (simp_all add: f1_def conn_ok_def P_def)
  show "fst (ReadFrame (f\<lparr>stream := take k (frame f b)\<rparr>) :: (unit frame_error, bytes) result \<times> Conn)
      = Inl (if k = 0 \<or> k = PrefixLength f then EOF else UnexpectedEOF)"
  proof (cases "k < P")
    case True
    have "put_uint (Endianess f) P (length b) \<noteq> []" using P0 length_put_uint [of "Endianess f" P "length b"] by force
    with True have "readSize f1 = (Inl (if k = 0 then EOF else UnexpectedEOF) :: (unit frame_error, nat) result, f1\<lparr>stream := []\<rparr>)"
      using P P0 by (simp add: readSize_def f1(2) ReadFull_def) (simp add: f1_def frame_def P_def)
    then show ?thesis using True by (simp add: ReadFrame_def f1_def [symmetric] P_def [symmetric])
  next
    case False
    have "stream f1 = put_uint (Endianess f1) (PrefixLength f1) (length b) @ take (k - P) b"
      using False by (simp add: f1_def frame_def P_def)
    from readSize_frame [OF f1(1) _ this, where ?'a = unit] assms(2)
    have r: "readSize f1 = (Inr (length b) :: (unit frame_error, nat) result, f1\<lparr>stream := take (k - P) b\<rparr>)" by (simp add: f1(4))
    have "k - P < length b" using assms(3) False by (simp add: frame_def P_def)
    then have "ReadFull (length b) (take (k - P) b) = (Inl (if k = P then EOF else UnexpectedEOF) :: (unit frame_error, bytes) result, [])"
      using False by (auto simp: ReadFull_def)
    then show ?thesis using r False P0 by (simp add: ReadFrame_def f1_def [symmetric] P_def [symmetric])
  qed
qed (use assms(4) in \<open>simp add: conn_Write_def\<close>)

theorem framing_errors_witness:
  "fst (ReadFrame (sample_conn\<lparr>MaxFrameSize := 3, stream := take 3 (frame (sample_conn\<lparr>MaxFrameSize := 3\<rparr>) ''abc'')\<rparr>)
      :: (unit frame_error, bytes) result \<times> Conn) = Inl UnexpectedEOF"
  using framing_errors [of "sample_conn\<lparr>MaxFrameSize := 3\<rparr>" "''abc''" 3 "''abcd''" append_writer "[]"]
  by (simp add: sample_conn_def conn_ok_def frame_def)

text \<open>\<open>Read\<close> through a small buffer: reading a frame in \<open>n\<close>-byte pieces, as many as it takes, gives its bytes in order and
  leaves the connection at the next frame.\<close>

theorem read_frame_in_pieces:
  assumes "0 < n" "bytesLeft f \<le> length (stream f)" "(k - 1) * n < bytesLeft f" "bytesLeft f \<le> k * n"
  shows "concat (fst (read_pieces n k f)) = take (bytesLeft f) (stream f)
    \<and> snd (read_pieces n k f) = f\<lparr>stream := drop (bytesLeft f) (stream f), bytesLeft := 0\<rparr>"
  using assms by (rule read_pieces_inside)

theorem read_frame_in_pieces_witness:
  "concat (fst (read_pieces 2 2 (sample_conn\<lparr>stream := ''abcxyz'', bytesLeft := 3\<rparr>))) = ''abc''"
  using read_frame_in_pieces [of 2 "sample_conn\<lparr>stream := ''abcxyz'', bytesLeft := 3\<rparr>" 2] by (simp add: numeral_3_eq_3)

end
