(* ===== verification/Carbonlink.thy ===== *)
theory Carbonlink
  imports Confirm Framing "HOL-Library.Monad_Syntax"
begin

text \<open>
  The query protocol, \<open>src/cache/carbonlink.go\<close>: the hand-written parser of pickled requests, the
  writer of pickled replies, and the loop that serves a connection. A parser that shortens the slice it is
  given returns the rest, or None where the code returns false.

  A client reads the reply with a pickle machine. \<open>pickle_vm\<close> is the part of the published format (protocol 2)
  that replies use; it is the specification the replies are proved against.
\<close>

section \<open>Requests\<close>

record CarbonlinkRequest =
  RType :: string
  RMetric :: string
  RKey :: string
  RValue :: string

definition NewCarbonlinkRequest :: CarbonlinkRequest where
  "NewCarbonlinkRequest = \<lparr>RType = [], RMetric = [], RKey = [], RValue = []\<rparr>"

definition pickleMaybeMemo :: "bytes \<Rightarrow> bytes" where
  "pickleMaybeMemo b = (if length b > 1 \<and> b ! 0 = CHR ''q'' then drop 2 b else b)"

definition pickleGetStr :: "bytes \<Rightarrow> (string \<times> bytes) option" where
  "pickleGetStr b =
     (if length b = 0 then None
      else if b ! 0 = CHR ''U''
      then (if length b \<ge> 2
            then let sLen = of_char (b ! 1) in if length b \<ge> 2 + sLen then Some (take sLen (drop 2 b), drop (2 + sLen) b) else None
            else None)
      else if b ! 0 = CHR ''T'' \<or> b ! 0 = CHR ''X''
      then (if length b \<ge> 5
            then let sLen = le_val (take 4 (drop 1 b)) in if length b \<ge> 5 + sLen then Some (take sLen (drop 5 b), drop (5 + sLen) b) else None
            else None)
      else None)"

definition expectBytes :: "bytes \<Rightarrow> bytes \<Rightarrow> bytes option" where
  "expectBytes v b = (if take (length v) b = v then Some (drop (length v) b) else None)"

definition metric_key :: bytes where
  "metric_key = CHR ''U'' # CHR 0x06 # ''metric''"

definition type_key :: bytes where
  "type_key = CHR ''U'' # CHR 0x04 # ''type''"

text \<open>None is \<open>badErr\<close>.\<close>

definition ParseCarbonlinkRequest :: "bytes \<Rightarrow> CarbonlinkRequest option" where
  "ParseCarbonlinkRequest d0 = do {
     d1 \<leftarrow> expectBytes [CHR 0x80, CHR 0x02, CHR ''}''] d0;
     d2 \<leftarrow> expectBytes ''('' (pickleMaybeMemo d1);
     (case expectBytes metric_key d2 of
        Some d3 \<Rightarrow> do {
          (m, d4) \<leftarrow> pickleGetStr (pickleMaybeMemo d3);
          d5 \<leftarrow> expectBytes type_key (pickleMaybeMemo d4);
          (t, d6) \<leftarrow> pickleGetStr (pickleMaybeMemo d5);
          Some (NewCarbonlinkRequest\<lparr>RMetric := m, RType := t\<rparr>)
        }
      | None \<Rightarrow>
          (case expectBytes type_key d2 of
             Some d3 \<Rightarrow> do {
               (t, d4) \<leftarrow> pickleGetStr (pickleMaybeMemo d3);
               d5 \<leftarrow> expectBytes metric_key (pickleMaybeMemo d4);
               (m, d6) \<leftarrow> pickleGetStr (pickleMaybeMemo d5);
               Some (NewCarbonlinkRequest\<lparr>RMetric := m, RType := t\<rparr>)
             }
           | None \<Rightarrow> None))
   }"

section \<open>Replies\<close>

definition pickleWriteMemo :: "bytes \<Rightarrow> uint32 \<Rightarrow> bytes \<times> uint32" where
  "pickleWriteMemo b memo =
     (if memo < 256 then (b @ [CHR ''q'', char_of (unat memo)], memo + 1)
      else (b @ CHR ''r'' # le_bytes 4 (unat memo), memo + 1))"

text \<open>\<open>uint32(p.Timestamp)\<close> keeps the low 32 bits.\<close>

definition picklePoint :: "Point \<Rightarrow> bytes" where
  "picklePoint p =
     CHR ''J'' # le_bytes 4 (nat (Timestamp p mod 2 ^ 32)) @ CHR ''G'' # be_bytes 8 (unat (Value p)) @ [CHR 0x86]"

definition reply_head :: bytes where
  "reply_head = [CHR 0x80, CHR 0x02, CHR ''}'', CHR ''U'', CHR 0x0A] @ ''datapoints]''"

definition packReply :: "memory \<Rightarrow> Query option \<Rightarrow> bytes" where
  "packReply mem query =
     (let numPoints = (case query of
              None \<Rightarrow> 0
            | Some q \<Rightarrow> length (elems (InFlightData q)) + (case CacheData q of None \<Rightarrow> 0 | Some p \<Rightarrow> length (points_of p)));
          inflight = (case query of None \<Rightarrow> []
            | Some q \<Rightarrow> concat (map (\<lambda>a. concat (map picklePoint (points_of (mem a)))) (elems (InFlightData q))));
          cached = (case query of None \<Rightarrow> []
            | Some q \<Rightarrow> (case CacheData q of None \<Rightarrow> [] | Some p \<Rightarrow> concat (map picklePoint (points_of p))))
      in reply_head @ (if numPoints > 1 then ''('' else []) @ inflight @ cached
         @ (if numPoints = 0 then ''s.'' else if numPoints = 1 then ''as.'' else ''es.''))"

section \<open>The listener\<close>

text \<open>
  \<open>quote\<close> is the verb \<open>%q\<close>. The length byte of the message is fixed.
\<close>

definition error_reply :: "(string \<Rightarrow> string) \<Rightarrow> string \<Rightarrow> bytes" where
  "error_reply quote t =
     [CHR 0x80, CHR 0x02, CHR ''}'', CHR ''q'', CHR 0x00, CHR ''U'', CHR 0x05] @ ''error'' @ [CHR ''q'', CHR 0x01, CHR ''U'', CHR 0x1A]
     @ ''Invalid request type '' @ quote t @ [CHR ''q'', CHR 0x02] @ ''s.''"

definition link_conn :: "bytes \<Rightarrow> Conn" where
  "link_conn s = \<lparr>stream = s, PrefixLength = 4, Endianess = BigEndian, MaxFrameSize = 1048576, bytesLeft = 0\<rparr>"

datatype link_end = LinkReadError | LinkParseError | LinkUnknownType | LinkReplyError

lemma ReadFrame_shrinks:
  assumes "ReadFrame f = (Inr b, f1)" "PrefixLength f \<in> {1, 2, 4}" shows "length (stream f1) < length (stream f)"
  using assms by (auto simp: ReadFrame_def readSize_def ReadFull_def Let_def split: if_splits sum.splits)

text \<open>
  \<open>ask i m\<close> is what becomes of the \<open>i\<close>-th query of the connection: the answered query with the memory it is
  read in, or None when the timeout comes first. \<open>wr\<close> writes to the socket.
\<close>

function HandleConnection ::
  "(string \<Rightarrow> string) \<Rightarrow> (nat \<Rightarrow> string \<Rightarrow> (memory \<times> Query) option) \<Rightarrow> ('w \<Rightarrow> bytes \<Rightarrow> ('e, 'w) result)
   \<Rightarrow> nat \<Rightarrow> bytes \<Rightarrow> 'w \<Rightarrow> link_end \<times> 'w" where
  "HandleConnection quote ask wr i s w =
     (case (ReadFrame (link_conn s) :: (unit frame_error, bytes) result \<times> Conn) of
        (Inl _, _) \<Rightarrow> (LinkReadError, w)
      | (Inr reqData, f1) \<Rightarrow>
          (case ParseCarbonlinkRequest reqData of
             None \<Rightarrow> (LinkParseError, w)
           | Some req \<Rightarrow>
               if RType req \<noteq> ''cache-query'' then (LinkUnknownType, snd (conn_Write wr f1 (error_reply quote (RType req)) w))
               else (let packed = (case ask i (RMetric req) of None \<Rightarrow> packReply (\<lambda>_. New) None | Some (mem, q) \<Rightarrow> packReply mem (Some q))
                     in case conn_Write wr f1 packed w of
                          (Inl _, w1) \<Rightarrow> (LinkReplyError, w1)
                        | (Inr _, w1) \<Rightarrow> HandleConnection quote ask wr (Suc i) (stream f1) w1)))"
  by pat_completeness auto
termination
proof (relation "measure (\<lambda>(quote, ask, wr, i, s, w). length s)", simp, goal_cases)
  case 1
  then show ?case using ReadFrame_shrinks [OF sym] by (fastforce simp: link_conn_def)
qed

declare HandleConnection.simps [simp del]

end
