(* ===== verification/Carbonlink_Props.thy ===== *)
theory Carbonlink_Props
  imports Carbonlink
begin

text \<open>
  Correctness of the query protocol: every request a client may send in protocol 2 is understood, a reply is a
  pickle of the points asked for (and when it is not), and a connection answers its requests in order.
\<close>

section \<open>The pickle machine\<close>

datatype pval = PvInt int | PvFloat float64 | PvStr string | PvTuple "pval list" | PvList "pval list" | PvDict "(pval \<times> pval) list"

datatype stack_item = Mark | Val pval

fun vals_to_mark :: "stack_item list \<Rightarrow> (pval list \<times> stack_item list) option" where
  "vals_to_mark (Mark # st) = Some ([], st)"
| "vals_to_mark (Val v # st) = (case vals_to_mark st of None \<Rightarrow> None | Some (vs, st') \<Rightarrow> Some (vs @ [v], st'))"
| "vals_to_mark [] = None"

definition signed32 :: "nat \<Rightarrow> int" where
  "signed32 n = (if n < 2 ^ 31 then int n else int n - 2 ^ 32)"

text \<open>The opcodes of a reply: PROTO, EMPTY\_DICT, SHORT\_BINSTRING, EMPTY\_LIST, MARK, BININT, BINFLOAT, TUPLE2,
  APPEND, APPENDS, SETITEM and STOP. None is a malformed pickle.\<close>

function pickle_vm :: "bytes \<Rightarrow> stack_item list \<Rightarrow> pval option" where
  "pickle_vm [] st = None"
| "pickle_vm (c # bs) st =
     (if c = CHR 0x80 then (if bs = [] then None else pickle_vm (tl bs) st)
      else if c = CHR ''}'' then pickle_vm bs (Val (PvDict []) # st)
      else if c = CHR '']'' then pickle_vm bs (Val (PvList []) # st)
      else if c = CHR ''('' then pickle_vm bs (Mark # st)
      else if c = CHR ''U'' then
        (case bs of [] \<Rightarrow> None
         | n # bs' \<Rightarrow> if of_char n \<le> length bs' then pickle_vm (drop (of_char n) bs') (Val (PvStr (take (of_char n) bs')) # st) else None)
      else if c = CHR ''J'' then
        (if 4 \<le> length bs then pickle_vm (drop 4 bs) (Val (PvInt (signed32 (le_val (take 4 bs)))) # st) else None)
      else if c = CHR ''G'' then
        (if 8 \<le> length bs then pickle_vm (drop 8 bs) (Val (PvFloat (word_of_nat (be_val (take 8 bs)))) # st) else None)
      else if c = CHR 0x86 then (case st of Val b # Val a # st' \<Rightarrow> pickle_vm bs (Val (PvTuple [a, b]) # st') | _ \<Rightarrow> None)
      else if c = CHR ''a'' then (case st of Val v # Val (PvList vs) # st' \<Rightarrow> pickle_vm bs (Val (PvList (vs @ [v])) # st') | _ \<Rightarrow> None)
      else if c = CHR ''e'' then
        (case vals_to_mark st of
           Some (ws, Val (PvList vs) # st') \<Rightarrow> pickle_vm bs (Val (PvList (vs @ ws)) # st')
         | _ \<Rightarrow> None)
      else if c = CHR ''s'' then
        (case st of Val v # Val k # Val (PvDict d) # st' \<Rightarrow> pickle_vm bs (Val (PvDict (d @ [(k, v)])) # st') | _ \<Rightarrow> None)
      else if c = CHR ''.'' then (case st of [Val v] \<Rightarrow> Some v | _ \<Rightarrow> None)
      else None)"
  by pat_completeness auto
termination
  by (relation "measure (\<lambda>(bs, st). length bs)") (auto simp: less_Suc_eq_le)

declare pickle_vm.simps [simp del]

text \<open>What a point is to the client: the timestamp is a signed 32-bit integer.\<close>

definition pv_point :: "Point \<Rightarrow> pval" where
  "pv_point p = PvTuple [PvInt (signed32 (nat (Timestamp p mod 2 ^ 32))), PvFloat (Value p)]"

lemma vm_point: "pickle_vm (picklePoint p @ rest) st = pickle_vm rest (Val (pv_point p) # st)"
proof -
  have ts: "le_val (le_bytes 4 (nat (Timestamp p mod 2 ^ 32))) = nat (Timestamp p mod 2 ^ 32)"
    by (simp add: le_val_le_bytes nat_mod_distrib)
  have v: "word_of_nat (be_val (be_bytes 8 (unat (Value p)))) = Value p"
  proof -
    have "unat (Value p) < 2 ^ 64" using unsigned_less [of "Value p"] by simp
    then show ?thesis by (simp add: be_val_be_bytes)
  qed
  show ?thesis
    by (simp add: picklePoint_def pickle_vm.simps(2) [of "CHR ''J''"] pickle_vm.simps(2) [of "CHR ''G''"]
        pickle_vm.simps(2) [of "CHR 0x86"] ts [simplified] v pv_point_def)
qed

lemma vm_points: "pickle_vm (concat (map picklePoint ps) @ rest) st = pickle_vm rest (rev (map (Val \<circ> pv_point) ps) @ st)"
  by (induction ps arbitrary: st) (simp_all add: vm_point)

lemma vals_to_mark_rev: "vals_to_mark (rev (map (Val \<circ> f) ps) @ Mark # st) = Some (map f ps, st)"
  by (induction ps rule: rev_induct) simp_all

lemma vm_head: "pickle_vm (reply_head @ rest) [] = pickle_vm rest [Val (PvList []), Val (PvStr ''datapoints''), Val (PvDict [])]"
  by (simp add: reply_head_def pickle_vm.simps(2) [of "CHR 0x80"] pickle_vm.simps(2) [of "CHR ''}''"] pickle_vm.simps(2) [of "CHR ''U''"]
      pickle_vm.simps(2) [of "CHR '']''"])

lemma vm_tail: "pickle_vm ''s.'' [Val v, Val k, Val (PvDict d)] = Some (PvDict (d @ [(k, v)]))"
  by (simp add: pickle_vm.simps(2) [of "CHR ''s''"] pickle_vm.simps(2) [of "CHR ''.''"])

lemma vm_mark: "pickle_vm (CHR ''('' # bs) st = pickle_vm bs (Mark # st)"
  by (simp add: pickle_vm.simps(2) [of "CHR ''(''"])

lemma vm_append: "pickle_vm (CHR ''a'' # bs) (Val v # Val (PvList vs) # st) = pickle_vm bs (Val (PvList (vs @ [v])) # st)"
  by (simp add: pickle_vm.simps(2) [of "CHR ''a''"])

lemma vm_appends: "pickle_vm (CHR ''e'' # bs) (rev (map (Val \<circ> f) ps) @ Mark # Val (PvList vs) # st) = pickle_vm bs (Val (PvList (vs @ map f ps)) # st)"
  by (simp add: pickle_vm.simps(2) [of "CHR ''e''"] vals_to_mark_rev)

text \<open>Appending to a tuple is an error.\<close>

lemma vm_append_tuple: "pickle_vm (CHR ''a'' # bs) (Val v # Val (PvTuple vs) # st) = None"
  by (simp add: pickle_vm.simps(2) [of "CHR ''a''"])

section \<open>The points of a reply\<close>

definition reply_points :: "memory \<Rightarrow> Query option \<Rightarrow> Point list" where
  "reply_points mem query = (case query of None \<Rightarrow> []
     | Some q \<Rightarrow> concat (map (\<lambda>a. points_of (mem a)) (elems (InFlightData q))) @ (case CacheData q of None \<Rightarrow> [] | Some p \<Rightarrow> points_of p))"

definition reply_count :: "Query option \<Rightarrow> nat" where
  "reply_count query = (case query of None \<Rightarrow> 0
     | Some q \<Rightarrow> length (elems (InFlightData q)) + (case CacheData q of None \<Rightarrow> 0 | Some p \<Rightarrow> length (points_of p)))"

lemma packReply_eq:
  "packReply mem query = reply_head @ (if reply_count query > 1 then ''('' else []) @ concat (map picklePoint (reply_points mem query))
     @ (if reply_count query = 0 then ''s.'' else if reply_count query = 1 then ''as.'' else ''es.'')"
proof -
  have "concat (map (\<lambda>a. concat (map picklePoint (points_of (mem a)))) as) = concat (map picklePoint (concat (map (\<lambda>a. points_of (mem a)) as)))" for as
    by (induction as) simp_all
  then show ?thesis by (auto simp: packReply_def reply_count_def reply_points_def Let_def split: option.splits)
qed

definition datapoints :: "Point list \<Rightarrow> pval" where
  "datapoints ps = PvDict [(PvStr ''datapoints'', PvList (map pv_point ps))]"

lemma packReply_many: "1 < reply_count query \<Longrightarrow> pickle_vm (packReply mem query) [] = Some (datapoints (reply_points mem query))"
  using vm_appends [of "''s.''" pv_point "reply_points mem query" "[]"]
  by (simp add: packReply_eq vm_head vm_mark vm_points vm_tail datapoints_def)

lemma packReply_one: "reply_count query = 1 \<Longrightarrow> reply_points mem query = [p] \<Longrightarrow> pickle_vm (packReply mem query) [] = Some (datapoints [p])"
  by (simp add: packReply_eq vm_head vm_point vm_append vm_tail datapoints_def)

lemma packReply_none: "reply_count query = 0 \<Longrightarrow> pickle_vm (packReply mem query) [] = Some (datapoints [])"
proof -
  assume "reply_count query = 0"
  moreover from this have "reply_points mem query = []" by (auto simp: reply_count_def reply_points_def split: option.splits)
  ultimately show ?thesis by (simp add: packReply_eq vm_head vm_tail datapoints_def)
qed

lemma packReply_bad:
  assumes "reply_count query = 1" "reply_points mem query = ps @ [p, q]"
  shows "pickle_vm (packReply mem query) [] = None"
proof -
  have "pickle_vm (packReply mem query) [] =
      pickle_vm ''as.'' (rev (map (Val \<circ> pv_point) (ps @ [p, q])) @ [Val (PvList []), Val (PvStr ''datapoints''), Val (PvDict [])])"
    unfolding packReply_eq assms append_assoc by (simp only: vm_head vm_points if_True if_False append_Nil less_irrefl zero_neq_one [symmetric] not_False_eq_True simp_thms)
  then show ?thesis by (simp add: pv_point_def vm_append_tuple)
qed

section \<open>The requests of a client\<close>

definition enc_memo :: "char option \<Rightarrow> bytes" where
  "enc_memo mo = (case mo of None \<Rightarrow> [] | Some n \<Rightarrow> [CHR ''q'', n])"

definition enc_str :: "char \<Rightarrow> string \<Rightarrow> bytes" where
  "enc_str c s = (if c = CHR ''U'' then c # char_of (length s) # s else c # le_bytes 4 (length s) @ s)"

definition str_ok :: "char \<Rightarrow> string \<Rightarrow> bool" where
  "str_ok c s \<longleftrightarrow> c = CHR ''U'' \<and> length s < 256 \<or> (c = CHR ''T'' \<or> c = CHR ''X'') \<and> length s < 2 ^ 32"

text \<open>The choices of a pickler: the order of the keys, the opcodes of the strings, and where it memoizes.\<close>

record request_form =
  metric_first :: bool
  opM :: char
  opT :: char
  memo0 :: "char option"
  memo1 :: "char option"
  memo2 :: "char option"
  memo3 :: "char option"

definition request_bytes :: "request_form \<Rightarrow> string \<Rightarrow> string \<Rightarrow> bytes \<Rightarrow> bytes" where
  "request_bytes fm m t tail =
     [CHR 0x80, CHR 0x02, CHR ''}''] @ enc_memo (memo0 fm) @ ''('' @
     (if metric_first fm
      then metric_key @ enc_memo (memo1 fm) @ enc_str (opM fm) m @ enc_memo (memo2 fm) @ type_key @ enc_memo (memo3 fm) @ enc_str (opT fm) t
      else type_key @ enc_memo (memo1 fm) @ enc_str (opT fm) t @ enc_memo (memo2 fm) @ metric_key @ enc_memo (memo3 fm) @ enc_str (opM fm) m)
     @ tail"

lemma expectBytes_append [simp]: "expectBytes v (v @ r) = Some r"
  by (simp add: expectBytes_def)

lemma memo_then: "s \<noteq> [] \<Longrightarrow> hd s \<noteq> CHR ''q'' \<Longrightarrow> pickleMaybeMemo (enc_memo mo @ s) = s"
  by (cases s; cases mo) (simp_all add: pickleMaybeMemo_def enc_memo_def)

lemma enc_str_head: "str_ok c s \<Longrightarrow> enc_str c s @ r \<noteq> [] \<and> hd (enc_str c s @ r) \<noteq> CHR ''q''"
  by (auto simp: enc_str_def str_ok_def)

lemma pickleGetStr_enc: "str_ok c s \<Longrightarrow> pickleGetStr (enc_str c s @ r) = Some (s, r)"
proof (cases "c = CHR ''U''")
  case False
  assume "str_ok c s"
  then have c: "c = CHR ''T'' \<or> c = CHR ''X''" "length s < 2 ^ 32" using False by (auto simp: str_ok_def)
  have "le_val (le_bytes 4 (length s)) = length s" using c(2) by (simp add: le_val_le_bytes)
  moreover have "drop (5 + length s) (c # le_bytes 4 (length s) @ s @ r) = r"
  proof -
    have "5 + length s = length (c # le_bytes 4 (length s) @ s)" by simp
    then show ?thesis by (metis append_Cons append_assoc append_eq_conv_conj)
  qed
  ultimately show ?thesis using c False by (auto simp: pickleGetStr_def enc_str_def Let_def)
qed (auto simp: pickleGetStr_def enc_str_def str_ok_def Let_def)

interpretation link_str: prefix_codec "enc_str c" pickleGetStr "str_ok c" for c
  by unfold_locales (rule pickleGetStr_enc)

lemma keys_differ: "expectBytes metric_key (type_key @ r) = None"
  by (simp add: expectBytes_def metric_key_def type_key_def)

lemma key_head: "metric_key @ r \<noteq> [] \<and> hd (metric_key @ r) \<noteq> CHR ''q''" "type_key @ r \<noteq> [] \<and> hd (type_key @ r) \<noteq> CHR ''q''"
  by (simp_all add: metric_key_def type_key_def)

lemma parse_request:
  assumes "str_ok (opM fm) m" "str_ok (opT fm) t"
  shows "ParseCarbonlinkRequest (request_bytes fm m t tail) = Some (NewCarbonlinkRequest\<lparr>RMetric := m, RType := t\<rparr>)"
proof -
  have memo: "pickleMaybeMemo (enc_memo mo @ enc_str (opM fm) m @ r) = enc_str (opM fm) m @ r"
    "pickleMaybeMemo (enc_memo mo @ enc_str (opT fm) t @ r) = enc_str (opT fm) t @ r"
    "pickleMaybeMemo (enc_memo mo @ metric_key @ r) = metric_key @ r" "pickleMaybeMemo (enc_memo mo @ type_key @ r) = type_key @ r"
    "pickleMaybeMemo (enc_memo mo @ ''('' @ r) = ''('' @ r" for mo r
    by (rule memo_then; use enc_str_head [OF assms(1), of r] enc_str_head [OF assms(2), of r] key_head [of r] in simp)+
  show ?thesis
    unfolding request_bytes_def ParseCarbonlinkRequest_def
    by (cases "metric_first fm") (simp_all only: expectBytes_append bind.bind_lunit if_True if_False append_assoc memo
        pickleGetStr_enc [OF assms(1)] pickleGetStr_enc [OF assms(2)] keys_differ option.case prod.case)
qed

section \<open>Serving a connection\<close>

text \<open>A request frame that asks for the cache, and the reply to it.\<close>

definition cache_request :: "bytes \<Rightarrow> string \<Rightarrow> bool" where
  "cache_request d m \<longleftrightarrow> length d \<le> 1048576
     \<and> (\<exists>req. ParseCarbonlinkRequest d = Some req \<and> RType req = ''cache-query'' \<and> RMetric req = m)"

definition reply_to :: "(nat \<Rightarrow> string \<Rightarrow> (memory \<times> Query) option) \<Rightarrow> nat \<Rightarrow> string \<Rightarrow> bytes" where
  "reply_to ask i m = (case ask i m of None \<Rightarrow> packReply (\<lambda>_. New) None | Some (mem, q) \<Rightarrow> packReply mem (Some q))"

fun replies :: "(nat \<Rightarrow> string \<Rightarrow> (memory \<times> Query) option) \<Rightarrow> nat \<Rightarrow> string list \<Rightarrow> bytes list" where
  "replies ask i [] = []"
| "replies ask i (m # ms) = reply_to ask i m # replies ask (Suc i) ms"

abbreviation link_frame :: "bytes \<Rightarrow> bytes" where
  "link_frame \<equiv> frame (link_conn [])"

lemma link_conn_ok: "conn_ok (link_conn s)"
  by (simp add: conn_ok_def link_conn_def)

lemma link_ReadFrame: "length d \<le> 1048576 \<Longrightarrow> ReadFrame (link_conn (link_frame d @ rest)) = (Inr d, link_conn rest)"
  using ReadFrame_frame [of "link_conn (link_frame d @ rest)" d rest] link_conn_ok by (simp add: link_conn_def frame_def)

lemma link_Write: "length b \<le> 1048576 \<Longrightarrow> conn_Write append_writer (link_conn s) b w = (Inr (length b), w @ link_frame b)"
  by (simp add: conn_Write_append link_conn_def frame_def)

lemma HandleConnection_one:
  assumes "cache_request d m" "length (reply_to ask i m) \<le> 1048576"
  shows "HandleConnection quote ask append_writer i (link_frame d @ rest) w =
    HandleConnection quote ask append_writer (Suc i) rest (w @ link_frame (reply_to ask i m))"
proof -
  obtain req where r: "ParseCarbonlinkRequest d = Some req" "RType req = ''cache-query''" "RMetric req = m" and l: "length d \<le> 1048576"
    using assms(1) by (auto simp: cache_request_def)
  have "conn_Write append_writer (link_conn rest) (reply_to ask i m) w = (Inr (length (reply_to ask i m)), w @ link_frame (reply_to ask i m))"
    using link_Write assms(2) by blast
  moreover have "stream (link_conn rest) = rest" by (simp add: link_conn_def)
  ultimately show ?thesis
    by (subst HandleConnection.simps) (simp add: link_ReadFrame [OF l] r reply_to_def [symmetric] Let_def)
qed

lemma HandleConnection_EOF: "HandleConnection quote ask wr i [] w = (LinkReadError, w)"
  by (subst HandleConnection.simps) (simp add: ReadFrame_def readSize_def ReadFull_def link_conn_def)

lemma HandleConnection_replies:
  "list_all2 cache_request ds ms \<Longrightarrow> list_all (\<lambda>b. length b \<le> 1048576) (replies ask i ms) \<Longrightarrow>
   HandleConnection quote ask append_writer i (concat (map link_frame ds)) w = (LinkReadError, w @ concat (map link_frame (replies ask i ms)))"
proof (induction ds ms arbitrary: i w rule: list_all2_induct)
  case Nil
  then show ?case by (simp add: HandleConnection_EOF)
next
  case (Cons d ds m ms)
  then show ?case by (simp add: HandleConnection_one)
qed

section \<open>Properties\<close>





text \<open>The count that chooses between one point and many counts messages in flight, not their points: a metric with nothing
  cached and a single message in flight that has two or more points gets a reply that is not a pickle.\<close>

theorem reply_broken:
  assumes "InFlightData q = Some [a]" "CacheData q = None" "2 \<le> length (points_of (mem a))"
  shows "pickle_vm (packReply mem (Some q)) [] = None"
proof -
  obtain ps p p' where "points_of (mem a) = ps @ [p, p']"
    using assms(3) by (cases "points_of (mem a)" rule: rev_cases; cases "butlast (points_of (mem a))" rule: rev_cases) auto
  then show ?thesis using assms by (intro packReply_bad [of _ _ ps p p']) (simp_all add: reply_count_def reply_points_def)
qed

theorem reply_broken_witness:
  "pickle_vm (packReply (\<lambda>_. Append (OnePoint ''m'' 7 60) \<lparr>Value = 8, Timestamp = 120\<rparr>) (Some ((NewQuery ''m'')\<lparr>InFlightData := Some [0]\<rparr>))) [] = None"
  by (rule reply_broken [of _ 0]) (simp_all add: NewQuery_def OnePoint_def)

text \<open>C13. A connection that sends well-formed cache queries gets one framed reply per request, in the order of the requests, and
  is closed when the client closes it; \<open>HandleConnection\<close> always returns.\<close>

theorem connection_replies_in_order:
  assumes "list_all2 cache_request ds ms" "list_all (\<lambda>b. length b \<le> 1048576) (replies ask 0 ms)"
  shows "HandleConnection quote ask append_writer 0 (concat (map link_frame ds)) [] =
    (LinkReadError, concat (map link_frame (replies ask 0 ms)))"
  using HandleConnection_replies [OF assms, of quote "[]"] by simp

theorem connection_replies_in_order_witness:
  "HandleConnection id (\<lambda>_ _. None) append_writer 0 (concat (map link_frame
      [request_bytes \<lparr>metric_first = True, opM = CHR ''U'', opT = CHR ''U'', memo0 = None, memo1 = None, memo2 = None, memo3 = None\<rparr> ''m'' ''cache-query'' ''u.''])) []
   = (LinkReadError, link_frame (packReply (\<lambda>_. New) None))"
proof -
  define d where "d = request_bytes \<lparr>metric_first = True, opM = CHR ''U'', opT = CHR ''U'', memo0 = None, memo1 = None, memo2 = None, memo3 = None\<rparr> ''m'' ''cache-query'' ''u.''"
  have "ParseCarbonlinkRequest d = Some (NewCarbonlinkRequest\<lparr>RMetric := ''m'', RType := ''cache-query''\<rparr>)"
    unfolding d_def by (rule parse_request) (simp_all add: str_ok_def)
  moreover have "length d \<le> 1048576" by (simp add: d_def request_bytes_def enc_memo_def enc_str_def metric_key_def type_key_def)
  ultimately have "list_all2 cache_request [d] [''m'']" by (simp add: cache_request_def)
  moreover have "list_all (\<lambda>b. length b \<le> 1048576) (replies (\<lambda>_ _. None) 0 [''m''])"
    by (simp add: reply_to_def packReply_def reply_head_def)
  ultimately show ?thesis using connection_replies_in_order [of "[d]" "[''m'']" "\<lambda>_ _. None" id] unfolding d_def by (simp add: reply_to_def)
qed

end
