(* ===== verification/Globs.thy ===== *)
theory Globs
  imports Go_Prelude "HOL-Library.Char_ord" "HOL-Library.List_Lexorder"
begin

text \<open>
  Finding metrics by pattern, \<open>expandGlobs\<close> and \<open>extractTrigrams\<close> of \<open>src/carbonserver/carbonserver.go\<close>: the expansion of
  braces with its limit, the literal parts of a pattern that are looked up in the trigram index, the lookup itself and the
  result list. \<open>trigram.Extract\<close>, \<open>QueryTrigrams\<close>, the file system's glob and \<open>os.Stat\<close> are arguments.

  \<open>filepath.Match\<close> is modelled for patterns without a backslash (an escape), on names of one-byte characters.
\<close>

section \<open>Braces\<close>

text \<open>\<open>strings.Index(s, c)\<close>, with None for -1, and the prefix and the suffix test.\<close>

fun index_of :: "char \<Rightarrow> string \<Rightarrow> nat option" where
  "index_of c [] = None"
| "index_of c (x # xs) = (if x = c then Some 0 else map_option Suc (index_of c xs))"

definition HasSuffix :: "string \<Rightarrow> string \<Rightarrow> bool" where
  "HasSuffix s t \<longleftrightarrow> suffix t s"

definition brace_pair :: "string \<Rightarrow> (nat \<times> nat) option" where
  "brace_pair glob =
     (case index_of CHR ''{'' glob of
        None \<Rightarrow> None
      | Some lbrace \<Rightarrow> (case index_of CHR ''}'' (drop lbrace glob) of None \<Rightarrow> None | Some r \<Rightarrow> Some (lbrace, r + lbrace)))"

definition brace_subs :: "string \<Rightarrow> nat \<Rightarrow> nat \<Rightarrow> string list" where
  "brace_subs glob lbrace rbrace =
     map (\<lambda>sub. take lbrace glob @ sub @ drop (rbrace + 1) glob) (split_on CHR '','' (drop (lbrace + 1) (take rbrace glob)))"

text \<open>The inner loop: parts are added while there are not more than \<open>maxGlobs\<close>.\<close>

fun add_parts :: "int \<Rightarrow> string list \<Rightarrow> string list \<Rightarrow> string list" where
  "add_parts maxGlobs [] newglobs = newglobs"
| "add_parts maxGlobs (p # ps) newglobs =
     (if int (length newglobs) > maxGlobs then newglobs else add_parts maxGlobs ps (newglobs @ [p]))"

text \<open>One pass over the globs: whether a pair of braces was found, and the new globs.\<close>

fun brace_pass :: "int \<Rightarrow> string list \<Rightarrow> bool \<Rightarrow> string list \<Rightarrow> bool \<times> string list" where
  "brace_pass maxGlobs [] bracematch newglobs = (bracematch, newglobs)"
| "brace_pass maxGlobs (g # gs) bracematch newglobs =
     (case brace_pair g of
        Some (l, r) \<Rightarrow> brace_pass maxGlobs gs True (add_parts maxGlobs (brace_subs g l r) newglobs)
      | None \<Rightarrow>
          if int (length newglobs) > maxGlobs then (bracematch, newglobs)
          else brace_pass maxGlobs gs bracematch (newglobs @ [g]))"

text \<open>
  The loop ends because every pass takes a closing brace away: \<open>rank\<close> counts the closing braces after the first opening one,
  when there is a pair.
\<close>

definition rank :: "string \<Rightarrow> nat" where
  "rank g = count_list (dropWhile (\<lambda>c. c \<noteq> CHR ''{'') g) CHR ''}''"

definition max_rank :: "string list \<Rightarrow> nat" where
  "max_rank gs = fold max (map rank gs) 0"

lemma index_of_Some:
  "index_of c s = Some i \<longleftrightarrow> i < length s \<and> s ! i = c \<and> c \<notin> set (take i s)"
proof (induction s arbitrary: i)
  case (Cons x s)
  then show ?case by (cases i) auto
qed simp

lemma index_of_None: "index_of c s = None \<longleftrightarrow> c \<notin> set s"
  by (induction s) auto

lemma index_of_split: "index_of c s = Some i \<Longrightarrow> \<exists>a b. s = a @ c # b \<and> length a = i \<and> c \<notin> set a"
  by (metis index_of_Some id_take_nth_drop length_take min.absorb4)

lemma brace_pair_split:
  assumes "brace_pair g = Some (l, r)"
  shows "\<exists>a e b. g = a @ CHR ''{'' # e @ CHR ''}'' # b \<and> CHR ''{'' \<notin> set a \<and> CHR ''}'' \<notin> set e \<and>
    brace_subs g l r = map (\<lambda>sub. a @ sub @ b) (split_on CHR '','' e)"
proof -
  from assms obtain r' where i: "index_of CHR ''{'' g = Some l" "index_of CHR ''}'' (drop l g) = Some r'" "r = r' + l"
    by (auto simp: brace_pair_def split: option.splits)
  from index_of_split [OF i(1)] obtain a t where a: "g = a @ CHR ''{'' # t" "length a = l" "CHR ''{'' \<notin> set a" by blast
  with i(2) have "index_of CHR ''}'' (CHR ''{'' # t) = Some r'" by simp
  then obtain r'' where r'': "index_of CHR ''}'' t = Some r''" "r' = Suc r''" by (auto split: if_splits)
  from index_of_split [OF r''(1)] obtain e b where e: "t = e @ CHR ''}'' # b" "length e = r''" "CHR ''}'' \<notin> set e" by blast
  have "brace_subs g l r = map (\<lambda>sub. a @ sub @ b) (split_on CHR '','' e)"
    using a(2) e(2) by (simp add: brace_subs_def a(1) e(1) i(3) r''(2))
  with a e show ?thesis by blast
qed

lemma dropWhile_brace: "CHR ''{'' \<notin> set a \<Longrightarrow> dropWhile (\<lambda>c. c \<noteq> CHR ''{'') (a @ b) = dropWhile (\<lambda>c. c \<noteq> CHR ''{'') b"
  by (rule dropWhile_append2) auto

lemma count_list_dropWhile_le: "count_list (dropWhile P s) c \<le> count_list s c"
  by (induction s) auto

lemma rank_pos: "rank g > 0 \<longleftrightarrow> brace_pair g \<noteq> None"
proof (cases "index_of CHR ''{'' g")
  case None
  then have "dropWhile (\<lambda>c. c \<noteq> CHR ''{'') g = []"
    using dropWhile_brace [of g "[]"] unfolding index_of_None append_Nil2 dropWhile.simps by blast
  then have "rank g = 0" unfolding rank_def by (simp only: count_list.simps)
  with None show ?thesis by (simp add: brace_pair_def)
next
  case (Some l)
  from index_of_split [OF this] obtain a t where a: "g = a @ CHR ''{'' # t" "length a = l" "CHR ''{'' \<notin> set a" by blast
  then have "rank g = count_list t CHR ''}''" by (simp add: rank_def dropWhile_brace)
  moreover have "brace_pair g = None \<longleftrightarrow> CHR ''}'' \<notin> set t"
    using Some a index_of_None [of "CHR ''}''" t] by (auto simp: brace_pair_def split: option.splits)
  ultimately show ?thesis using count_list_0_iff [of t "CHR ''}''"] by (simp flip: neq0_conv)
qed

lemma rank_0: "rank g = 0 \<longleftrightarrow> brace_pair g = None"
  using rank_pos [of g] by (cases "brace_pair g") auto

lemma rank_child:
  assumes "brace_pair g = Some (l, r)" "h \<in> set (brace_subs g l r)" shows "rank h < rank g"
proof -
  from brace_pair_split [OF assms(1)] obtain a e b where g: "g = a @ CHR ''{'' # e @ CHR ''}'' # b" "CHR ''{'' \<notin> set a"
    "CHR ''}'' \<notin> set e" "brace_subs g l r = map (\<lambda>sub. a @ sub @ b) (split_on CHR '','' e)" by blast
  with assms(2) obtain sub where h: "h = a @ sub @ b" "sub \<in> set (split_on CHR '','' e)" by auto
  have "CHR ''}'' \<notin> set sub" using split_on_chars [OF h(2)] g(3) by auto
  then have "count_list (sub @ b) CHR ''}'' = count_list b CHR ''}''" by (simp add: count_list_0_iff)
  moreover have "rank h \<le> count_list (sub @ b) CHR ''}''"
    unfolding rank_def h(1) dropWhile_brace [OF g(2)] by (rule count_list_dropWhile_le)
  moreover have "rank g = Suc (count_list b CHR ''}'')" using g(2,3) by (simp add: rank_def g(1) dropWhile_brace count_list_0_iff)
  ultimately show ?thesis by simp
qed

lemma fold_max: "fold max ns (m::nat) = (if ns = [] then m else max m (Max (set ns)))"
  by (induction ns arbitrary: m) (auto simp: max.assoc)

lemma max_rank_le: "g \<in> set gs \<Longrightarrow> rank g \<le> max_rank gs"
  by (auto simp: max_rank_def fold_max)

lemma max_rank_less: "n > 0 \<Longrightarrow> (\<And>g. g \<in> set gs \<Longrightarrow> rank g < n) \<Longrightarrow> max_rank gs < n"
  by (auto simp: max_rank_def fold_max)

text \<open>What a pass adds: parts of globs with braces, and globs without.\<close>

definition offspring :: "string list \<Rightarrow> string set" where
  "offspring gs = (\<Union>g \<in> set gs. case brace_pair g of None \<Rightarrow> {g} | Some (l, r) \<Rightarrow> set (brace_subs g l r))"

lemma add_parts_set: "set (add_parts m ps ng) \<subseteq> set ng \<union> set ps"
  by (induction m ps ng rule: add_parts.induct) auto

lemma brace_pass_set: "set (snd (brace_pass m gs bm ng)) \<subseteq> set ng \<union> offspring gs"
proof (induction m gs bm ng rule: brace_pass.induct)
  case (2 m g gs bm ng)
  show ?case
  proof (cases "brace_pair g")
    case None
    with 2(1) [OF None] show ?thesis by (auto simp: offspring_def)
  next
    case (Some lr)
    obtain l r where lr: "lr = (l, r)" by fastforce
    from 2(2) [OF Some lr [symmetric]] add_parts_set [of m "brace_subs g l r" ng] Some lr show ?thesis
      by (auto simp: offspring_def)
  qed
qed simp

lemma brace_pass_match: "fst (brace_pass m gs bm ng) \<Longrightarrow> bm \<or> (\<exists>g \<in> set gs. rank g > 0)"
  by (induction m gs bm ng rule: brace_pass.induct) (auto simp: rank_pos split: option.splits if_splits)

lemma brace_pass_decreases:
  assumes "brace_pass m gs False [] = (True, ng)" shows "max_rank ng < max_rank gs"
proof (rule max_rank_less)
  from brace_pass_match [of m gs False "[]"] assms obtain g where g: "g \<in> set gs" "rank g > 0" by auto
  from max_rank_le [OF g(1)] g(2) show pos: "max_rank gs > 0" by simp
  fix h assume "h \<in> set ng"
  then have "h \<in> offspring gs" using brace_pass_set [of m gs False "[]"] assms by auto
  then obtain g where g: "g \<in> set gs" "h \<in> (case brace_pair g of None \<Rightarrow> {g} | Some (l, r) \<Rightarrow> set (brace_subs g l r))"
    by (auto simp: offspring_def)
  show "rank h < max_rank gs"
  proof (cases "brace_pair g")
    case None
    with g(2) rank_pos [of g] pos show ?thesis by simp
  next
    case (Some lr)
    obtain l r where "lr = (l, r)" by fastforce
    with Some g(2) rank_child [of g l r h] max_rank_le [OF g(1)] show ?thesis by simp
  qed
qed

function brace_loop :: "int \<Rightarrow> string list \<Rightarrow> string list" where
  "brace_loop maxGlobs globs =
     (let (bracematch, newglobs) = brace_pass maxGlobs globs False []
      in if bracematch then brace_loop maxGlobs newglobs else newglobs)"
  by pat_completeness auto
termination
  by (relation "measure (\<lambda>(m, gs). max_rank gs)") (auto dest: brace_pass_decreases [OF sym])

declare brace_loop.simps [simp del]

lemma brace_loop_step:
  "brace_pass m gs False [] = (bm, ng) \<Longrightarrow> brace_loop m gs = (if bm then brace_loop m ng else ng)"
  by (subst brace_loop.simps) simp

text \<open>The number of globs.\<close>

lemma add_parts_length: "int (length (add_parts m ps ng)) \<le> max (int (length ng)) (m + 1)"
  by (induction m ps ng rule: add_parts.induct) auto

lemma brace_pass_length: "int (length (snd (brace_pass m gs bm ng))) \<le> max (int (length ng)) (m + 1)"
proof (induction m gs bm ng rule: brace_pass.induct)
  case (2 m g gs bm ng)
  show ?case
  proof (cases "brace_pair g")
    case None
    with 2(1) [OF None] show ?thesis by auto
  next
    case (Some lr)
    obtain l r where lr: "lr = (l, r)" by fastforce
    from 2(2) [OF Some lr [symmetric]] add_parts_length [of m "brace_subs g l r" ng] Some lr show ?thesis by auto
  qed
qed simp

lemma brace_loop_length: "int (length (brace_loop m gs)) \<le> max 0 (m + 1)"
proof (induction m gs rule: brace_loop.induct)
  case (1 m gs)
  obtain bm ng where p: "brace_pass m gs False [] = (bm, ng)" by fastforce
  from 1 [OF p [symmetric]] brace_pass_length [of m gs False "[]"] show ?case by (simp add: brace_loop_step [OF p] p)
qed

text \<open>No pair of braces is left.\<close>

lemma brace_pass_plain:
  "\<not> fst (brace_pass m gs bm ng) \<Longrightarrow> \<forall>h \<in> set ng. rank h = 0 \<Longrightarrow> \<forall>h \<in> set (snd (brace_pass m gs bm ng)). rank h = 0"
proof (induction m gs bm ng rule: brace_pass.induct)
  case (2 m g gs bm ng)
  have pos: "rank g = 0" if "brace_pair g = None" using that rank_pos [of g] by simp
  have mono: "fst (brace_pass m gs True x)" for gs x by (induction gs arbitrary: x) (auto split: option.splits)
  from 2 pos mono show ?case by (cases "brace_pair g") auto
qed simp

lemma brace_loop_plain: "\<forall>h \<in> set (brace_loop m gs). brace_pair h = None"
proof (induction m gs rule: brace_loop.induct)
  case (1 m gs)
  obtain bm ng where p: "brace_pass m gs False [] = (bm, ng)" by fastforce
  from 1 [OF p [symmetric]] brace_pass_plain [of m gs False "[]"] show ?case
    by (auto simp: brace_loop_step [OF p] p rank_0)
qed

text \<open>The reference: every glob expanded on its own, depth first and without a limit.\<close>

function expand :: "string \<Rightarrow> string list" where
  "expand g = (case brace_pair g of None \<Rightarrow> [g] | Some (l, r) \<Rightarrow> concat (map expand (brace_subs g l r)))"
  by pat_completeness auto
termination
  by (relation "measure rank") (auto dest: rank_child)

declare expand.simps [simp del]

lemma expand_not_Nil: "expand g \<noteq> []"
proof (induction g rule: expand.induct)
  case (1 g)
  show ?case
  proof (cases "brace_pair g")
    case (Some lr)
    obtain l r where lr: "lr = (l, r)" by fastforce
    have "brace_subs g l r \<noteq> []" by (simp add: brace_subs_def)
    then obtain h where "h \<in> set (brace_subs g l r)" by (meson list.set_sel(1))
    with 1 [OF Some lr [symmetric]] Some lr show ?thesis by (subst expand.simps) auto
  qed (subst expand.simps, simp)
qed

definition one_level :: "string \<Rightarrow> string list" where
  "one_level g = (case brace_pair g of None \<Rightarrow> [g] | Some (l, r) \<Rightarrow> brace_subs g l r)"

lemma expand_one_level: "concat (map expand (one_level g)) = expand g"
  by (cases "brace_pair g") (auto simp: one_level_def expand.simps [of g] split: prod.splits)

lemma length_one_level: "length gs \<le> length (concat (map expand gs))"
proof (induction gs)
  case (Cons g gs)
  have "length (expand g) > 0" using expand_not_Nil by simp
  with Cons show ?case unfolding list.map concat.simps length_append length_Cons by linarith
qed simp

lemma add_parts_room: "int (length ng + length ps) \<le> m + 1 \<Longrightarrow> add_parts m ps ng = ng @ ps"
  by (induction m ps ng rule: add_parts.induct) auto

lemma brace_pass_room:
  "int (length ng + length (concat (map one_level gs))) \<le> m + 1 \<Longrightarrow>
   brace_pass m gs bm ng = (bm \<or> (\<exists>g \<in> set gs. brace_pair g \<noteq> None), ng @ concat (map one_level gs))"
proof (induction m gs bm ng rule: brace_pass.induct)
  case (2 m g gs bm ng)
  show ?case
  proof (cases "brace_pair g")
    case None
    with 2(1) [OF None] 2(3) show ?thesis by (auto simp: one_level_def)
  next
    case (Some lr)
    obtain l r where lr: "lr = (l, r)" by fastforce
    with 2(2) [OF Some lr [symmetric]] 2(3) Some show ?thesis by (auto simp: one_level_def add_parts_room)
  qed
qed simp

lemma brace_loop_expand:
  "int (length (concat (map expand gs))) \<le> m + 1 \<Longrightarrow> brace_loop m gs = concat (map expand gs)"
proof (induction m gs rule: brace_loop.induct)
  case (1 m gs)
  let ?ng = "concat (map one_level gs)"
  have e: "concat (map expand ?ng) = concat (map expand gs)"
    by (induction gs) (simp_all add: expand_one_level)
  have p: "brace_pass m gs False [] = (\<exists>g \<in> set gs. brace_pair g \<noteq> None, ?ng)"
    using brace_pass_room [of "[]" gs m False] length_one_level [of ?ng] 1(2) unfolding e by simp
  show ?case
  proof (cases "\<exists>g \<in> set gs. brace_pair g \<noteq> None")
    case True
    with 1(1) [OF p [symmetric] refl] 1(2) show ?thesis by (simp add: brace_loop_step [OF p] e)
  next
    case False
    then have "brace_pair g = None" if "g \<in> set gs" for g using that by blast
    then have "map one_level gs = map expand gs" by (intro map_cong) (simp_all add: one_level_def expand.simps)
    then show ?thesis unfolding brace_loop_step [OF p] if_not_P [OF False] by (rule arg_cong)
  qed
qed

text \<open>The loop with a bound on its passes; None when they are not enough.\<close>

fun brace_passes :: "nat \<Rightarrow> int \<Rightarrow> string list \<Rightarrow> string list option" where
  "brace_passes 0 m gs = None"
| "brace_passes (Suc n) m gs = (case brace_pass m gs False [] of (bm, ng) \<Rightarrow> if bm then brace_passes n m ng else Some ng)"

lemma brace_passes_enough: "max_rank gs < n \<Longrightarrow> brace_passes n m gs = Some (brace_loop m gs)"
proof (induction n arbitrary: gs)
  case (Suc n)
  obtain bm ng where p: "brace_pass m gs False [] = (bm, ng)" by fastforce
  show ?case
  proof (cases bm)
    case True
    with brace_pass_decreases [of m gs ng] p Suc show ?thesis by (simp add: brace_loop_step [OF p])
  qed (simp add: p brace_loop_step [OF p])
qed simp

section \<open>Matching\<close>

text \<open>
  A character class after its opening bracket: an optional \<open>^\<close>, at least one range, a closing bracket. Neither end of a
  range is a closing bracket or a dash.
\<close>

definition range_hi :: "char \<Rightarrow> string \<Rightarrow> (char \<times> string) option" where
  "range_hi lo p =
     (if p \<noteq> [] \<and> hd p = CHR ''-''
      then (case tl p of [] \<Rightarrow> None | hi # p' \<Rightarrow> if hi = CHR ''-'' \<or> hi = CHR '']'' then None else Some (hi, p'))
      else Some (lo, p))"

lemma range_hi_split: "range_hi lo p = Some (hi, p') \<Longrightarrow> \<exists>pre. p = pre @ p' \<and> CHR '']'' \<notin> set pre"
  by (cases p; cases "tl p") (auto simp: range_hi_def split: if_splits)

function class_ranges :: "string \<Rightarrow> (char \<times> char) list \<Rightarrow> ((char \<times> char) list \<times> string) option" where
  "class_ranges [] rs = None"
| "class_ranges (c # p) rs =
     (if c = CHR '']'' \<and> rs \<noteq> [] then Some (rs, p)
      else if c = CHR ''-'' \<or> c = CHR '']'' then None
      else (case range_hi c p of None \<Rightarrow> None | Some (hi, p') \<Rightarrow> class_ranges p' (rs @ [(c, hi)])))"
  by pat_completeness auto
termination
  by (relation "measure (length \<circ> fst)") (auto dest: range_hi_split)

definition parse_class :: "string \<Rightarrow> (bool \<times> (char \<times> char) list \<times> string) option" where
  "parse_class p =
     (let neg = (p \<noteq> [] \<and> hd p = CHR ''^'')
      in map_option (Pair neg) (class_ranges (if neg then tl p else p) []))"

definition in_ranges :: "char \<Rightarrow> (char \<times> char) list \<Rightarrow> bool" where
  "in_ranges c rs \<longleftrightarrow> list_ex (\<lambda>(lo, hi). lo \<le> c \<and> c \<le> hi) rs"

lemma class_ranges_split:
  "class_ranges p rs = Some (rs', rest) \<Longrightarrow> \<exists>body. p = body @ CHR '']'' # rest \<and> CHR '']'' \<notin> set body"
proof (induction p rs arbitrary: rs' rest rule: class_ranges.induct)
  case (2 c p rs)
  show ?case
  proof (cases "c = CHR '']'' \<and> rs \<noteq> []")
    case True
    with 2(2) show ?thesis by (intro exI [of _ "[]"]) auto
  next
    case False
    with 2(2) have nc: "\<not> (c = CHR ''-'' \<or> c = CHR '']'')" by (auto split: if_splits)
    with 2(2) False obtain hi p' where hi: "range_hi c p = Some (hi, p')" "class_ranges p' (rs @ [(c, hi)]) = Some (rs', rest)"
      by (auto split: option.splits)
    from range_hi_split [OF hi(1)] 2(1) [OF False nc hi(1) refl hi(2)] obtain pre body where
      "p = pre @ p'" "CHR '']'' \<notin> set pre" "p' = body @ CHR '']'' # rest" "CHR '']'' \<notin> set body" by blast
    with nc show ?thesis by (intro exI [of _ "c # pre @ body"]) auto
  qed
qed simp

lemma parse_class_split:
  assumes "parse_class p = Some (neg, rs, rest)"
  shows "\<exists>body. p = body @ CHR '']'' # rest \<and> CHR '']'' \<notin> set body"
proof -
  from assms obtain q where q: "q = (if neg then tl p else p)" "class_ranges q [] = Some (rs, rest)" "neg \<longrightarrow> p \<noteq> [] \<and> hd p = CHR ''^''"
    by (auto simp: parse_class_def Let_def split: if_splits)
  from class_ranges_split [OF q(2)] obtain body where b: "q = body @ CHR '']'' # rest" "CHR '']'' \<notin> set body" by blast
  show ?thesis
  proof (cases neg)
    case True
    with q b show ?thesis by (intro exI [of _ "CHR ''^'' # body"]) (cases p; simp)
  qed (use q b in auto)
qed

text \<open>\<open>filepath.Match\<close>: a malformed class does not match.\<close>

function glob_match :: "string \<Rightarrow> string \<Rightarrow> bool" where
  "glob_match [] s = (s = [])"
| "glob_match (c # p) s =
     (if c = CHR ''*'' then glob_match p s \<or> (if s = [] \<or> hd s = CHR ''/'' then False else glob_match (c # p) (tl s))
      else if s = [] then False
      else if c = CHR ''?'' then hd s \<noteq> CHR ''/'' \<and> glob_match p (tl s)
      else if c = CHR ''['' then
        (case parse_class p of None \<Rightarrow> False | Some (neg, rs, p') \<Rightarrow> in_ranges (hd s) rs \<noteq> neg \<and> glob_match p' (tl s))
      else c = hd s \<and> glob_match p (tl s))"
  by pat_completeness auto
termination
  by (relation "measure (\<lambda>(p, s). length p + length s)") (auto dest: parse_class_split)

declare glob_match.simps(2) [simp del]

section \<open>Literal parts\<close>

fun wild :: "char \<Rightarrow> bool" where
  "wild c \<longleftrightarrow> c = CHR ''['' \<or> c = CHR ''*'' \<or> c = CHR ''?''"

text \<open>
  The loop of \<open>extractTrigrams\<close>: \<open>part\<close> is \<open>query[start:i]\<close> and the list argument \<open>query[i:]\<close>. A class is skipped up to the
  first closing bracket.
\<close>

function extract_loop :: "(string \<Rightarrow> 't list \<Rightarrow> 't list) \<Rightarrow> string \<Rightarrow> string \<Rightarrow> 't list \<Rightarrow> 't list" where
  "extract_loop Extract part [] ts = (if part \<noteq> [] then Extract part ts else ts)"
| "extract_loop Extract part (c # q) ts =
     (if wild c then extract_loop Extract [] (if c = CHR ''['' then tl (dropWhile (\<lambda>d. d \<noteq> CHR '']'') q) else q) (Extract part ts)
      else extract_loop Extract (part @ [c]) q ts)"
  by pat_completeness auto
termination
proof (relation "measure (\<lambda>(E, part, q, ts). length q)")
  fix c :: char and q :: string
  have "length (tl (dropWhile (\<lambda>d. d \<noteq> CHR '']'') q)) \<le> length q"
    by (metis diff_le_self length_dropWhile_le length_tl order_trans)
  then show "wild c \<Longrightarrow> ((Extract, [], if c = CHR ''['' then tl (dropWhile (\<lambda>d. d \<noteq> CHR '']'') q) else q, Extract part ts), Extract, part, c # q, ts)
    \<in> measure (\<lambda>(E, part, q, ts). length q)" for Extract :: "string \<Rightarrow> 't list \<Rightarrow> 't list" and part ts by auto
qed auto

definition extractTrigrams :: "(string \<Rightarrow> 't list \<Rightarrow> 't list) \<Rightarrow> string \<Rightarrow> 't list" where
  "extractTrigrams Extract query = (if length query < 3 then [] else extract_loop Extract [] query [])"

section \<open>The index\<close>

text \<open>
  What is relied on of the trigram library: a trigram stands for three bytes (\<open>code\<close>), \<open>Extract\<close> adds those of a string to
  a list, and a query returns, among valid document numbers, all documents that have all the trigrams asked for.
\<close>

definition trigrams :: "(string \<Rightarrow> 't) \<Rightarrow> string \<Rightarrow> 't set" where
  "trigrams code s = code ` {t. length t = 3 \<and> sublist t s}"

definition index_contract :: "(string \<Rightarrow> 't) \<Rightarrow> (string \<Rightarrow> 't list \<Rightarrow> 't list) \<Rightarrow> ('t list \<Rightarrow> nat list) \<Rightarrow> string list \<Rightarrow> bool" where
  "index_contract code Extract QueryTrigrams files \<longleftrightarrow>
     (\<forall>s ts. set (Extract s ts) = set ts \<union> trigrams code s)
     \<and> (\<forall>ts. set (QueryTrigrams ts) \<subseteq> {..<length files}
          \<and> {i. i < length files \<and> set ts \<subseteq> trigrams code (files ! i)} \<subseteq> set (QueryTrigrams ts))"

text \<open>The documents found for a glob are added to those found before.\<close>

fun match_docs :: "string list \<Rightarrow> string \<Rightarrow> nat list \<Rightarrow> nat list \<Rightarrow> nat list" where
  "match_docs files gpath [] docs = docs"
| "match_docs files gpath (i # ids) docs =
     (if i \<in> set docs then match_docs files gpath ids docs
      else match_docs files gpath ids (if glob_match gpath (files ! i) then docs @ [i] else docs))"

fun index_docs :: "(string \<Rightarrow> 't list \<Rightarrow> 't list) \<Rightarrow> ('t list \<Rightarrow> nat list) \<Rightarrow> string list \<Rightarrow> string list \<Rightarrow> nat list \<Rightarrow> nat list" where
  "index_docs Extract QueryTrigrams files [] docs = docs"
| "index_docs Extract QueryTrigrams files (g # gs) docs =
     index_docs Extract QueryTrigrams files gs
       (match_docs files (CHR ''/'' # g) (QueryTrigrams (extractTrigrams Extract g)) docs)"

definition useGlob :: "string \<Rightarrow> bool" where
  "useGlob query \<longleftrightarrow> index_of CHR ''['' query = None \<and> index_of CHR ''?'' query = None
     \<and> (case index_of CHR ''*'' query of None \<Rightarrow> True | Some star \<Rightarrow> star = length query - 1)"

definition query_globs :: "string \<Rightarrow> string list" where
  "query_globs query =
     (let q = replace_char CHR ''.'' CHR ''/'' query in (if HasSuffix q ''*'' then [] else [q @ ''.wsp'']) @ [q])"

text \<open>A file found, as the name of a metric or of a directory of metrics; \<open>stat\<close> says whether it is a directory, None is an error.\<close>

definition find_entry :: "(string \<Rightarrow> bool option) \<Rightarrow> string \<Rightarrow> string \<Rightarrow> string \<times> bool" where
  "find_entry stat whisperData p =
     (case stat p of
        None \<Rightarrow> (p, False)
      | Some isDir \<Rightarrow>
          (let q = drop (length whisperData + 1) p
           in if \<not> isDir \<and> HasSuffix q ''.wsp''
              then (replace_char CHR ''/'' CHR ''.'' (take (length q - 4) q), True)
              else (replace_char CHR ''/'' CHR ''.'' q, False)))"

text \<open>The index is there or not; \<open>fsGlob\<close> is the file system's glob, None for a malformed pattern.\<close>

record 't carbon_index =
  idx_query :: "'t list \<Rightarrow> nat list"
  idx_files :: "string list"

definition found_files ::
  "(string \<Rightarrow> 't list \<Rightarrow> 't list) \<Rightarrow> (string \<Rightarrow> string list option) \<Rightarrow> 't carbon_index option \<Rightarrow> string \<Rightarrow> bool \<Rightarrow> string list \<Rightarrow> string list" where
  "found_files Extract fsGlob fidx whisperData ug globs =
     (case fidx of
        Some ix \<Rightarrow>
          if ug then concat (map (\<lambda>g. case fsGlob (whisperData @ ''/'' @ g) of None \<Rightarrow> [] | Some fs \<Rightarrow> fs) globs)
          else sort (map (\<lambda>i. whisperData @ idx_files ix ! i) (index_docs Extract (idx_query ix) (idx_files ix) globs []))
      | None \<Rightarrow> concat (map (\<lambda>g. case fsGlob (whisperData @ ''/'' @ g) of None \<Rightarrow> [] | Some fs \<Rightarrow> fs) globs))"

definition expandGlobs ::
  "(string \<Rightarrow> 't list \<Rightarrow> 't list) \<Rightarrow> (string \<Rightarrow> string list option) \<Rightarrow> (string \<Rightarrow> bool option) \<Rightarrow> 't carbon_index option
   \<Rightarrow> int \<Rightarrow> string \<Rightarrow> string \<Rightarrow> (string \<times> bool) list" where
  "expandGlobs Extract fsGlob stat fidx maxGlobs whisperData query =
     map (find_entry stat whisperData)
       (found_files Extract fsGlob fidx whisperData (useGlob query) (brace_loop maxGlobs (query_globs query)))"

section \<open>The literal parts of a pattern are in every match\<close>

lemma trigrams_mono: "sublist s t \<Longrightarrow> trigrams code s \<subseteq> trigrams code t"
  by (auto simp: trigrams_def)

lemma trigrams_append: "trigrams code s \<union> trigrams code t \<subseteq> trigrams code (s @ t)"
  by (intro Un_least trigrams_mono) auto

lemma glob_match_star: "glob_match (CHR ''*'' # p) s \<Longrightarrow> \<exists>a b. s = a @ b \<and> glob_match p b"
proof (induction s)
  case (Cons c s)
  from Cons.prems consider "glob_match p (c # s)" | "glob_match (CHR ''*'' # p) s"
    by (subst (asm) glob_match.simps) (auto split: if_splits)
  then show ?case
  proof cases
    case 2
    with Cons.IH obtain a b where "s = a @ b" "glob_match p b" by blast
    then show ?thesis by (intro exI [of _ "c # a"] exI [of _ b]) simp
  qed auto
next
  case Nil
  then show ?case by (subst (asm) glob_match.simps) simp
qed

text \<open>What a wildcard matches, and the rest of the pattern and of the name.\<close>

lemma glob_match_wild:
  assumes "wild c" "glob_match (c # p) s"
  shows "\<exists>a b. s = a @ b \<and> glob_match (if c = CHR ''['' then tl (dropWhile (\<lambda>d. d \<noteq> CHR '']'') p) else p) b"
proof -
  from assms(1) consider "c = CHR ''*''" | "c = CHR ''?''" | "c = CHR ''[''" by auto
  then show ?thesis
  proof cases
    case 1
    with assms(2) glob_match_star [of p s] show ?thesis by simp
  next
    case 2
    with assms(2) have "glob_match p (tl s)" "s \<noteq> []" by (subst (asm) glob_match.simps, simp split: if_splits)+
    with 2 show ?thesis by (intro exI [of _ "[hd s]"] exI [of _ "tl s"]) simp
  next
    case 3
    with assms(2) obtain neg rs p' where p: "parse_class p = Some (neg, rs, p')" "glob_match p' (tl s)" "s \<noteq> []"
      by (subst (asm) glob_match.simps) (auto split: if_splits option.splits)
    from parse_class_split [OF p(1)] obtain body where b: "p = body @ CHR '']'' # p'" "CHR '']'' \<notin> set body" by blast
    have "dropWhile (\<lambda>d. d \<noteq> CHR '']'') p = CHR '']'' # p'"
      unfolding b(1) by (subst dropWhile_append2) (use b(2) in auto)
    with 3 p show ?thesis by (intro exI [of _ "[hd s]"] exI [of _ "tl s"]) simp
  qed
qed

lemma extract_loop_match:
  assumes E: "\<And>s ts. set (E s ts) = set ts \<union> trigrams code s"
  shows "glob_match q s \<Longrightarrow> set (extract_loop E part q ts) \<subseteq> set ts \<union> trigrams code (part @ s)"
proof (induction q arbitrary: s part ts rule: length_induct)
  case (1 q)
  show ?case
  proof (cases q)
    case Nil
    with 1(2) show ?thesis by (simp add: E)
  next
    case (Cons c p)
    show ?thesis
    proof (cases "wild c")
      case True
      let ?p = "if c = CHR ''['' then tl (dropWhile (\<lambda>d. d \<noteq> CHR '']'') p) else p"
      from glob_match_wild [OF True 1(2) [unfolded Cons]] obtain a b where ab: "s = a @ b" "glob_match ?p b" by blast
      have "length (tl (dropWhile (\<lambda>d. d \<noteq> CHR '']'') p)) \<le> length p"
        by (metis diff_le_self length_dropWhile_le length_tl order_trans)
      then have "length ?p < length q" using Cons by simp
      with 1(1) ab(2) have "set (extract_loop E [] ?p (E part ts)) \<subseteq> set (E part ts) \<union> trigrams code ([] @ b)" by blast
      moreover have "trigrams code b \<subseteq> trigrams code (part @ s)"
        by (rule trigrams_mono, unfold sublist_def, intro exI [of _ "part @ a"] exI [of _ "[]"]) (simp add: ab(1))
      moreover have "trigrams code part \<subseteq> trigrams code (part @ s)" using trigrams_append [of code part s] by blast
      ultimately show ?thesis unfolding Cons extract_loop.simps if_P [OF True] E append_Nil by blast
    next
      case False
      with 1(2) Cons obtain s' where s: "s = c # s'" "glob_match p s'"
        by (cases s) (auto simp: glob_match.simps(2) split: if_splits)
      have "length p < length q" using Cons by simp
      with 1(1) s(2) have "set (extract_loop E (part @ [c]) p ts) \<subseteq> set ts \<union> trigrams code ((part @ [c]) @ s')" by blast
      with False s Cons show ?thesis by simp
    qed
  qed
qed

lemma extractTrigrams_match:
  assumes "\<And>s ts. set (E s ts) = set ts \<union> trigrams code s" "glob_match g f"
  shows "set (extractTrigrams E g) \<subseteq> trigrams code f"
  using extract_loop_match [OF assms, of "[]" "[]"] by (simp add: extractTrigrams_def)

lemma match_docs_set:
  "distinct docs \<Longrightarrow> set (match_docs files gp ids docs) = set docs \<union> {i \<in> set ids. glob_match gp (files ! i) \<or> i \<in> set docs}
     \<and> distinct (match_docs files gp ids docs)"
  by (induction files gp ids docs rule: match_docs.induct) auto

lemma glob_match_slash: "glob_match (CHR ''/'' # g) f \<Longrightarrow> \<exists>f'. f = CHR ''/'' # f' \<and> glob_match g f'"
  by (cases f) (auto simp: glob_match.simps(2))

lemma query_finds:
  assumes "index_contract code E Q files" "i < length files" "glob_match (CHR ''/'' # g) (files ! i)"
  shows "i \<in> set (Q (extractTrigrams E g))"
proof -
  from glob_match_slash [OF assms(3)] obtain f where f: "files ! i = CHR ''/'' # f" "glob_match g f" by blast
  have "set (extractTrigrams E g) \<subseteq> trigrams code f"
    using assms(1) f(2) by (intro extractTrigrams_match) (auto simp: index_contract_def)
  also have "\<dots> \<subseteq> trigrams code (files ! i)" unfolding f(1) by (rule trigrams_mono) (simp add: sublist_Cons_right)
  finally show ?thesis using assms(1,2) by (auto simp: index_contract_def)
qed

lemma index_docs_set:
  assumes "index_contract code E Q files" "distinct docs"
  shows "set (index_docs E Q files globs docs) = set docs \<union> {i. i < length files \<and> (\<exists>g \<in> set globs. glob_match (CHR ''/'' # g) (files ! i))}
    \<and> distinct (index_docs E Q files globs docs)"
  using assms(2)
proof (induction globs arbitrary: docs)
  case (Cons g globs)
  let ?d = "match_docs files (CHR ''/'' # g) (Q (extractTrigrams E g)) docs"
  have q: "set (Q (extractTrigrams E g)) \<subseteq> {..<length files}" using assms(1) by (auto simp: index_contract_def)
  have "set ?d = set docs \<union> {i. i < length files \<and> glob_match (CHR ''/'' # g) (files ! i)}" "distinct ?d"
    using match_docs_set [OF Cons.prems, of files "CHR ''/'' # g"] query_finds [OF assms(1)] q by auto
  with Cons.IH [of ?d] show ?case by auto
qed simp

lemma count_closing_query: "g \<in> set (query_globs query) \<Longrightarrow> rank g \<le> count_list query CHR ''}''"
proof -
  assume g: "g \<in> set (query_globs query)"
  have "count_list (replace_char CHR ''.'' CHR ''/'' query) CHR ''}'' = count_list query CHR ''}''"
    by (induction query) (auto simp: replace_char_def)
  moreover have "rank g \<le> count_list g CHR ''}''" unfolding rank_def by (rule count_list_dropWhile_le)
  ultimately show ?thesis using g by (auto simp: query_globs_def Let_def split: if_splits)
qed

section \<open>Properties\<close>

text \<open>C27. The expansion of braces ends, whatever the query and the limit: after at most one pass more than the query has closing braces
  no pass finds a pair any more.\<close>

theorem brace_terminates:
  "brace_passes (Suc (count_list query CHR ''}'')) maxGlobs (query_globs query) = Some (brace_loop maxGlobs (query_globs query))"
  by (rule brace_passes_enough, rule max_rank_less) (auto dest: count_closing_query simp: less_Suc_eq_le)

text \<open>The limit holds: the expansion never has more than \<open>maxGlobs + 1\<close> globs (none for a negative limit), and no glob of the result has a
  pair of braces left.\<close>

theorem brace_limit:
  "int (length (brace_loop maxGlobs globs)) \<le> max 0 (maxGlobs + 1) \<and> list_all (\<lambda>g. brace_pair g = None) (brace_loop maxGlobs globs)"
  using brace_loop_length brace_loop_plain by (auto simp: list_all_iff)

text \<open>C28. The loop of passes is equivalent to the recursive expansion of each glob on its own, in the same order, whenever the whole
  expansion is within the limit.\<close>

theorem brace_expansion:
  assumes "int (length (concat (map expand globs))) \<le> maxGlobs + 1"
  shows "brace_loop maxGlobs globs = concat (map expand globs)"
  using assms by (rule brace_loop_expand)

theorem brace_expansion_witness:
  "brace_loop 2 [''a{b,c}d''] = [''abd'', ''acd'']"
proof -
  have "brace_pair ''a{b,c}d'' = Some (1, 5)" "brace_subs ''a{b,c}d'' 1 5 = [''abd'', ''acd'']"
    "brace_pair ''abd'' = None" "brace_pair ''acd'' = None" by code_simp+
  then have "concat (map expand [''a{b,c}d'']) = [''abd'', ''acd'']" by (simp add: expand.simps)
  with brace_expansion [of "[''a{b,c}d'']" 2] show ?thesis by simp
qed

text \<open>C14. Searching the trigram index loses no file and adds none: given the contract of the index, the files found are exactly the indexed files
  that match one of the globs (\<open>filepath.Match\<close> on patterns without escapes), each once, in order. The trigrams taken from the literal
  parts of a pattern occur in every name the pattern matches.\<close>

theorem index_search_exact:
  assumes "index_contract code Extract (idx_query ix) (idx_files ix)" "distinct (idx_files ix)"
  shows "set (found_files Extract fsGlob (Some ix) whisperData False globs) =
      {whisperData @ f |f. f \<in> set (idx_files ix) \<and> (\<exists>g \<in> set globs. glob_match (CHR ''/'' # g) f)}
    \<and> sorted (found_files Extract fsGlob (Some ix) whisperData False globs)
    \<and> distinct (found_files Extract fsGlob (Some ix) whisperData False globs)"
proof -
  let ?files = "idx_files ix" and ?docs = "index_docs Extract (idx_query ix) (idx_files ix) globs []"
  from index_docs_set [OF assms(1), of "[]" globs] have d: "distinct ?docs"
    "set ?docs = {i. i < length ?files \<and> (\<exists>g \<in> set globs. glob_match (CHR ''/'' # g) (?files ! i))}" by simp_all
  have "set (map (\<lambda>i. whisperData @ ?files ! i) ?docs) =
      {whisperData @ f |f. f \<in> set ?files \<and> (\<exists>g \<in> set globs. glob_match (CHR ''/'' # g) f)}"
    by (auto simp: d(2) in_set_conv_nth)
  moreover have "inj_on (\<lambda>i. whisperData @ ?files ! i) (set ?docs)"
    using assms(2) by (auto simp: inj_on_def d(2) nth_eq_iff_index_eq)
  ultimately show ?thesis using d(1) by (simp add: found_files_def distinct_map)
qed

definition demo_extract :: "string \<Rightarrow> string list \<Rightarrow> string list" where
  "demo_extract s ts = ts @ map (\<lambda>i. take 3 (drop i s)) [0..<length s - 2]"

lemma demo_contract: "index_contract id demo_extract (\<lambda>_. [0..<length files]) files"
proof -
  have "set (map (\<lambda>i. take 3 (drop i s)) [0..<length s - 2]) = trigrams id s" for s
  proof (intro set_eqI iffI)
    fix t assume "t \<in> set (map (\<lambda>i. take 3 (drop i s)) [0..<length s - 2])"
    then obtain i where i: "t = take 3 (drop i s)" "i < length s - 2" by auto
    then have "s = take i s @ t @ drop 3 (drop i s)" by (metis append_take_drop_id)
    then have "sublist t s" unfolding sublist_def by blast
    with i show "t \<in> trigrams id s" by (auto simp: trigrams_def)
  next
    fix t assume "t \<in> trigrams id s"
    then obtain ps ss where "s = ps @ t @ ss" "length t = 3" by (auto simp: trigrams_def sublist_def)
    then show "t \<in> set (map (\<lambda>i. take 3 (drop i s)) [0..<length s - 2])" by (auto intro!: image_eqI [of _ _ "length ps"])
  qed
  then show ?thesis by (auto simp: index_contract_def demo_extract_def)
qed

theorem index_search_exact_witness:
  "set (found_files demo_extract (\<lambda>_. None) (Some \<lparr>idx_query = \<lambda>_. [0..<2], idx_files = [''/ab.wsp'', ''/xy.wsp'']\<rparr>) ''/d'' False [''a?.wsp''])
   = {''/d/ab.wsp''}"
proof -
  have "glob_match ''/a?.wsp'' ''/ab.wsp''" "\<not> glob_match ''/a?.wsp'' ''/xy.wsp''" by (simp_all add: glob_match.simps(2))
  then show ?thesis
    using index_search_exact [of id demo_extract "\<lparr>idx_query = \<lambda>_. [0..<2], idx_files = [''/ab.wsp'', ''/xy.wsp'']\<rparr>" "\<lambda>_. None" "''/d''" "[''a?.wsp'']"]
      demo_contract [of "[''/ab.wsp'', ''/xy.wsp'']"] by (auto simp: numeral_2_eq_2)
qed

end
