(* ===== verification/Carbonserver.thy ===== *)
theory Carbonserver
  imports Globs Points_Model Counters
begin

text \<open>
  The HTTP server for stored and cached data, \<open>src/carbonserver/carbonserver.go\<close>: its settings and counters, the handlers
  of find, render and info requests, the merge of cached points with the points of a file, the file list updater, the statistics,
  and starting and stopping. Finding files is in \<open>Globs\<close>.

  The whisper files, the cache's reply and the encoders (JSON, protobuf, pickle) are arguments. A handler gives the listener with its counters
  changed and the reply. \<open>int32\<close> values are \<open>int\<close> with the wrap-around written out.
\<close>

section \<open>State\<close>

definition wrap32 :: "int \<Rightarrow> int" where
  "wrap32 x = (x + 2 ^ 31) mod 2 ^ 32 - 2 ^ 31"

record metricStruct =
  RenderRequests :: uint64
  RenderErrors :: uint64
  NotFound :: uint64
  FindRequests :: uint64
  FindErrors :: uint64
  FindZero :: uint64
  InfoRequests :: uint64
  InfoErrors :: uint64
  CacheHits :: uint64
  CacheMiss :: uint64
  CacheFullHits :: uint64
  CacheTimeouts :: uint64

definition zero_metrics :: metricStruct where
  "zero_metrics = \<lparr>RenderRequests = 0, RenderErrors = 0, NotFound = 0, FindRequests = 0, FindErrors = 0, FindZero = 0,
     InfoRequests = 0, InfoErrors = 0, CacheHits = 0, CacheMiss = 0, CacheFullHits = 0, CacheTimeouts = 0\<rparr>"

record 't CarbonserverListener =
  readTimeout :: int
  queryTimeout :: int
  whisperData :: string
  buckets :: int
  maxGlobs :: int
  scanFrequency :: int
  metricsAsCounters :: bool
  fileIdx :: "'t carbon_index option"
  metrics :: metricStruct
  exitChan :: bool
  timeBuckets :: "uint64 list"

definition NewCarbonserverListener :: "'t CarbonserverListener" where
  "NewCarbonserverListener = \<lparr>readTimeout = 0, queryTimeout = 0, whisperData = [], buckets = 0, maxGlobs = 0, scanFrequency = 0,
     metricsAsCounters = False, fileIdx = None, metrics = zero_metrics, exitChan = False, timeBuckets = []\<rparr>"

definition SetWhisperData :: "string \<Rightarrow> 't CarbonserverListener \<Rightarrow> 't CarbonserverListener" where
  "SetWhisperData d l = l\<lparr>whisperData := trim_right ''/'' d\<rparr>"

definition SetMaxGlobs :: "int \<Rightarrow> 't CarbonserverListener \<Rightarrow> 't CarbonserverListener" where
  "SetMaxGlobs n l = l\<lparr>maxGlobs := n\<rparr>"

definition SetBuckets :: "int \<Rightarrow> 't CarbonserverListener \<Rightarrow> 't CarbonserverListener" where
  "SetBuckets n l = l\<lparr>buckets := n\<rparr>"

definition SetScanFrequency :: "int \<Rightarrow> 't CarbonserverListener \<Rightarrow> 't CarbonserverListener" where
  "SetScanFrequency d l = l\<lparr>scanFrequency := d\<rparr>"

definition SetReadTimeout :: "int \<Rightarrow> 't CarbonserverListener \<Rightarrow> 't CarbonserverListener" where
  "SetReadTimeout d l = l\<lparr>readTimeout := d\<rparr>"

definition SetQueryTimeout :: "int \<Rightarrow> 't CarbonserverListener \<Rightarrow> 't CarbonserverListener" where
  "SetQueryTimeout d l = l\<lparr>queryTimeout := d\<rparr>"

definition SetMetricsAsCounters :: "bool \<Rightarrow> 't CarbonserverListener \<Rightarrow> 't CarbonserverListener" where
  "SetMetricsAsCounters b l = l\<lparr>metricsAsCounters := b\<rparr>"

section \<open>The file list\<close>

text \<open>
  One round of \<open>fileListUpdater\<close>: \<open>entries\<close> is what \<open>filepath.Walk\<close> visits, path, base name and whether it is a directory, None for
  an error; \<open>newIndex\<close> builds and prunes the index.
\<close>

definition TrimPrefix :: "string \<Rightarrow> string \<Rightarrow> string" where
  "TrimPrefix s p = (if prefix p s then drop (length p) s else s)"

definition scan_files :: "string \<Rightarrow> (string \<times> string \<times> bool) option list \<Rightarrow> string list" where
  "scan_files dir entries =
     List.map_filter (\<lambda>e. case e of
         None \<Rightarrow> None
       | Some (p, name, isDir) \<Rightarrow> if isDir \<or> HasSuffix name ''.wsp'' then Some (TrimPrefix p dir) else None) entries"

definition UpdateFileIndex :: "'t carbon_index \<Rightarrow> 't CarbonserverListener \<Rightarrow> 't CarbonserverListener" where
  "UpdateFileIndex ix l = l\<lparr>fileIdx := Some ix\<rparr>"

datatype scan_event = Scan "(string \<times> string \<times> bool) option list" | ScanExit

fun fileListUpdater ::
  "(string list \<Rightarrow> 't list \<Rightarrow> nat list) \<Rightarrow> scan_event list \<Rightarrow> 't CarbonserverListener \<Rightarrow> 't CarbonserverListener" where
  "fileListUpdater newIndex [] l = l"
| "fileListUpdater newIndex (ScanExit # es) l = l"
| "fileListUpdater newIndex (Scan entries # es) l =
     (let files = scan_files (whisperData l) entries
      in fileListUpdater newIndex es (UpdateFileIndex \<lparr>idx_query = newIndex files, idx_files = files\<rparr> l))"

section \<open>Cached points\<close>

record cached_state =
  cachedValues :: "float64 list"
  prevTs :: int
  cacheFromTime :: int
  cacheUntilTime :: int

definition gap_fill :: "int \<Rightarrow> int \<Rightarrow> int \<Rightarrow> float64 list" where
  "gap_fill step prev ts =
     (if prev \<noteq> 0 \<and> wrap32 (ts - prev) > step then replicate (nat (go_div (wrap32 (ts - prev)) step - 1)) NaN_bits else [])"

definition cached_item :: "int \<Rightarrow> int \<Rightarrow> int \<Rightarrow> cached_state \<Rightarrow> Point \<Rightarrow> cached_state" where
  "cached_item fetchFrom fetchUntil step st d =
     (let ts = wrap32 (Timestamp d);
          st1 = st\<lparr>cachedValues := cachedValues st @ gap_fill step (prevTs st) ts\<rparr>
      in if ts > fetchUntil \<or> ts < fetchFrom \<or> prevTs st = ts then st1
         else \<lparr>cachedValues = cachedValues st1 @ [Value d], prevTs = ts,
               cacheFromTime = (if cacheFromTime st = 0 \<or> cacheFromTime st > ts then ts else cacheFromTime st),
               cacheUntilTime = (if cacheUntilTime st = 0 \<or> cacheUntilTime st < ts then ts else cacheUntilTime st)\<rparr>)"

definition fetchCachedData :: "Point list \<Rightarrow> int \<Rightarrow> int \<Rightarrow> int \<Rightarrow> float64 list \<times> int \<times> int" where
  "fetchCachedData ds fetchFrom fetchUntil step =
     (let st = foldl (cached_item fetchFrom fetchUntil step) \<lparr>cachedValues = [], prevTs = 0, cacheFromTime = 0, cacheUntilTime = 0\<rparr> ds
      in (cachedValues st, cacheFromTime st, cacheUntilTime st))"

section \<open>Render requests\<close>

record retention =
  secondsPerPoint :: int
  maxRetention :: int

record series =
  sValues :: "float64 list"
  sFrom :: int
  sUntil :: int
  sStep :: int

text \<open>
  What a request meets for one metric: the clock; the file, with its retentions and what \<open>Fetch\<close> returns (an error, nothing, or a series);
  the cache's reply, in flight messages and cached ones, None when it times out; and the largest slice the runtime allocates.
\<close>

record fetch_env =
  now :: int
  whisper_file :: "retention list option"
  whisper_Fetch :: "int \<Rightarrow> int \<Rightarrow> series option option"
  cache_reply :: "(Point list list \<times> Point list option) option"
  max_cap :: int

record FetchResponse =
  RName :: string
  StartTime :: int
  StopTime :: int
  StepTime :: int
  Values :: "float64 list"
  IsAbsent :: "bool list"

datatype fetch_result = Fetched FetchResponse | Skipped | Aborted | Panicked

fun pick_step :: "retention list \<Rightarrow> int \<Rightarrow> int" where
  "pick_step [] diff = 0"
| "pick_step (r # rs) diff = (if maxRetention r \<ge> diff then wrap32 (secondsPerPoint r) else pick_step rs diff)"

text \<open>The times of the cached parts: \<open>cacheUntilTime\<close> is set to the start of the part, as the code does.\<close>

definition merge_part :: "float64 list \<times> int \<times> int \<Rightarrow> float64 list \<times> int \<times> int \<Rightarrow> float64 list \<times> int \<times> int" where
  "merge_part acc part =
     (case (acc, part) of ((values, cf, cu), (tmpValues, ff, fu)) \<Rightarrow>
        (values @ tmpValues, if cf = 0 \<or> cf > ff then ff else cf, if cu = 0 \<or> cu < fu then ff else cu))"

definition merge_cached :: "Point list list \<times> Point list option \<Rightarrow> int \<Rightarrow> int \<Rightarrow> int \<Rightarrow> float64 list \<times> int \<times> int" where
  "merge_cached reply fetchFrom fetchUntil step =
     (let acc = foldl (\<lambda>acc ds. merge_part acc (fetchCachedData ds fetchFrom fetchUntil step)) ([], 0, 0) (fst reply)
      in case snd reply of None \<Rightarrow> acc | Some ds \<Rightarrow> merge_part acc (fetchCachedData ds fetchFrom fetchUntil step))"

definition absent_value :: "float64 \<Rightarrow> float64" where
  "absent_value p = (if IsNaN p then 0 else p)"

definition fetch_response :: "string \<Rightarrow> int \<Rightarrow> int \<Rightarrow> int \<Rightarrow> float64 list \<Rightarrow> float64 list \<Rightarrow> FetchResponse" where
  "fetch_response metric from until step values cached =
     \<lparr>RName = metric, StartTime = from, StopTime = until, StepTime = step,
      Values = map absent_value values @ map absent_value cached, IsAbsent = map IsNaN values @ map IsNaN cached\<rparr>"

text \<open>After the cache: from the file, unless the cache has everything.\<close>

definition fetch_file ::
  "fetch_env \<Rightarrow> string \<Rightarrow> int \<Rightarrow> int \<Rightarrow> float64 list \<Rightarrow> metricStruct \<Rightarrow> fetch_result \<times> metricStruct" where
  "fetch_file env metric from until cached m =
     (case whisper_Fetch env from until of
        None \<Rightarrow> (Skipped, m\<lparr>RenderErrors := RenderErrors m + 1\<rparr>)
      | Some None \<Rightarrow> (Skipped, m\<lparr>NotFound := NotFound m + 1\<rparr>)
      | Some (Some s) \<Rightarrow> (Fetched (fetch_response metric (wrap32 (sFrom s)) (wrap32 (sUntil s)) (wrap32 (sStep s)) (sValues s) cached), m))"

definition fetch_cached ::
  "fetch_env \<Rightarrow> string \<Rightarrow> int \<Rightarrow> int \<Rightarrow> int \<Rightarrow> Point list list \<times> Point list option \<Rightarrow> metricStruct \<Rightarrow> fetch_result \<times> metricStruct" where
  "fetch_cached env metric from until step reply m =
     (case merge_cached reply from until step of
        (cached, cf, cu) \<Rightarrow>
          if cf = 0 then fetch_file env metric from until cached (m\<lparr>CacheMiss := CacheMiss m + 1\<rparr>)
          else if cf \<le> from
          then (Fetched (fetch_response metric cf (wrap32 (cf - step)) step [] cached),
                m\<lparr>CacheHits := CacheHits m + 1, CacheFullHits := CacheFullHits m + 1\<rparr>)
          else fetch_file env metric from (wrap32 (cf - step)) cached (m\<lparr>CacheHits := CacheHits m + 1\<rparr>))"

definition fetch_metric :: "fetch_env \<Rightarrow> string \<Rightarrow> int \<Rightarrow> int \<Rightarrow> metricStruct \<Rightarrow> fetch_result \<times> metricStruct" where
  "fetch_metric env metric fromTime untilTime m =
     (case whisper_file env of
        None \<Rightarrow> (Skipped, m\<lparr>NotFound := NotFound m + 1\<rparr>)
      | Some [] \<Rightarrow> (Panicked, m)
      | Some (r # rs) \<Rightarrow>
          (let step = pick_step (r # rs) (now env - fromTime); cap = go_div (untilTime - fromTime) step
           in if step = 0 then (Aborted, m\<lparr>RenderErrors := RenderErrors m + 1\<rparr>)
              else if cap < 0 \<or> cap > max_cap env then (Panicked, m)
              else if step \<noteq> wrap32 (secondsPerPoint r)
              then fetch_file env metric (wrap32 fromTime) (wrap32 untilTime) [] m
              else (case cache_reply env of
                      None \<Rightarrow> fetch_file env metric (wrap32 fromTime) (wrap32 untilTime) [] (m\<lparr>CacheTimeouts := CacheTimeouts m + 1\<rparr>)
                    | Some reply \<Rightarrow> fetch_cached env metric (wrap32 fromTime) (wrap32 untilTime) step reply m)))"

text \<open>The loop over the files found: None when a request ends without an answer.\<close>

fun fetch_loop :: "(string \<Rightarrow> fetch_env) \<Rightarrow> int \<Rightarrow> int \<Rightarrow> (string \<times> bool) list \<Rightarrow> FetchResponse list \<Rightarrow> metricStruct \<Rightarrow> FetchResponse list option \<times> metricStruct" where
  "fetch_loop env fromTime untilTime [] multi m = (Some multi, m)"
| "fetch_loop env fromTime untilTime ((metric, leaf) # fs) multi m =
     (if \<not> leaf then fetch_loop env fromTime untilTime fs multi m
      else (case fetch_metric (env metric) metric fromTime untilTime m of
              (Fetched r, m') \<Rightarrow> fetch_loop env fromTime untilTime fs (multi @ [r]) m'
            | (Skipped, m') \<Rightarrow> fetch_loop env fromTime untilTime fs multi m'
            | (Aborted, m') \<Rightarrow> (None, m')
            | (Panicked, m') \<Rightarrow> (None, m')))"

datatype http_reply = HttpError nat string | HttpBody bytes | HttpEmpty

text \<open>What the pickle encoder is given: the series with None for an absent value.\<close>

record pickle_series =
  pk_start :: int
  pk_step :: int
  pk_end :: int
  pk_name :: string
  pk_values :: "float64 option list"

definition to_pickle :: "FetchResponse \<Rightarrow> pickle_series" where
  "to_pickle r = \<lparr>pk_start = StartTime r, pk_step = StepTime r, pk_end = StopTime r, pk_name = RName r,
     pk_values = map2 (\<lambda>v a. if a then None else Some v) (Values r) (IsAbsent r)\<rparr>"

record 'm encoders =
  enc_json :: "'m \<Rightarrow> bytes option"
  enc_protobuf :: "'m \<Rightarrow> bytes option"

text \<open>The end of a render request: the series in the format asked for.\<close>

definition render_body ::
  "FetchResponse list encoders \<Rightarrow> (pickle_series list \<Rightarrow> bytes option) \<Rightarrow> string \<Rightarrow> FetchResponse list \<Rightarrow> metricStruct \<Rightarrow> http_reply \<times> metricStruct" where
  "render_body enc enc_pickle format multi m =
     (case (if format = ''json'' then enc_json enc multi
            else if format = ''protobuf'' then enc_protobuf enc multi
            else enc_pickle (map to_pickle multi)) of
        None \<Rightarrow> (HttpEmpty, m\<lparr>RenderErrors := RenderErrors m + 1\<rparr>)
      | Some b \<Rightarrow> (HttpBody b, m))"

definition fetchHandler ::
  "(string \<Rightarrow> (string \<times> bool) list) \<Rightarrow> (string \<Rightarrow> fetch_env) \<Rightarrow> FetchResponse list encoders \<Rightarrow> (pickle_series list \<Rightarrow> bytes option)
   \<Rightarrow> string \<Rightarrow> string \<Rightarrow> string \<Rightarrow> string \<Rightarrow> metricStruct \<Rightarrow> http_reply \<times> metricStruct" where
  "fetchHandler globbed env enc enc_pickle target format from until m0 =
     (let m = m0\<lparr>RenderRequests := RenderRequests m0 + 1\<rparr>
      in if format \<noteq> ''json'' \<and> format \<noteq> ''pickle'' \<and> format \<noteq> ''protobuf''
         then (HttpError 400 ''Bad request (unsupported format)'', m\<lparr>RenderErrors := RenderErrors m + 1\<rparr>)
         else (case (parse_int from, parse_int until) of
                 (Some fromTime, Some untilTime) \<Rightarrow>
                   (case fetch_loop env fromTime untilTime (globbed target) [] m of
                      (None, m') \<Rightarrow> (HttpEmpty, m')
                    | (Some multi, m') \<Rightarrow> render_body enc enc_pickle format multi m')
               | _ \<Rightarrow> (HttpError 400 ''Bad request (invalid from/until time)'', m\<lparr>RenderErrors := RenderErrors m + 1\<rparr>)))"

section \<open>Find and info requests\<close>

text \<open>A failure of the pickle encoder is not looked at: what it wrote is the body.\<close>

definition findHandler ::
  "(string \<Rightarrow> (string \<times> bool) list) \<Rightarrow> (string \<times> (string \<times> bool) list) encoders \<Rightarrow> ((string \<times> bool) list \<Rightarrow> bytes)
   \<Rightarrow> string \<Rightarrow> string \<Rightarrow> metricStruct \<Rightarrow> http_reply \<times> metricStruct" where
  "findHandler globbed enc enc_pickle format query m0 =
     (let m = m0\<lparr>FindRequests := FindRequests m0 + 1\<rparr>
      in if format \<noteq> ''json'' \<and> format \<noteq> ''pickle'' \<and> format \<noteq> ''protobuf''
         then (HttpError 400 ''Bad request (unsupported format)'', m\<lparr>FindErrors := FindErrors m + 1\<rparr>)
         else if query = [] then (HttpError 400 ''Bad request (no query)'', m\<lparr>FindErrors := FindErrors m + 1\<rparr>)
         else (let files = globbed query;
                   body = (if format = ''json'' then enc_json enc (query, files)
                           else if format = ''protobuf'' then enc_protobuf enc (query, files)
                           else Some (enc_pickle files))
               in case body of
                    None \<Rightarrow> (HttpEmpty, m\<lparr>FindErrors := FindErrors m + 1\<rparr>)
                  | Some b \<Rightarrow> (HttpBody b, if files = [] then m\<lparr>FindZero := FindZero m + 1\<rparr> else m)))"

record whisper_info =
  wi_aggregation :: string
  wi_maxRetention :: int
  wi_xFilesFactor :: float64
  wi_retentions :: "(int \<times> int) list"

record InfoResponse =
  IName :: string
  IAggregationMethod :: string
  IMaxRetention :: int
  IXFilesFactor :: float64
  IRetentions :: "(int \<times> int) list"

definition info_path :: "string \<Rightarrow> string \<Rightarrow> string" where
  "info_path dir metric = dir @ ''/'' @ replace_char CHR ''.'' CHR ''/'' metric @ ''.wsp''"

text \<open>The factor is the one of the file: it is narrowed to a \<open>float32\<close>.\<close>

definition infoHandler ::
  "(string \<Rightarrow> whisper_info option) \<Rightarrow> InfoResponse encoders \<Rightarrow> string \<Rightarrow> string \<Rightarrow> string \<Rightarrow> metricStruct \<Rightarrow> http_reply \<times> metricStruct" where
  "infoHandler openFile enc dir metric format0 m0 =
     (let m = m0\<lparr>InfoRequests := InfoRequests m0 + 1\<rparr>; format = (if format0 = [] then ''json'' else format0)
      in if format \<noteq> ''json'' \<and> format \<noteq> ''protobuf''
         then (HttpError 400 ''Bad request (unsupported format)'', m\<lparr>InfoErrors := InfoErrors m + 1\<rparr>)
         else (case openFile (info_path dir metric) of
                 None \<Rightarrow> (HttpError 404 ''Metric not found'', m\<lparr>NotFound := NotFound m + 1\<rparr>)
               | Some w \<Rightarrow>
                   (let response = \<lparr>IName = metric, IAggregationMethod = wi_aggregation w, IMaxRetention = wrap32 (wi_maxRetention w),
                                    IXFilesFactor = wi_xFilesFactor w,
                                    IRetentions = map (\<lambda>(spp, nop). (wrap32 spp, wrap32 nop)) (wi_retentions w)\<rparr>
                    in case (if format = ''json'' then enc_json enc response else enc_protobuf enc response) of
                         None \<Rightarrow> (HttpEmpty, m\<lparr>RenderErrors := RenderErrors m + 1\<rparr>)
                       | Some b \<Rightarrow> (HttpBody b, m))))"

section \<open>Request times, statistics, start and stop\<close>

text \<open>\<open>lg\<close> is \<open>int(math.Log(float64(ms)) * math.Log10E)\<close>.\<close>

definition bucketRequestTimes :: "(int \<Rightarrow> int) \<Rightarrow> int \<Rightarrow> 't CarbonserverListener \<Rightarrow> 't CarbonserverListener" where
  "bucketRequestTimes lg ns l =
     (let bucket = max 0 (lg (go_div ns 1000000));
          i = nat (if bucket < buckets l then bucket else buckets l)
      in l\<lparr>timeBuckets := (timeBuckets l)[i := timeBuckets l ! i + 1]\<rparr>)"

definition bucket_name :: "nat \<Rightarrow> string" where
  "bucket_name i = ''requests_in_'' @ fmt_int (int i * 100) @ ''ms_to_'' @ fmt_int ((int i + 1) * 100) @ ''ms''"

text \<open>\<open>SendUint64\<close> leaves the counter, \<open>SendAndSubstractUint64\<close> takes off what it sent.\<close>

definition send_counter :: "bool \<Rightarrow> string \<Rightarrow> uint64 \<Rightarrow> uint64 \<times> sent" where
  "send_counter asCounters name v = (if asCounters then (v, SendUint64 name v) else SendAndSubstractUint64 name 0 v)"

record mem_stats =
  ms_pauseNS :: uint64
  ms_alloc :: uint64
  ms_totalAlloc :: uint64
  ms_numGC :: uint64

definition Carbonserver_Stat :: "mem_stats \<Rightarrow> 't CarbonserverListener \<Rightarrow> 't CarbonserverListener \<times> sent list" where
  "Carbonserver_Stat ms l =
     (let sender = send_counter (metricsAsCounters l); m = metrics l;
          a1 = sender ''render_requests'' (RenderRequests m); a2 = sender ''render_errors'' (RenderErrors m);
          a3 = sender ''notfound'' (NotFound m); a4 = sender ''find_requests'' (FindRequests m);
          a5 = sender ''find_errors'' (FindErrors m); a6 = sender ''find_zero'' (FindZero m);
          a7 = sender ''cache_hits'' (CacheHits m); a8 = sender ''cache_miss'' (CacheMiss m);
          a9 = sender ''cache_full_hits'' (CacheFullHits m); a10 = sender ''cache_timeouts'' (CacheTimeouts m);
          b1 = sender ''alloc'' (ms_alloc ms); b2 = sender ''total_alloc'' (ms_totalAlloc ms);
          b3 = sender ''num_gc'' (ms_numGC ms); b4 = sender ''pause_ns'' (ms_pauseNS ms);
          tb = map (\<lambda>i. sender (bucket_name i) (timeBuckets l ! i)) [0..<nat (buckets l + 1)]
      in (l\<lparr>metrics := m\<lparr>RenderRequests := fst a1, RenderErrors := fst a2, NotFound := fst a3, FindRequests := fst a4, FindErrors := fst a5,
               FindZero := fst a6, CacheHits := fst a7, CacheMiss := fst a8, CacheFullHits := fst a9, CacheTimeouts := fst a10\<rparr>,
             timeBuckets := map fst tb @ drop (nat (buckets l + 1)) (timeBuckets l)\<rparr>,
          map snd ([a1, a2, a3, a4, a5, a6, a7, a8, a9, a10, b1, b2, b3, b4] @ tb)))"

text \<open>
  \<open>Listen\<close>: the updater is started and forced to a first scan, which is part of the result; \<open>listenErr\<close> is the error of resolving or
  binding. A negative number of buckets panics (None).
\<close>

definition Carbonserver_Listen ::
  "(string list \<Rightarrow> 't list \<Rightarrow> nat list) \<Rightarrow> (string \<times> string \<times> bool) option list \<Rightarrow> 'e option \<Rightarrow> 't CarbonserverListener
   \<Rightarrow> ('e option \<times> 't CarbonserverListener) option" where
  "Carbonserver_Listen newIndex entries listenErr l =
     (let l1 = (if scanFrequency l \<noteq> 0 then fileListUpdater newIndex [Scan entries] (l\<lparr>exitChan := True\<rparr>) else l)
      in if buckets l + 1 < 0 then None
         else Some (listenErr, l1\<lparr>timeBuckets := replicate (nat (buckets l + 1)) 0\<rparr>))"

text \<open>\<open>Stop\<close> sends on \<open>exitChan\<close> first: on a nil channel it waits forever (None).\<close>

definition Carbonserver_Stop :: "'t CarbonserverListener \<Rightarrow> 't CarbonserverListener option" where
  "Carbonserver_Stop l = (if exitChan l then Some l else None)"

end
