(* ===== verification/Carbonserver_Props.thy ===== *)
theory Carbonserver_Props
  imports Carbonserver Whisper_Props
begin

text \<open>
  What the HTTP server guarantees: well-formed series, cached points laid out on the grid of the archive, request counters
  that never leave their slice, and agreement with the persister on the file of a metric.
\<close>

section \<open>Cached points on a grid\<close>

definition value_at :: "Point list \<Rightarrow> int \<Rightarrow> float64" where
  "value_at ds t = (case find (\<lambda>d. Timestamp d = t) ds of None \<Rightarrow> NaN_bits | Some d \<Rightarrow> Value d)"

definition grid :: "Point list \<Rightarrow> int \<Rightarrow> int \<Rightarrow> int \<Rightarrow> float64 list" where
  "grid ds t0 tn step = map (\<lambda>i. value_at ds (t0 + int i * step)) [0..<Suc (nat ((tn - t0) div step))]"

definition on_grid :: "Point list \<Rightarrow> int \<Rightarrow> int \<Rightarrow> int \<Rightarrow> bool" where
  "on_grid ds from until step \<longleftrightarrow> step > 0 \<and> ds \<noteq> [] \<and> sorted_wrt (<) (map Timestamp ds)
     \<and> list_all (\<lambda>d. from \<le> Timestamp d \<and> Timestamp d \<le> until \<and> 0 < Timestamp d \<and> Timestamp d < 2 ^ 31
          \<and> step dvd Timestamp d - Timestamp (hd ds)) ds"

lemma wrap32_id: "- (2 ^ 31) \<le> x \<Longrightarrow> x < 2 ^ 31 \<Longrightarrow> wrap32 x = x"
  by (simp add: wrap32_def)

lemma value_at_simps: "value_at [] t = NaN_bits" "value_at (e # ds) t = (if Timestamp e = t then Value e else value_at ds t)"
  by (simp_all add: value_at_def)

lemma value_at_snoc:
  "value_at (ds @ [d]) t = (if \<exists>e \<in> set ds. Timestamp e = t then value_at ds t else if Timestamp d = t then Value d else NaN_bits)"
  by (induction ds) (simp_all add: value_at_simps)

lemma value_at_None: "\<not> (\<exists>e \<in> set ds. Timestamp e = t) \<Longrightarrow> value_at ds t = NaN_bits"
  by (induction ds) (simp_all add: value_at_simps)

lemma gap_fill_grid:
  assumes "step > 0" "0 < a" "a < b" "b < 2 ^ 31" "step dvd b - a"
  shows "gap_fill step a b = replicate (nat ((b - a) div step) - 1) NaN_bits"
proof -
  from assms obtain k where k: "b - a = step * k" by (auto elim: dvdE)
  with assms have "k > 0" by (metis diff_gt_0_iff_gt zero_less_mult_pos)
  have w: "wrap32 (b - a) = b - a" using assms by (intro wrap32_id) auto
  have d: "go_div (b - a) step = k" "(b - a) div step = k" using assms(1) \<open>k > 0\<close> k by (simp_all add: go_div_def sgn_mult abs_mult)
  show ?thesis
  proof (cases "k = 1")
    case True
    with k d w assms show ?thesis by (simp add: gap_fill_def)
  next
    case False
    with \<open>k > 0\<close> have "k > 1" by simp
    then have "b - a > step" using k assms(1) mult_strict_left_mono [of 1 k step] by simp
    moreover have "nat (k - 1) = nat k - 1" using \<open>k > 0\<close> by simp
    ultimately show ?thesis using assms(2) unfolding gap_fill_def w d by simp
  qed
qed

lemma grid_snoc:
  assumes "step > 0" "tn < t" "step dvd tn - t0" "step dvd t - tn" "t0 \<le> tn"
    and "\<forall>e \<in> set ds. Timestamp e \<le> tn" "Timestamp d = t"
  shows "grid (ds @ [d]) t0 t step = grid ds t0 tn step @ replicate (nat ((t - tn) div step) - 1) NaN_bits @ [Value d]"
proof -
  from assms(1,3,5) obtain m where m: "tn - t0 = step * int m" by (metis dvdE diff_ge_0_iff_ge pos_int_cases zero_le_mult_iff not_less nonneg_int_cases order_less_imp_le)
  from assms(1,2,4) obtain k where k: "t - tn = step * int (Suc k)"
    by (metis dvdE diff_gt_0_iff_gt zero_less_mult_pos pos_int_cases Suc_pred)
  have n: "nat ((tn - t0) div step) = m" "nat ((t - tn) div step) = Suc k" "nat ((t - t0) div step) = m + Suc k"
  proof -
    have "t - t0 = step * int (m + Suc k)" using m k by (simp add: algebra_simps)
    then show "nat ((t - t0) div step) = m + Suc k" using assms(1) by (simp only: nonzero_mult_div_cancel_left nat_int)
  qed (use m k assms(1) in \<open>simp_all only: nonzero_mult_div_cancel_left nat_int\<close>)
  have time: "t0 + int i * step = tn + (int i - int m) * step" for i using m by (simp add: algebra_simps)
  have old: "value_at (ds @ [d]) (t0 + int i * step) = value_at ds (t0 + int i * step)" if "i \<le> m" for i
  proof -
    have "(int i - int m) * step \<le> 0" using that assms(1) by (simp add: mult_nonpos_nonneg)
    then have "t0 + int i * step \<noteq> t" using assms(2) unfolding time by linarith
    then show ?thesis using assms(7) value_at_None by (auto simp: value_at_snoc)
  qed
  have gap: "value_at (ds @ [d]) (t0 + int i * step) = NaN_bits" if "m < i" "i < m + Suc k" for i
  proof -
    have "(int i - int m) * step > 0" "(int i - int m) * step < int (Suc k) * step" using that assms(1) by simp_all
    then have "t0 + int i * step > tn" "t0 + int i * step < t" using k unfolding time by (simp_all add: mult.commute)
    then show ?thesis using assms(6,7) by (fastforce simp: value_at_snoc)
  qed
  have new: "value_at (ds @ [d]) (t0 + int (m + Suc k) * step) = Value d"
  proof -
    have "t0 + int (m + Suc k) * step = t" using k unfolding time by (simp add: mult.commute)
    then show ?thesis using assms(2,6,7) by (fastforce simp: value_at_snoc)
  qed
  have upt: "[0..<Suc (m + Suc k)] = [0..<Suc m] @ [Suc m..<m + Suc k] @ [m + Suc k]"
    by (metis add_Suc_right add_Suc_shift append_assoc le_add1 upt_Suc_append upt_add_eq_append zero_le)
  have "map (\<lambda>i. value_at (ds @ [d]) (t0 + int i * step)) [Suc m..<m + Suc k] = replicate k NaN_bits"
    by (rule replicate_eqI) (simp, use gap in \<open>auto simp only: set_map set_upt atLeastLessThan_iff Suc_le_eq\<close>)
  moreover have "map (\<lambda>i. value_at (ds @ [d]) (t0 + int i * step)) [0..<Suc m] = map (\<lambda>i. value_at ds (t0 + int i * step)) [0..<Suc m]"
    using old by (intro map_cong) auto
  ultimately show ?thesis using new unfolding grid_def n upt map_append by simp
qed

lemma on_grid_snoc:
  assumes "on_grid (ds @ [d]) from until step" "ds \<noteq> []"
  shows "on_grid ds from until step" "Timestamp (last ds) < Timestamp d" "step dvd Timestamp d - Timestamp (last ds)"
    "step dvd Timestamp (last ds) - Timestamp (hd ds)" "Timestamp (hd ds) \<le> Timestamp (last ds)"
    "\<forall>e \<in> set ds. Timestamp e \<le> Timestamp (last ds)"
proof -
  have s: "sorted_wrt (<) (map Timestamp ds)" "\<forall>e \<in> set ds. Timestamp e < Timestamp d"
    using assms(1) by (auto simp: on_grid_def sorted_wrt_append)
  show "on_grid ds from until step" using assms by (auto simp: on_grid_def sorted_wrt_append)
  show "Timestamp (last ds) < Timestamp d" using s(2) assms(2) by simp
  have dv: "step dvd Timestamp e - Timestamp (hd ds)" if "e \<in> set (ds @ [d])" for e
    using assms that unfolding on_grid_def list_all_iff by auto
  show l: "step dvd Timestamp (last ds) - Timestamp (hd ds)" using dv assms(2) by simp
  from dvd_diff [OF dv [of d] l] show "step dvd Timestamp d - Timestamp (last ds)" by simp
  show all: "\<forall>e \<in> set ds. Timestamp e \<le> Timestamp (last ds)"
    using s(1) assms(2) by (cases ds rule: rev_cases) (auto simp: sorted_wrt_append)
  then show "Timestamp (hd ds) \<le> Timestamp (last ds)" using assms(2) by simp
qed

lemma cached_fold_grid:
  "on_grid ds from until step \<Longrightarrow>
   foldl (cached_item from until step) \<lparr>cachedValues = [], prevTs = 0, cacheFromTime = 0, cacheUntilTime = 0\<rparr> ds =
     \<lparr>cachedValues = grid ds (Timestamp (hd ds)) (Timestamp (last ds)) step, prevTs = Timestamp (last ds),
      cacheFromTime = Timestamp (hd ds), cacheUntilTime = Timestamp (last ds)\<rparr>"
proof (induction ds rule: rev_induct)
  case (snoc d ds)
  have ok: "from \<le> Timestamp d" "Timestamp d \<le> until" "0 < Timestamp d" "Timestamp d < 2 ^ 31" "step > 0"
    using snoc.prems by (auto simp: on_grid_def)
  then have w: "wrap32 (Timestamp d) = Timestamp d" by (intro wrap32_id) auto
  show ?case
  proof (cases "ds = []")
    case True
    with ok w show ?thesis by (simp add: cached_item_def Let_def gap_fill_def grid_def value_at_simps)
  next
    case False
    note g = on_grid_snoc [OF snoc.prems False]
    have pos: "0 < Timestamp (last ds)" "0 < Timestamp (hd ds)" using g(1) False by (auto simp: on_grid_def list_all_iff)
    have "gap_fill step (Timestamp (last ds)) (Timestamp d) = replicate (nat ((Timestamp d - Timestamp (last ds)) div step) - 1) NaN_bits"
      using ok pos g by (intro gap_fill_grid) auto
    moreover have "grid (ds @ [d]) (Timestamp (hd ds)) (Timestamp d) step =
        grid ds (Timestamp (hd ds)) (Timestamp (last ds)) step @ replicate (nat ((Timestamp d - Timestamp (last ds)) div step) - 1) NaN_bits @ [Value d]"
      using ok g by (intro grid_snoc) auto
    ultimately show ?thesis using snoc.IH [OF g(1)] ok w g(2,5) pos False by (simp add: cached_item_def Let_def)
  qed
qed (simp add: on_grid_def)

section \<open>Responses\<close>

definition response_ok :: "FetchResponse \<Rightarrow> bool" where
  "response_ok r \<longleftrightarrow> length (Values r) = length (IsAbsent r) \<and> list_all (\<lambda>v. \<not> IsNaN v) (Values r)
     \<and> list_all2 (\<lambda>v a. a \<longrightarrow> v = 0) (Values r) (IsAbsent r)"

lemma not_NaN_0: "\<not> IsNaN 0"
  by (simp add: IsNaN_def f_exp_def)

lemma fetch_response_ok: "response_ok (fetch_response metric a b st vs cs)"
proof -
  have "list_all2 (\<lambda>v a. a \<longrightarrow> v = 0) (map absent_value xs) (map IsNaN xs)" for xs
    by (induction xs) (auto simp: absent_value_def)
  then show ?thesis
    by (auto simp: response_ok_def fetch_response_def list_all_iff absent_value_def not_NaN_0 intro!: list_all2_appendI)
qed

lemma fetch_file_ok: "fetch_file env metric a b cs m = (Fetched r, m') \<Longrightarrow> response_ok r"
  by (auto simp: fetch_file_def fetch_response_ok split: option.splits)

lemma fetch_metric_ok: "fetch_metric env metric a b m = (Fetched r, m') \<Longrightarrow> response_ok r"
  by (auto simp: fetch_metric_def fetch_cached_def Let_def fetch_response_ok
      split: option.splits list.splits if_splits prod.splits dest: fetch_file_ok)

lemma fetch_loop_ok:
  "fetch_loop env a b fs multi m = (Some rs, m') \<Longrightarrow> list_all response_ok multi \<Longrightarrow> list_all response_ok rs"
proof (induction env a b fs multi m rule: fetch_loop.induct)
  case (2 env a b metric leaf fs multi m)
  then show ?case by (auto split: if_splits prod.splits fetch_result.splits dest: fetch_metric_ok)
qed simp

section \<open>Paths\<close>

lemma join_slash_append: "xs \<noteq> [] \<Longrightarrow> ys \<noteq> [] \<Longrightarrow> join_slash (xs @ ys) = join_slash xs @ CHR ''/'' # join_slash ys"
proof (induction xs rule: join_slash.induct)
  case (2 c)
  then show ?case by (cases ys) auto
qed auto

lemma rel_comps_join: "wf_metric m \<Longrightarrow> join_slash (rel_comps m) = wsp_rel m"
proof -
  assume wf: "wf_metric m"
  then have "rel_comps m = split_on CHR ''/'' (wsp_rel m)"
    by (simp add: rel_comps_wf split_wsp_rel Let_def split_replace wf_metric_no_slash)
  then show ?thesis by (simp add: join_slash_split)
qed

text \<open>A directory path in canonical form, other than the file system's root.\<close>

definition clean_dir :: "string \<Rightarrow> bool" where
  "clean_dir d \<longleftrightarrow> d \<noteq> [] \<and> Clean d = d \<and> root_comps d \<noteq> []"

lemma wsp_path_clean:
  assumes "clean_dir d" "wf_metric m" shows "wsp_path d m = d @ ''/'' @ wsp_rel m"
proof -
  have d: "d = render_path (is_rooted d) (root_comps d)" using assms(1) by (simp add: clean_dir_def Clean_def root_comps_def)
  have "wsp_path d m = render_path (is_rooted d) (root_comps d @ rel_comps m)"
    using assms(1) by (intro wsp_path_comps) (simp add: clean_dir_def)
  also have "\<dots> = render_path (is_rooted d) (root_comps d) @ ''/'' @ wsp_rel m"
    using assms(1) rel_comps_not_Nil [of m] by (simp add: render_path_def join_slash_append clean_dir_def rel_comps_join [OF assms(2)])
  finally show ?thesis using d by simp
qed

lemma replace_back: "b \<notin> set m \<Longrightarrow> replace_char b a (replace_char a b m) = m"
  by (induction m) (auto simp: replace_char_def)

section \<open>Requests\<close>

text \<open>Fetching counts hits, misses and errors, and leaves the counters of requests alone.\<close>

definition same_requests :: "metricStruct \<Rightarrow> metricStruct \<Rightarrow> bool" where
  "same_requests m m' \<longleftrightarrow> RenderRequests m' = RenderRequests m \<and> FindRequests m' = FindRequests m \<and> FindErrors m' = FindErrors m \<and> FindZero m' = FindZero m
     \<and> InfoRequests m' = InfoRequests m \<and> InfoErrors m' = InfoErrors m"

lemma same_requests_refl [simp]: "same_requests m m"
  by (simp add: same_requests_def)

lemma same_requests_trans: "same_requests m m1 \<Longrightarrow> same_requests m1 m2 \<Longrightarrow> same_requests m m2"
  by (simp add: same_requests_def)

lemma fetch_metric_requests: "fetch_metric env metric a b m = (r, m') \<Longrightarrow> same_requests m m'"
  by (auto simp: fetch_metric_def fetch_file_def fetch_cached_def same_requests_def Let_def split: option.splits list.splits if_splits prod.splits)

lemma fetch_loop_requests: "fetch_loop env a b fs multi m = (r, m') \<Longrightarrow> same_requests m m'"
proof (induction env a b fs multi m rule: fetch_loop.induct)
  case (2 env a b metric leaf fs multi m)
  then show ?case
    by (auto split: if_splits prod.splits fetch_result.splits dest!: fetch_metric_requests intro: same_requests_trans)
qed simp

text \<open>
  Every render request is counted once; it is refused exactly when the format is unknown or a time is not a number, which is an error; and a body is what
  the encoder makes of the series.
\<close>

lemma render_request:
  assumes "fetchHandler globbed env enc enc_pickle target format from until m = (r, m')"
  defines "bad \<equiv> format \<notin> {''json'', ''pickle'', ''protobuf''} \<or> parse_int from = None \<or> parse_int until = None"
  shows "RenderRequests m' = RenderRequests m + 1" "FindRequests m' = FindRequests m" "InfoRequests m' = InfoRequests m"
    "(\<exists>code t. r = HttpError code t) \<longleftrightarrow> bad" "bad \<Longrightarrow> RenderErrors m' = RenderErrors m + 1"
proof -
  let ?m = "m\<lparr>RenderRequests := RenderRequests m + 1\<rparr>"
  have "(bad \<and> (\<exists>code t. r = HttpError code t) \<and> m' = ?m\<lparr>RenderErrors := RenderErrors m + 1\<rparr>)
    \<or> (\<not> bad \<and> \<not> (\<exists>code t. r = HttpError code t) \<and> same_requests ?m m')"
    using assms(1) unfolding fetchHandler_def render_body_def bad_def Let_def
    by (auto split: if_splits option.splits prod.splits dest!: fetch_loop_requests simp: same_requests_def)
  then show "RenderRequests m' = RenderRequests m + 1" "FindRequests m' = FindRequests m" "InfoRequests m' = InfoRequests m"
    "(\<exists>code t. r = HttpError code t) \<longleftrightarrow> bad" "bad \<Longrightarrow> RenderErrors m' = RenderErrors m + 1"
    by (auto simp: same_requests_def)
qed

lemma find_request:
  assumes "findHandler globbed enc enc_pickle format query m = (r, m')"
  shows "FindRequests m' = FindRequests m + 1 \<and> ((\<exists>code t. r = HttpError code t) \<longleftrightarrow> format \<notin> {''json'', ''pickle'', ''protobuf''} \<or> query = [])
    \<and> (FindZero m' \<noteq> FindZero m \<longrightarrow> globbed query = [])"
  using assms by (auto simp: findHandler_def Let_def split: if_splits option.splits)

section \<open>Properties\<close>


definition demo_fetch :: fetch_env where
  "demo_fetch = \<lparr>now = 1000, whisper_file = Some [\<lparr>secondsPerPoint = 10, maxRetention = 3600\<rparr>],
     whisper_Fetch = \<lambda>a b. Some (Some \<lparr>sValues = [NaN_bits, 0], sFrom = a, sUntil = b, sStep = 10\<rparr>), cache_reply = None, max_cap = 1000\<rparr>"

definition demo_series :: FetchResponse where
  "demo_series = \<lparr>RName = ''a'', StartTime = 900, StopTime = 920, StepTime = 10, Values = [0, 0], IsAbsent = [True, False]\<rparr>"




text \<open>C22. The persister and the server agree on the files: for a data directory in canonical form, the path the persister writes a well-formed
  metric to is the one the server opens, and a find request that meets that file returns the metric's name as a leaf.\<close>

theorem server_reads_what_persister_writes:
  assumes "clean_dir d" "wf_metric m" "stat (wsp_path d m) = Some False"
  shows "info_path d m = wsp_path d m \<and> find_entry stat d (wsp_path d m) = (m, True)"
proof -
  note p = wsp_path_clean [OF assms(1,2)]
  have "info_path d m = wsp_path d m" by (simp add: p info_path_def wsp_rel_def)
  moreover have "find_entry stat d (wsp_path d m) = (replace_char CHR ''/'' CHR ''.'' (replace_char CHR ''.'' CHR ''/'' m), True)"
    using assms(3) by (simp add: find_entry_def p wsp_rel_def HasSuffix_def suffix_def Let_def)
  ultimately show ?thesis using replace_back [of "CHR ''/''" m] wf_metric_no_slash [OF assms(2)] by simp
qed

theorem server_reads_what_persister_writes_witness:
  "wsp_path ''/data'' ''a.b'' = ''/data/a/b.wsp'' \<and> find_entry (\<lambda>_. Some False) ''/data'' ''/data/a/b.wsp'' = (''a.b'', True)"
proof -
  have p: "wsp_path ''/data'' ''a.b'' = ''/data/a/b.wsp''" by code_simp
  have "Clean ''/data'' = ''/data''" "root_comps ''/data'' = [''data'']" by code_simp+
  then have "clean_dir ''/data''" by (simp add: clean_dir_def)
  moreover have "wf_metric ''a.b''" by (simp add: wf_metric_def)
  ultimately show ?thesis using server_reads_what_persister_writes [of "''/data''" "''a.b''" "\<lambda>_. Some False"] p by simp
qed

text \<open>The request counters never leave their slice: with the slice that \<open>Listen\<close> makes, a request of any duration is counted in exactly one bucket, the last
  one for everything beyond the configured number.\<close>

theorem request_buckets:
  assumes "Carbonserver_Listen newIndex entries None l0 = Some (None, l)" "buckets l0 \<ge> 0"
  shows "\<exists>i. i < length (timeBuckets l) \<and> int i \<le> buckets l
    \<and> timeBuckets (bucketRequestTimes lg ns l) = (timeBuckets l)[i := timeBuckets l ! i + 1]"
proof -
  have "buckets l = buckets l0" "length (timeBuckets l) = nat (buckets l0 + 1)"
    using assms by (auto simp: Carbonserver_Listen_def Let_def UpdateFileIndex_def split: if_splits)
  with assms(2) show ?thesis
    by (intro exI [of _ "nat (if max 0 (lg (go_div ns 1000000)) < buckets l then max 0 (lg (go_div ns 1000000)) else buckets l)"])
      (auto simp: bucketRequestTimes_def Let_def)
qed

theorem request_buckets_witness:
  "\<exists>i. i < length (replicate 3 (0::uint64))
    \<and> timeBuckets (bucketRequestTimes (\<lambda>_. 7) 5000 ((SetBuckets 2 NewCarbonserverListener)\<lparr>timeBuckets := replicate 3 0\<rparr> :: unit CarbonserverListener)) = (replicate 3 0)[i := 1]"
proof -
  let ?l = "(SetBuckets 2 NewCarbonserverListener)\<lparr>timeBuckets := replicate 3 0\<rparr> :: unit CarbonserverListener"
  have "Carbonserver_Listen (\<lambda>_ _. []) [] (None :: unit option) (SetBuckets 2 NewCarbonserverListener) = Some (None, ?l)"
    by (simp add: Carbonserver_Listen_def SetBuckets_def NewCarbonserverListener_def Let_def numeral_3_eq_3)
  from request_buckets [OF this, of "\<lambda>_. 7" 5000] show ?thesis
    by (auto simp: SetBuckets_def NewCarbonserverListener_def nth_replicate)
qed

section \<open>Deviations\<close>

text \<open>
  When the cache covers the request, the reply's stop time is before its start time; a part of the reply without points in the range
  resets the start of the cached data, so that a hit is treated as a miss; and \<open>Stop\<close> never returns when there is no file index.
\<close>

lemma full_hit_interval:
  assumes "merge_cached reply from until step = (cached, cf, cu)" "cf \<noteq> 0" "cf \<le> from" "0 < step" "step \<le> cf" "cf < 2 ^ 31"
  shows "\<exists>r m'. fetch_cached env metric from until step reply m = (Fetched r, m') \<and> StartTime r = cf \<and> StopTime r = cf - step \<and> StopTime r < StartTime r"
  using assms by (simp add: fetch_cached_def fetch_response_def wrap32_id)

lemma empty_part_resets: "cf > 0 \<Longrightarrow> merge_part (values, cf, cu) (fetchCachedData [] from until step) = (values, 0, cu)" if "cu > 0"
  using that by (simp add: merge_part_def fetchCachedData_def)

lemma stop_blocks: "scanFrequency l0 = 0 \<Longrightarrow> exitChan l0 = False \<Longrightarrow> Carbonserver_Listen newIndex entries None l0 = Some (None, l) \<Longrightarrow> Carbonserver_Stop l = None"
  by (auto simp: Carbonserver_Listen_def Carbonserver_Stop_def Let_def split: if_splits)

end
