(* ===== verification/Glue_Model.thy ===== *)
theory Glue_Model
  imports Points_Model
begin

text \<open>
  The writer of text chunks, \<open>src/points/glue.go\<close>: it reads messages from a channel, renders their
  points as lines, and hands the lines to a callback in chunks: when a chunk would become too long, when the
  ticker fires, and when the channel is closed. The loop is driven by the list of what its \<open>select\<close>
  receives; a call of the callback is recorded as its argument.
\<close>

section \<open>The loop\<close>

datatype glue_event = GRecv "Points option" | GClosed | GTick | GExit

definition glue_flush :: "bytes \<times> bytes list \<Rightarrow> bytes \<times> bytes list" where
  "glue_flush st = (case st of (buf, calls) \<Rightarrow> if buf = [] then (buf, calls) else ([], calls @ [buf]))"

definition glue_write :: "nat \<Rightarrow> bytes \<Rightarrow> bytes \<times> bytes list \<Rightarrow> bytes \<times> bytes list" where
  "glue_write chunkSize s st =
     (let (buf, calls) = (if length (fst st) + length s > chunkSize then glue_flush st else st) in (buf @ s, calls))"

fun glue_points :: "nat \<Rightarrow> string \<Rightarrow> Point list \<Rightarrow> bytes \<times> bytes list \<Rightarrow> bytes \<times> bytes list" where
  "glue_points chunkSize m [] st = st"
| "glue_points chunkSize m (d # ds) st = glue_points chunkSize m ds (glue_write chunkSize (text_line m d) st)"

text \<open>The flag says whether \<open>Glue\<close> has returned; otherwise it waits for the next event.\<close>

fun Glue :: "nat \<Rightarrow> glue_event list \<Rightarrow> bytes \<times> bytes list \<Rightarrow> bool \<times> bytes \<times> bytes list" where
  "Glue chunkSize [] st = (False, st)"
| "Glue chunkSize (GClosed # es) st = (True, glue_flush st)"
| "Glue chunkSize (GExit # es) st = (True, st)"
| "Glue chunkSize (GTick # es) st = Glue chunkSize es (glue_flush st)"
| "Glue chunkSize (GRecv None # es) st = Glue chunkSize es st"
| "Glue chunkSize (GRecv (Some p) # es) st = Glue chunkSize es (glue_points chunkSize (Metric p) (points_of p) st)"

section \<open>What was received\<close>

definition lines_of :: "Points \<Rightarrow> bytes list" where
  "lines_of p = map (text_line (Metric p)) (points_of p)"

fun received_lines :: "glue_event list \<Rightarrow> bytes list" where
  "received_lines (GRecv (Some p) # es) = lines_of p @ received_lines es"
| "received_lines (GRecv None # es) = received_lines es"
| "received_lines (GTick # es) = received_lines es"
| "received_lines _ = []"

text \<open>
  A state is made of whole lines: the chunks already handed over and the one being filled, none of them
  longer than \<open>n\<close> bytes unless it is a single line.
\<close>

definition glued :: "nat \<Rightarrow> bytes list \<Rightarrow> bytes \<times> bytes list \<Rightarrow> bool" where
  "glued n ls st \<longleftrightarrow>
     (\<exists>gs g. snd st = map concat gs \<and> fst st = concat g \<and> concat gs @ g = ls
        \<and> list_all (\<lambda>h. h \<noteq> [] \<and> (length (concat h) \<le> n \<or> length h = 1)) gs \<and> (length (concat g) \<le> n \<or> length g = 1)
        \<and> [] \<notin> set g)"

lemma text_line_ne: "text_line m d \<noteq> []"
  by (simp add: text_line_def)

lemma glued_start: "glued n [] ([], [])"
  unfolding glued_def by (intro exI [of _ "[]"]) simp

lemma glued_flush:
  assumes "glued n ls st" shows "glued n ls (glue_flush st)"
proof (cases "fst st = []")
  case True
  then show ?thesis using assms by (cases st) (simp add: glue_flush_def)
next
  case False
  obtain gs g where g: "snd st = map concat gs" "fst st = concat g" "concat gs @ g = ls"
    "list_all (\<lambda>h. h \<noteq> [] \<and> (length (concat h) \<le> n \<or> length h = 1)) gs" "length (concat g) \<le> n \<or> length g = 1" "[] \<notin> set g"
    using assms by (auto simp: glued_def)
  have "g \<noteq> []" using False g(2) by auto
  then show ?thesis using g False unfolding glued_def
    by (intro exI [of _ "gs @ [g]"] exI [of _ "[]"]) (cases st, auto simp: glue_flush_def)
qed

lemma glue_flush_empty: "fst (glue_flush st) = []"
  by (cases st) (simp add: glue_flush_def)

lemma glued_write:
  assumes "glued n ls st" "s \<noteq> []" shows "glued n (ls @ [s]) (glue_write n s st)"
proof -
  define st1 where "st1 = (if length (fst st) + length s > n then glue_flush st else st)"
  have "glued n ls st1" using assms(1) glued_flush by (simp add: st1_def)
  then obtain gs g where g: "snd st1 = map concat gs" "fst st1 = concat g" "concat gs @ g = ls"
    "list_all (\<lambda>h. h \<noteq> [] \<and> (length (concat h) \<le> n \<or> length h = 1)) gs" "length (concat g) \<le> n \<or> length g = 1" "[] \<notin> set g"
    by (auto simp: glued_def)
  have small: "length (fst st1) + length s \<le> n \<or> fst st1 = []" by (auto simp: st1_def glue_flush_empty)
  have w: "glue_write n s st = (fst st1 @ s, snd st1)" by (simp add: glue_write_def st1_def case_prod_beta Let_def)
  have "fst st1 = [] \<Longrightarrow> g = []" using g(2,6) by (cases g) auto
  then show ?thesis unfolding glued_def w using g small assms(2)
    by (intro exI [of _ gs] exI [of _ "g @ [s]"]) auto
qed

lemma concat_map_concat: "concat (map concat gs) = concat (concat gs)"
  by (induction gs) auto

lemma glued_points: "glued n ls st \<Longrightarrow> glued n (ls @ map (text_line m) ds) (glue_points n m ds st)"
proof (induction ds arbitrary: ls st)
  case (Cons d ds)
  from Cons.IH [OF glued_write [OF Cons.prems text_line_ne [of m d]]] show ?case by simp
qed simp

lemma glued_Glue: "glued n ls st \<Longrightarrow> glued n (ls @ received_lines es) (snd (Glue n es st))"
proof (induction n es st arbitrary: ls rule: Glue.induct)
  case (6 n p es st)
  show ?case using 6(1) [OF glued_points [OF 6(2), of "Metric p" "points_of p"]] by (simp add: lines_of_def)
qed (auto intro: glued_flush)

lemma Glue_closed_empty: "GExit \<notin> set es \<Longrightarrow> GClosed \<in> set es \<Longrightarrow> fst (Glue n es st) \<and> fst (snd (Glue n es st)) = []"
  by (induction n es st rule: Glue.induct) (auto simp: glue_flush_empty)

lemma Glue_closed_bytes:
  assumes "GExit \<notin> set es" "GClosed \<in> set es"
  shows "fst (Glue n es ([], [])) \<and> concat (snd (snd (Glue n es ([], [])))) = concat (received_lines es)"
proof -
  obtain gs g where "snd (snd (Glue n es ([], []))) = map concat gs" "fst (snd (Glue n es ([], []))) = concat g"
    "concat gs @ g = received_lines es"
    using glued_Glue [OF glued_start, of n es] by (auto simp: glued_def)
  moreover from this(3) [symmetric] have "concat (received_lines es) = concat (map concat gs) @ concat g" by (simp add: concat_map_concat)
  ultimately show ?thesis using Glue_closed_empty [OF assms, of n "([], [])"] by simp
qed

section \<open>Properties\<close>

text \<open>Nothing is lost, repeated or cut: at every moment the chunks handed over, followed by the buffer, are
  the rendered lines of all messages received so far, in order; every chunk is a non-empty group of whole lines
  and is not longer than \<open>chunkSize\<close> unless it is one line.\<close>

theorem glue_chunks:
  "\<exists>gs g. snd (snd (Glue n es ([], []))) = map concat gs \<and> fst (snd (Glue n es ([], []))) = concat g
     \<and> concat gs @ g = received_lines es \<and> list_all (\<lambda>h. h \<noteq> [] \<and> (length (concat h) \<le> n \<or> length h = 1)) gs"
  using glued_Glue [OF glued_start, of n es] by (auto simp: glued_def)

text \<open>When the input channel is closed, \<open>Glue\<close> returns and everything has been handed over.\<close>

theorem glue_flushes_on_close:
  assumes "GExit \<notin> set es" "GClosed \<in> set es"
  shows "fst (Glue n es ([], [])) \<and> concat (snd (snd (Glue n es ([], [])))) = concat (received_lines es)"
  using assms by (rule Glue_closed_bytes)

theorem glue_flushes_on_close_witness:
  "fst (Glue 10 [GRecv (Some (OnePoint ''a'' 0 10)), GTick, GClosed] ([], []))
   \<and> concat (snd (snd (Glue 10 [GRecv (Some (OnePoint ''a'' 0 10)), GTick, GClosed] ([], [])))) = text_line ''a'' \<lparr>Value = 0, Timestamp = 10\<rparr>"
  using glue_flushes_on_close [of "[GRecv (Some (OnePoint ''a'' 0 10)), GTick, GClosed]" 10]
  by (simp add: lines_of_def OnePoint_def)

text \<open>On \<open>exit\<close> the loop returns without a flush: a message received since the last chunk is never handed to
  the callback.\<close>

theorem glue_exit_drops:
  "length (concat (lines_of p)) \<le> n \<Longrightarrow> Glue n [GRecv (Some p), GExit] ([], []) = (True, concat (lines_of p), [])"
proof -
  have "glue_points n m ds (buf, []) = (buf @ concat (map (text_line m) ds), [])"
    if "length buf + length (concat (map (text_line m) ds)) \<le> n" for m ds buf
    using that by (induction ds arbitrary: buf) (auto simp: glue_write_def)
  then show "length (concat (lines_of p)) \<le> n \<Longrightarrow> ?thesis" by (simp add: lines_of_def)
qed

theorem glue_exit_drops_witness:
  "Glue 4096 [GRecv (Some (OnePoint ''a'' 0 10)), GExit] ([], []) = (True, ''a 0 10'' @ [CHR 0x0A], [])"
proof -
  have "fmt_int 10 = ''10''" by code_simp
  moreover have "fmt_float 0 = ''0''" by (simp add: fmt_float_def IsNaN_def IsInf_def f_exp_def f_frac_def f_neg_def f_mant_def)
  ultimately have "concat (lines_of (OnePoint ''a'' 0 10)) = ''a 0 10'' @ [CHR 0x0A]" by (simp add: lines_of_def OnePoint_def text_line_def)
  then show ?thesis using glue_exit_drops [of "OnePoint ''a'' 0 10" 4096] by simp
qed

end
