(* ===== verification/Receiver.thy ===== *)
theory Receiver
  imports Points_Model Framing Counters
begin

text \<open>
  The receivers, \<open>src/receiver\<close>: the constructor with its options (\<open>receiver.go\<close>), the text and pickle
  handlers of a TCP connection (\<open>tcp.go\<close>), and the UDP worker with its storage of incomplete lines
  (\<open>udp.go\<close>). A connection is the bytes the peer sends, and how it ends; the callback \<open>out\<close> is the
  list of the messages it was called with. Resolving addresses, binding and accepting are arguments of
  \<open>Receiver_New\<close>.

  The two readers of text lines (TCP and UDP) share \<open>line_loop\<close>.
\<close>

section \<open>Receivers and options\<close>

record 'o TCP =
  tcp_out :: "'o option"
  tcp_name :: string
  maxPickleMessageSize :: uint32
  tcp_metricsReceived :: uint32
  tcp_errors :: uint32
  active :: int
  isPickle :: bool

record 'o UDP =
  udp_out :: "'o option"
  udp_name :: string
  udp_metricsReceived :: uint32
  incompleteReceived :: uint32
  udp_errors :: uint32
  logIncomplete :: bool

datatype 'o Receiver = RTCP "'o TCP" | RUDP "'o UDP"

type_synonym 'o Option = "'o Receiver \<Rightarrow> 'o Receiver"

definition PickleMaxMessageSize :: "uint32 \<Rightarrow> 'o Option" where
  "PickleMaxMessageSize sz r = (case r of RTCP t \<Rightarrow> RTCP (t\<lparr>maxPickleMessageSize := sz\<rparr>) | RUDP u \<Rightarrow> RUDP u)"

definition UDPLogIncomplete :: "bool \<Rightarrow> 'o Option" where
  "UDPLogIncomplete enable r = (case r of RTCP t \<Rightarrow> RTCP t | RUDP u \<Rightarrow> RUDP (u\<lparr>logIncomplete := enable\<rparr>))"

definition OutFunc :: "'o \<Rightarrow> 'o Option" where
  "OutFunc out r = (case r of RTCP t \<Rightarrow> RTCP (t\<lparr>tcp_out := Some out\<rparr>) | RUDP u \<Rightarrow> RUDP (u\<lparr>udp_out := Some out\<rparr>))"

definition rcv_Name :: "string \<Rightarrow> 'o Option" where
  "rcv_Name name r = (case r of RTCP t \<Rightarrow> RTCP (t\<lparr>tcp_name := name\<rparr>) | RUDP u \<Rightarrow> RUDP (u\<lparr>udp_name := name\<rparr>))"

datatype 'e new_error = UnknownProto string | NetError 'e

text \<open>
  \<open>parse\<close> is \<open>url.Parse\<close> (scheme and host), \<open>resolve\<close> is \<open>net.ResolveTCPAddr\<close> and \<open>net.ResolveUDPAddr\<close>, and \<open>listen\<close>
  binds the socket.
\<close>

definition Receiver_New ::
  "(string \<Rightarrow> ('e, string \<times> string) result) \<Rightarrow> (string \<Rightarrow> string \<Rightarrow> ('e, 'a) result) \<Rightarrow> ('o Receiver \<Rightarrow> 'a \<Rightarrow> 'e option)
   \<Rightarrow> string \<Rightarrow> 'o Option list \<Rightarrow> ('e new_error, 'o Receiver) result" where
  "Receiver_New parse resolve listen dsn opts =
     (case parse dsn of
        Inl e \<Rightarrow> Inl (NetError e)
      | Inr (scheme, host) \<Rightarrow>
          if scheme = ''tcp'' \<or> scheme = ''pickle''
          then (case resolve ''tcp'' host of
                  Inl e \<Rightarrow> Inl (NetError e)
                | Inr addr \<Rightarrow>
                    (let r0 = \<lparr>tcp_out = None, tcp_name = scheme, maxPickleMessageSize = (if scheme = ''pickle'' then 67108864 else 0),
                               tcp_metricsReceived = 0, tcp_errors = 0, active = 0, isPickle = (scheme = ''pickle'')\<rparr>;
                         r = fold (\<lambda>opt r. opt r) opts (RTCP r0)
                     in case listen r addr of Some e \<Rightarrow> Inl (NetError e) | None \<Rightarrow> Inr r))
          else if scheme = ''udp''
          then (case resolve ''udp'' host of
                  Inl e \<Rightarrow> Inl (NetError e)
                | Inr addr \<Rightarrow>
                    (let r0 = \<lparr>udp_out = None, udp_name = scheme, udp_metricsReceived = 0, incompleteReceived = 0,
                               udp_errors = 0, logIncomplete = False\<rparr>;
                         r = fold (\<lambda>opt r. opt r) opts (RUDP r0)
                     in case listen r addr of Some e \<Rightarrow> Inl (NetError e) | None \<Rightarrow> Inr r))
          else Inl (UnknownProto scheme))"

section \<open>Text lines\<close>

text \<open>The loop around \<open>ReadBytes('\n')\<close>: what is left when no newline comes any more.\<close>

function line_loop :: "(bytes \<Rightarrow> 's \<Rightarrow> 's) \<Rightarrow> bytes \<Rightarrow> 's \<Rightarrow> bytes \<times> 's" where
  "line_loop h s st = (case cut_line CHR 0x0A s of None \<Rightarrow> (s, st) | Some (line, rest) \<Rightarrow> line_loop h rest (h line st))"
  by pat_completeness auto
termination
  by (relation "measure (\<lambda>(h, s, st). length s)") (auto dest: cut_line_length)

declare line_loop.simps [simp del]

text \<open>What a reader of lines counts and sends.\<close>

record tally =
  received :: uint32
  bad :: uint32
  sent_out :: "Points list"

definition handle_line :: "bytes \<Rightarrow> tally \<Rightarrow> tally" where
  "handle_line line t =
     (if length line > 0
      then (case (ParseText line :: (unit parse_error, Points) result) of
              Inl _ \<Rightarrow> t\<lparr>bad := bad t + 1\<rparr>
            | Inr msg \<Rightarrow> t\<lparr>received := received t + 1, sent_out := sent_out t @ [msg]\<rparr>)
      else t)"

section \<open>TCP\<close>

text \<open>The read ends with EOF or with an error (a reset, the two-minute deadline, a closed connection).\<close>

datatype read_end = ReadEOF | ReadFailed

definition TCP_HandleConnection :: "bytes \<Rightarrow> read_end \<Rightarrow> 'o TCP \<Rightarrow> 'o TCP \<times> Points list" where
  "TCP_HandleConnection s fin rcv =
     (let rcv1 = rcv\<lparr>active := active rcv + 1\<rparr>;
          (rest, t) = line_loop handle_line s \<lparr>received = tcp_metricsReceived rcv1, bad = tcp_errors rcv1, sent_out = []\<rparr>;
          errs = (case fin of ReadEOF \<Rightarrow> bad t | ReadFailed \<Rightarrow> bad t + 1);
          rcv2 = rcv1\<lparr>tcp_metricsReceived := received t, tcp_errors := errs\<rparr>
      in (rcv2\<lparr>active := active rcv2 - 1\<rparr>, sent_out t))"

definition pickle_conn :: "'o TCP \<Rightarrow> bytes \<Rightarrow> Conn" where
  "pickle_conn rcv s = \<lparr>stream = s, PrefixLength = 4, Endianess = BigEndian, MaxFrameSize = unat (maxPickleMessageSize rcv), bytesLeft = 0\<rparr>"

fun send_messages :: "Points list \<Rightarrow> 'o TCP \<Rightarrow> Points list \<Rightarrow> 'o TCP \<times> Points list" where
  "send_messages [] rcv outs = (rcv, outs)"
| "send_messages (msg # msgs) rcv outs =
     send_messages msgs (rcv\<lparr>tcp_metricsReceived := tcp_metricsReceived rcv + word_of_nat (length (points_of msg))\<rparr>) (outs @ [msg])"

lemma pickle_frame_shrinks:
  assumes "ReadFrame (pickle_conn rcv s) = (Inr b, f1)" shows "length (stream f1) < length s"
  using assms by (auto simp: ReadFrame_def readSize_def ReadFull_def pickle_conn_def Let_def split: if_splits sum.splits)

function pickle_loop :: "('v, 'e) stalecucumber \<Rightarrow> bytes \<Rightarrow> 'o TCP \<Rightarrow> Points list \<Rightarrow> 'o TCP \<times> Points list" where
  "pickle_loop lib s rcv outs =
     (case (ReadFrame (pickle_conn rcv s) :: (unit frame_error, bytes) result \<times> Conn) of
        (Inl _, _) \<Rightarrow> (rcv\<lparr>tcp_errors := tcp_errors rcv + 1\<rparr>, outs)
      | (Inr data, f1) \<Rightarrow>
          (case ParsePickle lib data of
             Inl _ \<Rightarrow> (rcv\<lparr>tcp_errors := tcp_errors rcv + 1\<rparr>, outs)
           | Inr msgs \<Rightarrow> (let (rcv', outs') = send_messages msgs rcv outs in pickle_loop lib (stream f1) rcv' outs')))"
  by pat_completeness auto
termination
proof (relation "measure (\<lambda>(lib, s, rcv, outs). length s)", simp, goal_cases)
  case 1
  then show ?case using pickle_frame_shrinks [OF sym] by fastforce
qed

declare pickle_loop.simps [simp del]

definition handlePickle :: "('v, 'e) stalecucumber \<Rightarrow> bytes \<Rightarrow> 'o TCP \<Rightarrow> 'o TCP \<times> Points list" where
  "handlePickle lib s rcv =
     (let (rcv1, outs) = pickle_loop lib s (rcv\<lparr>active := active rcv + 1\<rparr>) [] in (rcv1\<lparr>active := active rcv1 - 1\<rparr>, outs))"

text \<open>What arrives during \<open>Stat\<close> is an argument, as in \<open>Counters\<close>.\<close>

definition TCP_Stat :: "uint32 \<Rightarrow> uint32 \<Rightarrow> 'o TCP \<Rightarrow> 'o TCP \<times> sent list" where
  "TCP_Stat got failed rcv =
     (let m = tcp_metricsReceived rcv; e = tcp_errors rcv
      in (rcv\<lparr>tcp_metricsReceived := tcp_metricsReceived rcv + got + (- m), tcp_errors := tcp_errors rcv + failed + (- e)\<rparr>,
          [(''metricsReceived'', float64_of_nat (unat m)), (''active'', float64_of_int (active rcv)), (''errors'', float64_of_nat (unat e))]))"

section \<open>UDP\<close>

record incompleteRecord =
  deadline :: int
  idata :: bytes

record incompleteStorage =
  Records :: "string \<rightharpoonup> incompleteRecord"
  Expires :: int
  NextPurge :: int
  MaxSize :: nat

text \<open>Times are nanoseconds; each reading of the clock is an argument.\<close>

definition second :: int where
  "second = 1000000000"

definition newIncompleteStorage :: "int \<Rightarrow> incompleteStorage" where
  "newIncompleteStorage now = \<lparr>Records = Map.empty, Expires = 5 * second, NextPurge = now + second, MaxSize = 10000\<rparr>"

definition storage_purge :: "int \<Rightarrow> int \<Rightarrow> incompleteStorage \<Rightarrow> incompleteStorage" where
  "storage_purge now now' st =
     st\<lparr>Records := (\<lambda>k. case Records st k of None \<Rightarrow> None | Some r \<Rightarrow> if deadline r < now then None else Some r),
        NextPurge := now' + second\<rparr>"

text \<open>\<open>nrec\<close> is \<open>len(storage.Records)\<close>.\<close>

definition nrec :: "incompleteStorage \<Rightarrow> nat" where
  "nrec st = card (dom (Records st))"

record udp_clock =
  now_pop :: int
  now_store :: int
  now_check :: int
  now_purge :: int
  now_next :: int

definition checkAndClear :: "udp_clock \<Rightarrow> incompleteStorage \<Rightarrow> incompleteStorage" where
  "checkAndClear ck st =
     (if nrec st < MaxSize st then st
      else if NextPurge st > now_check ck then st
      else storage_purge (now_purge ck) (now_next ck) st)"

definition storage_store :: "udp_clock \<Rightarrow> string \<Rightarrow> bytes \<Rightarrow> incompleteStorage \<Rightarrow> incompleteStorage" where
  "storage_store ck addr data st =
     checkAndClear ck (st\<lparr>Records := (Records st)(addr \<mapsto> \<lparr>deadline = now_store ck + Expires st, idata = data\<rparr>)\<rparr>)"

definition storage_pop :: "udp_clock \<Rightarrow> string \<Rightarrow> incompleteStorage \<Rightarrow> bytes option \<times> incompleteStorage" where
  "storage_pop ck addr st =
     (case Records st addr of
        None \<Rightarrow> (None, st)
      | Some r \<Rightarrow> (if deadline r < now_pop ck then None else Some (idata r), st\<lparr>Records := (Records st)(addr := None)\<rparr>))"

text \<open>One datagram of \<open>receiveWorker\<close>, at most 65535 bytes of it; a read error counts and changes nothing else.\<close>

definition udp_datagram :: "udp_clock \<Rightarrow> string \<Rightarrow> bytes \<Rightarrow> incompleteStorage \<times> 'o UDP \<times> Points list \<Rightarrow> incompleteStorage \<times> 'o UDP \<times> Points list" where
  "udp_datagram ck peer dgram w =
     (case w of (lines, rcv, outs) \<Rightarrow>
       (let (prev, lines1) = storage_pop ck peer lines;
            data = (case prev of Some p \<Rightarrow> p @ take 65535 dgram | None \<Rightarrow> take 65535 dgram);
            (line, t) = line_loop handle_line data \<lparr>received = udp_metricsReceived rcv, bad = udp_errors rcv, sent_out = outs\<rparr>;
            rcv1 = rcv\<lparr>udp_metricsReceived := received t, udp_errors := bad t\<rparr>
        in if length line > 0
           then (storage_store ck peer line lines1, rcv1\<lparr>incompleteReceived := incompleteReceived rcv1 + 1\<rparr>, sent_out t)
           else (lines1, rcv1, sent_out t)))"

datatype udp_event = Datagram udp_clock string bytes | UdpReadError

fun receiveWorker :: "udp_event list \<Rightarrow> incompleteStorage \<times> 'o UDP \<times> Points list \<Rightarrow> incompleteStorage \<times> 'o UDP \<times> Points list" where
  "receiveWorker [] w = w"
| "receiveWorker (Datagram ck peer dgram # es) w = receiveWorker es (udp_datagram ck peer dgram w)"
| "receiveWorker (UdpReadError # es) w =
     receiveWorker es (case w of (lines, rcv, outs) \<Rightarrow> (lines, rcv\<lparr>udp_errors := udp_errors rcv + 1\<rparr>, outs))"

definition UDP_Stat :: "uint32 \<Rightarrow> uint32 \<Rightarrow> uint32 \<Rightarrow> 'o UDP \<Rightarrow> 'o UDP \<times> sent list" where
  "UDP_Stat got incomplete failed rcv =
     (let m = udp_metricsReceived rcv; i = incompleteReceived rcv; e = udp_errors rcv
      in (rcv\<lparr>udp_metricsReceived := udp_metricsReceived rcv + got + (- m), incompleteReceived := incompleteReceived rcv + incomplete + (- i),
              udp_errors := udp_errors rcv + failed + (- e)\<rparr>,
          [(''metricsReceived'', float64_of_nat (unat m)), (''incompleteReceived'', float64_of_nat (unat i)), (''errors'', float64_of_nat (unat e))]))"

end
