(* ===== verification/Receiver_Props.thy ===== *)
theory Receiver_Props
  imports Receiver
begin

text \<open>
  What the receivers promise: every line is either a point handed on or an error counted, no valid line is lost,
  lines cut by datagram boundaries are put together again, and a pickle connection hands on all its messages.
\<close>

section \<open>Lines\<close>

lemma line_loop_none: "CHR 0x0A \<notin> set s \<Longrightarrow> line_loop h s st = (s, st)"
  using cut_line_None [of "CHR 0x0A" s] by (subst line_loop.simps) simp

lemma line_loop_cut: "cut_line CHR 0x0A s = Some (l, r) \<Longrightarrow> line_loop h s st = line_loop h r (h l st)"
  by (subst line_loop.simps) simp

lemma cut_line_extend: "cut_line c s = Some (l, r) \<Longrightarrow> cut_line c (s @ t) = Some (l, r @ t)"
  by (simp add: cut_line_Some)

lemma line_loop_append: "line_loop h (s @ t) st = line_loop h (fst (line_loop h s st) @ t) (snd (line_loop h s st))"
proof (induction h s st rule: line_loop.induct)
  case (1 h s st)
  show ?case
  proof (cases "cut_line CHR 0x0A s")
    case None
    then show ?thesis by (subst (2 3) line_loop.simps) simp
  next
    case (Some lr)
    then obtain l r where c: "cut_line CHR 0x0A s = Some (l, r)" by (cases lr) simp
    show ?thesis using 1 [OF c refl] line_loop_cut [OF c, of h st] line_loop_cut [OF cut_line_extend [OF c, of t], of h st] by simp
  qed
qed

lemma line_loop_rest: "CHR 0x0A \<notin> set (fst (line_loop h s st))"
proof (induction h s st rule: line_loop.induct)
  case (1 h s st)
  show ?case
  proof (cases "cut_line CHR 0x0A s")
    case None
    then have "CHR 0x0A \<notin> set s" by (simp add: cut_line_None)
    then show ?thesis by (simp add: line_loop_none)
  next
    case (Some lr)
    then obtain l r where c: "cut_line CHR 0x0A s = Some (l, r)" by (cases lr) simp
    show ?thesis using 1 [OF c refl] line_loop_cut [OF c, of h st] by simp
  qed
qed

text \<open>The number of lines, each counted as received or as an error.\<close>

lemma handle_line_counts:
  "l \<noteq> [] \<Longrightarrow> received (handle_line l t) + bad (handle_line l t) = received t + bad t + 1"
  "received (handle_line l t) - word_of_nat (length (sent_out (handle_line l t))) = received t - word_of_nat (length (sent_out t))"
  by (auto simp: handle_line_def split: sum.splits)

lemma count_line: "cut_line c s = Some (l, r) \<Longrightarrow> l \<noteq> [] \<and> count_list s c = Suc (count_list r c)"
proof -
  assume "cut_line c s = Some (l, r)"
  then have a: "s = l @ r" "l \<noteq> []" "last l = c" "c \<notin> set (butlast l)" by (auto simp: cut_line_Some)
  then obtain l0 where "l = l0 @ [c]" by (cases l rule: rev_cases) auto
  then show ?thesis using a by simp
qed

lemma line_loop_counts:
  "received (snd (line_loop handle_line s t)) + bad (snd (line_loop handle_line s t)) = received t + bad t + word_of_nat (count_list s CHR 0x0A)
   \<and> received (snd (line_loop handle_line s t)) - word_of_nat (length (sent_out (snd (line_loop handle_line s t)))) = received t - word_of_nat (length (sent_out t))"
proof (induction "length s" arbitrary: s t rule: less_induct)
  case less
  show ?case
  proof (cases "cut_line CHR 0x0A s")
    case None
    then have "CHR 0x0A \<notin> set s" by (simp add: cut_line_None)
    then show ?thesis by (simp add: line_loop_none)
  next
    case (Some lr)
    then obtain l r where c: "cut_line CHR 0x0A s = Some (l, r)" by (cases lr) simp
    have "l \<noteq> []" "count_list s CHR 0x0A = Suc (count_list r CHR 0x0A)" using count_line [OF c] by blast+
    then show ?thesis
      using less.hyps [OF cut_line_length [OF c], of "handle_line l t"] handle_line_counts [of l t] line_loop_cut [OF c, of handle_line t]
      by (simp add: algebra_simps)
  qed
qed

section \<open>Valid lines\<close>

definition valid_point :: "string \<times> Point \<Rightarrow> bool" where
  "valid_point x \<longleftrightarrow> text_metric (fst x) \<and> \<not> IsNaN (Value (snd x)) \<and> \<bar>Timestamp (snd x)\<bar> < 2 ^ 53"

abbreviation line_of :: "string \<times> Point \<Rightarrow> bytes" where
  "line_of x \<equiv> text_line (fst x) (snd x)"

abbreviation one_of :: "string \<times> Point \<Rightarrow> Points" where
  "one_of x \<equiv> OnePoint (fst x) (Value (snd x)) (Timestamp (snd x))"

lemma handle_valid_line: "valid_point x \<Longrightarrow> handle_line (line_of x) t = t\<lparr>received := received t + 1, sent_out := sent_out t @ [one_of x]\<rparr>"
  by (simp add: handle_line_def valid_point_def ParseText_text_line) (simp add: text_line_def)

lemma line_loop_valid:
  "list_all valid_point xs \<Longrightarrow> line_loop handle_line (concat (map line_of xs) @ rest) t =
     line_loop handle_line rest (t\<lparr>received := received t + word_of_nat (length xs), sent_out := sent_out t @ map one_of xs\<rparr>)"
proof (induction xs arbitrary: t)
  case (Cons x xs)
  have "cut_line CHR 0x0A (line_of x @ concat (map line_of xs) @ rest) = Some (line_of x, concat (map line_of xs) @ rest)"
    using Cons.prems by (intro text_line_newline) (simp add: valid_point_def)
  from line_loop_cut [OF this, of handle_line t] show ?case
    using Cons.prems Cons.IH by (simp add: handle_valid_line add.assoc)
qed simp

section \<open>Pickle connections\<close>

lemma send_messages_eq:
  "send_messages msgs rcv outs =
     (rcv\<lparr>tcp_metricsReceived := tcp_metricsReceived rcv + word_of_nat (length (concat (map points_of msgs)))\<rparr>, outs @ msgs)"
  by (induction msgs rcv outs rule: send_messages.induct) (simp_all add: add.assoc)

text \<open>The frame of a packet, whatever the size limit.\<close>

definition pickle_frame :: "bytes \<Rightarrow> bytes" where
  "pickle_frame d = put_uint BigEndian 4 (length d) @ d"

lemma pickle_ReadFrame:
  "length d \<le> unat (maxPickleMessageSize rcv) \<Longrightarrow> ReadFrame (pickle_conn rcv (pickle_frame d @ rest)) = (Inr d, pickle_conn rcv rest)"
proof -
  have "unat (maxPickleMessageSize rcv) < 2 ^ 32" using unsigned_less [of "maxPickleMessageSize rcv"] by simp
  then have "conn_ok (pickle_conn rcv (pickle_frame d @ rest))" by (simp add: conn_ok_def pickle_conn_def)
  from ReadFrame_frame [OF this, of d rest]
  show "length d \<le> unat (maxPickleMessageSize rcv) \<Longrightarrow> ?thesis" by (simp add: pickle_conn_def frame_def pickle_frame_def)
qed

lemma pickle_loop_EOF: "pickle_loop lib [] rcv outs = (rcv\<lparr>tcp_errors := tcp_errors rcv + 1\<rparr>, outs)"
  by (subst pickle_loop.simps) (simp add: ReadFrame_def readSize_def ReadFull_def pickle_conn_def)

lemma pickle_loop_one:
  assumes "length d \<le> unat (maxPickleMessageSize rcv)" "ParsePickle lib d = Inr msgs"
  shows "pickle_loop lib (pickle_frame d @ rest) rcv outs =
    pickle_loop lib rest (rcv\<lparr>tcp_metricsReceived := tcp_metricsReceived rcv + word_of_nat (length (concat (map points_of msgs)))\<rparr>) (outs @ msgs)"
proof -
  have "stream (pickle_conn rcv rest) = rest" by (simp add: pickle_conn_def)
  then show ?thesis by (subst pickle_loop.simps) (simp add: pickle_ReadFrame [OF assms(1)] assms(2) send_messages_eq)
qed

lemma pickle_loop_frames:
  "list_all2 (\<lambda>d msgs. length d \<le> mx \<and> ParsePickle lib d = Inr msgs) ds mss \<Longrightarrow> unat (maxPickleMessageSize rcv) = mx \<Longrightarrow>
   pickle_loop lib (concat (map pickle_frame ds)) rcv outs =
    (rcv\<lparr>tcp_metricsReceived := tcp_metricsReceived rcv + word_of_nat (length (concat (map points_of (concat mss)))), tcp_errors := tcp_errors rcv + 1\<rparr>,
     outs @ concat mss)"
proof (induction ds mss arbitrary: rcv outs rule: list_all2_induct)
  case Nil
  then show ?case by (simp add: pickle_loop_EOF)
next
  case (Cons d ds msgs mss)
  then show ?case by (simp add: pickle_loop_one add.assoc)
qed

section \<open>Datagrams\<close>

definition clock_ok :: "udp_clock \<Rightarrow> bool" where
  "clock_ok ck \<longleftrightarrow> now_purge ck \<le> now_store ck + 5 * second"

text \<open>Each datagram comes within five seconds of the previous one.\<close>

fun timely :: "(udp_clock \<times> bytes) list \<Rightarrow> bool" where
  "timely ((c1, d1) # (c2, d2) # xs) \<longleftrightarrow> now_pop c2 \<le> now_store c1 + 5 * second \<and> timely ((c2, d2) # xs)"
| "timely _ \<longleftrightarrow> True"

text \<open>What is pending for a peer: its record, while it has not expired.\<close>

definition pending :: "string \<Rightarrow> int \<Rightarrow> incompleteStorage \<Rightarrow> bytes" where
  "pending peer now st = (case Records st peer of None \<Rightarrow> [] | Some r \<Rightarrow> if deadline r < now then [] else idata r)"

lemma storage_pop_pending:
  "elems (fst (storage_pop ck peer st)) = pending peer (now_pop ck) st"
  "Records (snd (storage_pop ck peer st)) = (Records st)(peer := None)" "Expires (snd (storage_pop ck peer st)) = Expires st"
  by (auto simp: storage_pop_def pending_def split: option.splits)

lemma storage_store_pending:
  assumes "clock_ok ck" "Expires st = 5 * second"
  shows "now \<le> now_store ck + 5 * second \<Longrightarrow> pending peer now (storage_store ck peer l st) = l" "Expires (storage_store ck peer l st) = Expires st"
  using assms by (auto simp: storage_store_def checkAndClear_def storage_purge_def pending_def clock_ok_def)

text \<open>A datagram continues where the previous one of its peer stopped.\<close>

definition tally_of :: "'o UDP \<Rightarrow> Points list \<Rightarrow> tally" where
  "tally_of rcv outs = \<lparr>received = udp_metricsReceived rcv, bad = udp_errors rcv, sent_out = outs\<rparr>"

lemma udp_datagram_tally:
  assumes "length d \<le> 65535" "udp_datagram ck peer d (lines, rcv, outs) = (lines', rcv', outs')"
    "line_loop handle_line (pending peer (now_pop ck) lines @ d) (tally_of rcv outs) = (l, t)"
  shows "tally_of rcv' outs' = t"
    "lines' = (if l = [] then snd (storage_pop ck peer lines) else storage_store ck peer l (snd (storage_pop ck peer lines)))"
proof -
  obtain prev lines1 where p: "storage_pop ck peer lines = (prev, lines1)" by fastforce
  have "(case prev of Some p \<Rightarrow> p @ take 65535 d | None \<Rightarrow> take 65535 d) = pending peer (now_pop ck) lines @ d"
    using storage_pop_pending(1) [of ck peer lines] assms(1) by (cases prev) (simp_all add: p)
  then have "udp_datagram ck peer d (lines, rcv, outs) =
      (if l = [] then (lines1, rcv\<lparr>udp_metricsReceived := received t, udp_errors := bad t\<rparr>, sent_out t)
       else (storage_store ck peer l lines1, rcv\<lparr>udp_metricsReceived := received t, udp_errors := bad t, incompleteReceived := incompleteReceived rcv + 1\<rparr>, sent_out t))"
    using assms(3) by (simp add: udp_datagram_def p tally_of_def)
  then show "tally_of rcv' outs' = t" "lines' = (if l = [] then snd (storage_pop ck peer lines) else storage_store ck peer l (snd (storage_pop ck peer lines)))"
    using assms(2) p by (auto simp: tally_of_def split: if_splits)
qed

lemma udp_datagram_pending:
  assumes "length d \<le> 65535" "udp_datagram ck peer d (lines, rcv, outs) = (lines', rcv', outs')" "clock_ok ck" "Expires lines = 5 * second"
    "now \<le> now_store ck + 5 * second"
    "line_loop handle_line (pending peer (now_pop ck) lines @ d) (tally_of rcv outs) = (l, t)"
  shows "pending peer now lines' = l" "Expires lines' = 5 * second"
proof -
  note u = udp_datagram_tally(2) [OF assms(1,2,6)] and e = storage_pop_pending(3) [of ck peer lines]
  show "pending peer now lines' = l"
    using storage_store_pending(1) [of ck "snd (storage_pop ck peer lines)" now peer l] storage_pop_pending(2) [of ck peer lines] assms(3,4,5)
    by (simp add: u e) (simp add: pending_def)
  show "Expires lines' = 5 * second"
    using storage_store_pending(2) [of ck "snd (storage_pop ck peer lines)" peer l] assms(3,4) by (simp add: u e)
qed

lemma udp_run:
  assumes "list_all (\<lambda>(ck, d). clock_ok ck \<and> length d \<le> 65535) ((c, d) # xs)" "timely ((c, d) # xs)" "Expires lines = 5 * second"
    "receiveWorker (map (\<lambda>(ck, d). Datagram ck peer d) ((c, d) # xs)) (lines, rcv, outs) = (lines', rcv', outs')"
  shows "tally_of rcv' outs' = snd (line_loop handle_line (pending peer (now_pop c) lines @ concat (map snd ((c, d) # xs))) (tally_of rcv outs))"
  using assms
proof (induction xs arbitrary: c d lines rcv outs)
  case Nil
  obtain l t where lt: "line_loop handle_line (pending peer (now_pop c) lines @ d) (tally_of rcv outs) = (l, t)" by fastforce
  have "udp_datagram c peer d (lines, rcv, outs) = (lines', rcv', outs')" "length d \<le> 65535" using Nil.prems by simp_all
  then show ?case using udp_datagram_tally(1) [of d c peer lines rcv outs lines' rcv' outs' l t] lt by simp
next
  case (Cons x xs)
  obtain c2 d2 where x: "x = (c2, d2)" by fastforce
  obtain l t where lt: "line_loop handle_line (pending peer (now_pop c) lines @ d) (tally_of rcv outs) = (l, t)" by fastforce
  obtain lines1 rcv1 outs1 where u: "udp_datagram c peer d (lines, rcv, outs) = (lines1, rcv1, outs1)" by (metis prod_cases3)
  have d: "length d \<le> 65535" "clock_ok c" "now_pop c2 \<le> now_store c + 5 * second" using Cons.prems by (simp_all add: x)
  note t1 = udp_datagram_tally(1) [OF d(1) u lt] and p1 = udp_datagram_pending [OF d(1) u d(2) Cons.prems(3) d(3) lt]
  have "tally_of rcv' outs' = snd (line_loop handle_line (l @ concat (map snd ((c2, d2) # xs))) t)"
    using Cons.IH [of c2 d2 lines1 rcv1 outs1] Cons.prems u t1 p1 by (simp add: x)
  also have "\<dots> = snd (line_loop handle_line ((pending peer (now_pop c) lines @ d) @ concat (map snd ((c2, d2) # xs))) (tally_of rcv outs))"
    by (subst (2) line_loop_append) (simp add: lt)
  finally show ?case by (simp add: x)
qed

section \<open>Properties\<close>

text \<open>C17. A client that sends the lines of any points (values that are not NaN, timestamps within \<open>2^53\<close>) over TCP and closes
  the connection has all of them handed on, in order, each counted once, with no error, and the connection is no longer active.\<close>

theorem tcp_text_delivery:
  assumes "list_all valid_point xs"
  shows "TCP_HandleConnection (concat (map line_of xs)) ReadEOF rcv =
    (rcv\<lparr>tcp_metricsReceived := tcp_metricsReceived rcv + word_of_nat (length xs)\<rparr>, map one_of xs)"
  using line_loop_valid [OF assms, of "[]"] by (simp add: TCP_HandleConnection_def line_loop_none)

definition sample_tcp :: "unit TCP" where
  "sample_tcp = \<lparr>tcp_out = None, tcp_name = ''tcp'', maxPickleMessageSize = 100, tcp_metricsReceived = 5, tcp_errors = 0, active = 0, isPickle = False\<rparr>"

theorem tcp_text_delivery_witness:
  "TCP_HandleConnection (concat (map line_of [(''a'', \<lparr>Value = 0, Timestamp = 10\<rparr>), (''b.c'', \<lparr>Value = 0x4045133333333333, Timestamp = 11\<rparr>)])) ReadEOF sample_tcp =
    (sample_tcp\<lparr>tcp_metricsReceived := 7\<rparr>, [OnePoint ''a'' 0 10, OnePoint ''b.c'' 0x4045133333333333 11])"
  using tcp_text_delivery [of "[(''a'', \<lparr>Value = 0, Timestamp = 10\<rparr>), (''b.c'', \<lparr>Value = 0x4045133333333333, Timestamp = 11\<rparr>)]" sample_tcp]
  by (simp add: valid_point_def text_metric_def IsNaN_def f_exp_def f_frac_def sample_tcp_def)

text \<open>Whatever bytes a text connection sends, each line it finishes is either handed on or counted as an error, never both and
  never neither: the counters grow by the number of newlines, and the received counter by the number of messages handed on.\<close>

theorem tcp_line_accounting:
  "\<exists>rcv' outs. TCP_HandleConnection s ReadEOF rcv = (rcv', outs) \<and> active rcv' = active rcv
    \<and> tcp_metricsReceived rcv' = tcp_metricsReceived rcv + word_of_nat (length outs)
    \<and> tcp_metricsReceived rcv' + tcp_errors rcv' = tcp_metricsReceived rcv + tcp_errors rcv + word_of_nat (count_list s CHR 0x0A)"
proof -
  define t where "t = \<lparr>received = tcp_metricsReceived rcv, bad = tcp_errors rcv, sent_out = []\<rparr>"
  define r where "r = line_loop handle_line s t"
  have e: "TCP_HandleConnection s ReadEOF rcv = (rcv\<lparr>tcp_metricsReceived := received (snd r), tcp_errors := bad (snd r)\<rparr>, sent_out (snd r))"
    by (simp add: TCP_HandleConnection_def t_def [symmetric] r_def [symmetric] case_prod_beta)
  have c1: "received (snd r) + bad (snd r) = tcp_metricsReceived rcv + tcp_errors rcv + word_of_nat (count_list s CHR 0x0A)"
    using line_loop_counts [of s t] by (simp add: r_def t_def)
  have c2: "received (snd r) = tcp_metricsReceived rcv + word_of_nat (length (sent_out (snd r)))"
    using line_loop_counts [of s t] by (simp add: r_def t_def diff_eq_eq)
  show ?thesis by (intro exI conjI, rule e, simp, simp add: c2, simp add: c1)
qed

text \<open>C16. A peer may cut its stream of lines into datagrams anywhere: when each datagram comes within five seconds of the previous one,
  the points handed on and both counters are those of the whole stream.\<close>

theorem udp_reassembly:
  assumes "list_all (\<lambda>(ck, d). clock_ok ck \<and> length d \<le> 65535) ((c, d) # xs)" "timely ((c, d) # xs)"
    "receiveWorker (map (\<lambda>(ck, d). Datagram ck peer d) ((c, d) # xs)) (newIncompleteStorage now, rcv, []) = (lines', rcv', outs')"
  shows "\<lparr>received = udp_metricsReceived rcv', bad = udp_errors rcv', sent_out = outs'\<rparr> =
    snd (line_loop handle_line (concat (map snd ((c, d) # xs))) \<lparr>received = udp_metricsReceived rcv, bad = udp_errors rcv, sent_out = []\<rparr>)"
proof -
  have "Expires (newIncompleteStorage now) = 5 * second" "pending peer (now_pop c) (newIncompleteStorage now) = []"
    by (simp_all add: newIncompleteStorage_def pending_def)
  with udp_run [OF assms(1,2) _ assms(3)] show ?thesis by (simp add: tally_of_def)
qed

definition sample_udp :: "unit UDP" where
  "sample_udp = \<lparr>udp_out = None, udp_name = ''udp'', udp_metricsReceived = 0, incompleteReceived = 0, udp_errors = 0, logIncomplete = False\<rparr>"

definition sample_clock :: udp_clock where
  "sample_clock = \<lparr>now_pop = 0, now_store = 0, now_check = 0, now_purge = 0, now_next = 0\<rparr>"

theorem udp_reassembly_witness:
  "\<exists>lines' rcv' outs'. receiveWorker (map (\<lambda>(ck, d). Datagram ck ''p'' d) [(sample_clock, ''a 1''), (sample_clock, '' 10'' @ [CHR 0x0A])])
      (newIncompleteStorage 0, sample_udp, []) = (lines', rcv', outs')
    \<and> \<lparr>received = udp_metricsReceived rcv', bad = udp_errors rcv', sent_out = outs'\<rparr>
        = snd (line_loop handle_line (''a 1 10'' @ [CHR 0x0A]) \<lparr>received = 0, bad = 0, sent_out = []\<rparr>)"
proof -
  obtain lines' rcv' outs' where r: "receiveWorker (map (\<lambda>(ck, d). Datagram ck ''p'' d) [(sample_clock, ''a 1''), (sample_clock, '' 10'' @ [CHR 0x0A])])
      (newIncompleteStorage 0, sample_udp, []) = (lines', rcv', outs')" by (metis prod_cases3)
  from udp_reassembly [OF _ _ r] show ?thesis unfolding r
    by (simp add: clock_ok_def sample_clock_def second_def sample_udp_def)
qed

text \<open>A datagram of one peer leaves what another peer has pending alone, unless that has expired.\<close>

theorem udp_isolation:
  assumes "q \<noteq> peer" "udp_datagram ck peer d (lines, rcv, outs) = (lines', rcv', outs')" "\<And>r. Records lines q = Some r \<Longrightarrow> now_purge ck \<le> deadline r"
  shows "Records lines' q = Records lines q"
proof -
  have "Records (snd (storage_pop ck peer lines)) q = Records lines q" using assms(1) by (simp add: storage_pop_pending(2))
  moreover have "Records (storage_store ck peer l st) q = Records st q" if "Records st q = Records lines q" for l st
    using that assms(1,3) by (auto simp: storage_store_def checkAndClear_def storage_purge_def split: option.splits)
  ultimately show ?thesis using assms(2)
    by (auto simp: udp_datagram_def Let_def case_prod_beta split: if_splits)
qed

theorem udp_isolation_witness:
  "Records (fst (udp_datagram sample_clock ''p'' ''x'' ((newIncompleteStorage 0)\<lparr>Records := [''q'' \<mapsto> \<lparr>deadline = 1, idata = ''y''\<rparr>]\<rparr>, sample_udp, []))) ''q''
   = Some \<lparr>deadline = 1, idata = ''y''\<rparr>"
proof -
  obtain l r os where u: "udp_datagram sample_clock ''p'' ''x'' ((newIncompleteStorage 0)\<lparr>Records := [''q'' \<mapsto> \<lparr>deadline = 1, idata = ''y''\<rparr>]\<rparr>, sample_udp, []) = (l, r, os)"
    by (metis prod_cases3)
  from udp_isolation [OF _ u, of "''q''"] show ?thesis unfolding u by (simp add: sample_clock_def)
qed

text \<open>C18. A pickle connection that sends framed packets, each within the size limit and each a list of well-formed messages, has
  all messages of all packets handed on in order, and the counter grows by their points. (The end of the stream is counted as an error.)\<close>

theorem pickle_delivery:
  assumes "list_all2 (\<lambda>d msgs. length d \<le> unat (maxPickleMessageSize rcv) \<and> ParsePickle lib d = Inr msgs) ds mss"
  shows "handlePickle lib (concat (map pickle_frame ds)) rcv =
    (rcv\<lparr>tcp_metricsReceived := tcp_metricsReceived rcv + word_of_nat (length (concat (map points_of (concat mss)))), tcp_errors := tcp_errors rcv + 1\<rparr>,
     concat mss)"
  using pickle_loop_frames [OF assms, of "rcv\<lparr>active := active rcv + 1\<rparr>" "[]"] by (simp add: handlePickle_def)

theorem pickle_delivery_witness:
  "handlePickle (sample_lib (PkSeq [PkSeq [PkStr ''m'', PkSeq [PkInt 60, PkFloat 7]]])) (concat (map pickle_frame [''abc''])) sample_tcp =
    (sample_tcp\<lparr>tcp_metricsReceived := 6, tcp_errors := 1\<rparr>, [\<lparr>Metric = ''m'', Data = Some [\<lparr>Value = 7, Timestamp = 60\<rparr>]\<rparr>])"
proof -
  have "ParsePickle (sample_lib (PkSeq [PkSeq [PkStr ''m'', PkSeq [PkInt 60, PkFloat 7]]])) ''abc''
      = Inr [\<lparr>Metric = ''m'', Data = Some [\<lparr>Value = 7, Timestamp = 60\<rparr>]\<rparr>]"
    by (simp add: ParsePickle_def sample_lib_def pickle_timestamp_def pickle_value_def New_def Add_def go_append_def)
  then show ?thesis
    using pickle_delivery [of sample_tcp "sample_lib (PkSeq [PkSeq [PkStr ''m'', PkSeq [PkInt 60, PkFloat 7]]])" "[''abc'']"
        "[[\<lparr>Metric = ''m'', Data = Some [\<lparr>Value = 7, Timestamp = 60\<rparr>]\<rparr>]]"]
    by (simp add: sample_tcp_def)
qed

end
