(* ===== verification/Grace_Model.thy ===== *)
theory Grace_Model
  imports Glue_Model Cache_Props Receiver_Props Whisper_Props "HOL-Library.Char_ord" "HOL-Library.List_Lexorder"
begin

text \<open>
  The dump of the cache and of the input at a graceful stop, and the restore at the next start: \<open>GraceStopDump\<close>,
  \<open>RestoreFromFile\<close>, \<open>RestoreFromDir\<close> and \<open>Restore\<close> of \<open>src/carbon/grace.go\<close>. The file system is an argument: what a
  call returns is a field of \<open>dump_env\<close>, the files of the dump directory are a listing and a function to their contents.
\<close>

section \<open>Reading lines\<close>

text \<open>
  \<open>bufio.Reader\<close> with \<open>ReadLine\<close>: a line without its end (LF or CR LF), or, when the buffer is full before the line ends,
  as much as fits, less a CR at its end; the rest of the file without a line end is a line too. None is the end of the file.
\<close>

definition buf_size :: "nat \<Rightarrow> nat" where
  "buf_size n = max 16 n"

definition drop_eol :: "bytes \<Rightarrow> bytes" where
  "drop_eol l = (let b = butlast l in if b \<noteq> [] \<and> last b = CHR 0x0D then butlast b else b)"

definition ReadLine :: "nat \<Rightarrow> bytes \<Rightarrow> (bytes \<times> bytes) option" where
  "ReadLine n s =
     (let full = take (buf_size n) s
      in if s = [] then None
         else (case cut_line CHR 0x0A full of
                 Some (l, _) \<Rightarrow> Some (drop_eol l, drop (length l) s)
               | None \<Rightarrow>
                   if length s < buf_size n then Some (s, [])
                   else if last full = CHR 0x0D then Some (butlast full, drop (length full - 1) s)
                   else Some (full, drop (length full) s)))"

lemma ReadLine_shrinks: "ReadLine n s = Some (l, r) \<Longrightarrow> length r < length s"
  by (auto simp: ReadLine_def Let_def buf_size_def cut_line_Some split: if_splits option.splits)

section \<open>Restore\<close>

text \<open>A line that is not empty is parsed; one that cannot be is logged and skipped.\<close>

definition restore_line :: "bytes \<Rightarrow> Points list" where
  "restore_line line =
     (if line = [] then [] else (case ParseText line :: (unit parse_error, Points) result of Inl _ \<Rightarrow> [] | Inr p \<Rightarrow> [p]))"

function restore_loop :: "nat \<Rightarrow> bytes \<Rightarrow> Points list \<Rightarrow> Points list" where
  "restore_loop n s out = (case ReadLine n s of None \<Rightarrow> out | Some (line, rest) \<Rightarrow> restore_loop n rest (out @ restore_line line))"
  by pat_completeness auto
termination
  by (relation "measure (\<lambda>(n, s, out). length s)") (auto dest: ReadLine_shrinks)

declare restore_loop.simps [simp del]

text \<open>A file: it cannot be opened, or it has these bytes, after which a read may fail instead of ending.\<close>

type_synonym 'e dump_file = "('e, bytes \<times> 'e option) result"

definition RestoreFromFile :: "'e dump_file \<Rightarrow> 'e option \<times> Points list" where
  "RestoreFromFile file =
     (case file of Inl e \<Rightarrow> (Some e, []) | Inr (content, readErr) \<Rightarrow> (readErr, restore_loop (1024 * 1024) content []))"

text \<open>The names of dumps with a prefix to sort them by: the time, and the cache before the input.\<close>

definition sort_prefixed :: "string \<Rightarrow> string option" where
  "sort_prefixed name =
     (let r = split_on CHR ''.'' name
      in if length r < 3 then None
         else if r ! 0 = ''cache'' then Some (r ! 2 @ ''_1:'' @ name)
         else if r ! 0 = ''input'' then Some (r ! 2 @ ''_2:'' @ name)
         else None)"

definition after_colon :: "string \<Rightarrow> string" where
  "after_colon s = tl (dropWhile (\<lambda>c. c \<noteq> CHR '':'') s)"

definition dump_files :: "(string \<times> bool) list \<Rightarrow> string list" where
  "dump_files files =
     map after_colon (sort (List.map_filter (\<lambda>(name, isDir). if isDir then None else sort_prefixed name) files))"

text \<open>The messages restored, and the names of the files removed: every file that was tried, also one that failed.\<close>

fun restore_files :: "(string \<Rightarrow> 'e dump_file) \<Rightarrow> string list \<Rightarrow> Points list" where
  "restore_files content [] = []"
| "restore_files content (fn # fns) = snd (RestoreFromFile (content fn)) @ restore_files content fns"

definition RestoreFromDir :: "('e, (string \<times> bool) list) result \<Rightarrow> (string \<Rightarrow> 'e dump_file) \<Rightarrow> Points list \<times> string list" where
  "RestoreFromDir listing content =
     (case listing of Inl e \<Rightarrow> ([], []) | Inr files \<Rightarrow> (restore_files content (dump_files files), dump_files files))"

text \<open>
  \<open>Restore\<close> sends what it reads to the cache's input, through the throttle when a rate is set: then \<open>es\<close> is what the
  throttle's loop receives, and None says that such a run does not exist.
\<close>

definition Restore :: "int \<Rightarrow> throttle_event list \<Rightarrow> ('e, (string \<times> bool) list) result \<Rightarrow> (string \<Rightarrow> 'e dump_file) \<Rightarrow> Points list option" where
  "Restore rps es listing content =
     (let msgs = fst (RestoreFromDir listing content)
      in if rps > 0
         then (case throttle (fst (snd (throttle_params (nat rps)))) 0 es [] of
                 None \<Rightarrow> None
               | Some (sent, _) \<Rightarrow> if thr_msgs es = [0..<length msgs] then Some (map ((!) msgs) sent) else None)
         else Some msgs)"

section \<open>Dump\<close>

record 'e dump_env =
  create_snap :: "'e option"
  create_xlog :: "'e option"
  write_snap :: "'e option"
  close_snap :: "'e option"
  write_xlog :: "'e option"
  close_xlog :: "'e option"

record 'e dump_result =
  dump_err :: "'e option"
  snap_file :: "bytes option"
  xlog_file :: "bytes option"
  cache_stopped :: bool
  listeners_stopped :: bool

definition dump_aborted :: "'e \<Rightarrow> bool \<Rightarrow> 'e dump_result" where
  "dump_aborted e stopped = \<lparr>dump_err = Some e, snap_file = None, xlog_file = None, cache_stopped = stopped, listeners_stopped = False\<rparr>"

definition glue_bytes :: "glue_event list \<Rightarrow> bytes" where
  "glue_bytes es = concat (snd (snd (Glue 65536 es ([], []))))"

text \<open>
  What goes to the snapshot: the messages left in the closed output channel (\<open>outEvents\<close> is what \<open>Glue\<close> receives from it),
  then the cache. A \<open>bufio.Writer\<close> keeps the first error and returns it from every later write and from \<open>Flush\<close>:
  \<open>write_snap\<close> is that error, and the dump is given up whether \<open>Dump\<close> or \<open>Flush\<close> reports it.
\<close>

definition snap_bytes :: "glue_event list \<Rightarrow> string list \<Rightarrow> memory \<Rightarrow> Cache \<Rightarrow> bytes" where
  "snap_bytes outEvents order mem c =
     (case Cache_Dump (\<lambda>w b. Inr (w @ b) :: (unit, bytes) result) order mem c (glue_bytes outEvents) of
        Inl (_, w) \<Rightarrow> w | Inr w \<Rightarrow> w)"

definition GraceStopDump ::
  "'e dump_env \<Rightarrow> glue_event list \<Rightarrow> glue_event list \<Rightarrow> string list \<Rightarrow> memory \<Rightarrow> Cache \<Rightarrow> 'e dump_result" where
  "GraceStopDump env outEvents inEvents order mem c =
     (case create_snap env of Some e \<Rightarrow> dump_aborted e False
      | None \<Rightarrow>
     (case create_xlog env of Some e \<Rightarrow> dump_aborted e False
      | None \<Rightarrow>
     (case write_snap env of Some e \<Rightarrow> dump_aborted e True
      | None \<Rightarrow>
     (case close_snap env of Some e \<Rightarrow> dump_aborted e True
      | None \<Rightarrow>
          \<lparr>dump_err = (case write_xlog env of Some e \<Rightarrow> Some e | None \<Rightarrow> close_xlog env),
           snap_file = Some (snap_bytes outEvents order mem c),
           xlog_file = (if write_xlog env = None then Some (glue_bytes inEvents) else None),
           cache_stopped = True, listeners_stopped = True\<rparr>))))"

end
