(* ===== verification/Grace_Props.thy ===== *)
theory Grace_Props
  imports Grace_Model
begin

text \<open>
  What a dump keeps: restoring the snapshot of a graceful stop gives back, for every metric, the points that were on
  their way out followed by those in the cache; the files of a dump directory are restored in the order of their times.
\<close>

section \<open>The lines of a dump\<close>

definition flat :: "Points \<Rightarrow> (string \<times> Point) list" where
  "flat p = map (Pair (Metric p)) (points_of p)"

fun glue_msgs :: "glue_event list \<Rightarrow> Points list" where
  "glue_msgs (GRecv (Some p) # es) = p # glue_msgs es"
| "glue_msgs (GRecv None # es) = glue_msgs es"
| "glue_msgs (GTick # es) = glue_msgs es"
| "glue_msgs _ = []"

lemma received_lines_flat: "received_lines es = map line_of (concat (map flat (glue_msgs es)))"
  by (induction es rule: received_lines.induct) (auto simp: lines_of_def flat_def)

lemma dump_points_total:
  "dump_points (\<lambda>w b. Inr (w @ b)) m ds w = Inr (w @ concat (map (text_line m) ds))"
  by (induction ds arbitrary: w) auto

lemma dump_metrics_total:
  "dump_metrics (\<lambda>w b. Inr (w @ b)) ps w = Inr (w @ concat (map line_of (concat (map flat ps))))"
  by (induction ps arbitrary: w) (auto simp: dump_points_total flat_def comp_def)

definition snap_points :: "glue_event list \<Rightarrow> string list \<Rightarrow> memory \<Rightarrow> Cache \<Rightarrow> (string \<times> Point) list" where
  "snap_points outEvents order mem c = concat (map flat (glue_msgs outEvents @ map mem (List.map_filter (data c) order)))"

lemma snap_bytes_eq:
  assumes "GExit \<notin> set outEvents" "GClosed \<in> set outEvents"
  shows "snap_bytes outEvents order mem c = concat (map line_of (snap_points outEvents order mem c))"
  using Glue_closed_bytes [OF assms, of 65536]
  by (simp add: snap_bytes_def Cache_Dump_def dump_metrics_total glue_bytes_def snap_points_def received_lines_flat)

section \<open>Reading them back\<close>

lemma text_line_last:
  "\<exists>b c. text_line m d = b @ [c, CHR 0x0A] \<and> c \<noteq> CHR 0x0D"
proof -
  let ?f = "fmt_int (Timestamp d)"
  have ne: "?f \<noteq> []" by (simp add: fmt_int_def)
  then have "?f = butlast ?f @ [last ?f]" by simp
  moreover have "last ?f \<noteq> CHR 0x0D" using no_cutset_fmt_int [of "CHR 0x0D" "Timestamp d"] ne last_in_set by force
  ultimately show ?thesis
    by (intro exI [of _ "m @ [CHR '' ''] @ fmt_float (Value d) @ [CHR '' ''] @ butlast ?f"] exI [of _ "last ?f"])
      (simp add: text_line_def)
qed

lemma trim_text_line_body:
  assumes "text_metric m" "text_line m d = l @ [CHR 0x0A]"
  shows "trim line_cutset l = trim line_cutset (text_line m d)"
proof -
  have "m \<noteq> [] \<and> hd m \<notin> set line_cutset" using assms(1) by (cases m) (auto simp: text_metric_def)
  moreover have "l \<noteq> [] \<and> hd l = hd m" using assms calculation by (auto simp: text_line_def hd_append neq_Nil_conv append_eq_Cons_conv)
  ultimately have "trim_left line_cutset l = l" "trim_left line_cutset (text_line m d) = text_line m d"
    by (auto intro!: trim_left_id simp: text_line_def)
  then show ?thesis using trim_right_end [of "[CHR 0x0A]" line_cutset l] unfolding trim_def assms(2) by simp
qed

lemma ParseText_body:
  assumes "valid_point x" "line_of x = l @ [CHR 0x0A]"
  shows "ParseText l = (Inr (one_of x) :: (unit parse_error, Points) result)"
proof -
  have "text_metric (fst x)" using assms(1) by (simp add: valid_point_def)
  from split_text_line [OF this, of "snd x"] trim_text_line_body [OF this assms(2)]
  have "split_on CHR '' '' (trim line_cutset l) = [fst x, fmt_float (Value (snd x)), fmt_int (Timestamp (snd x))]" by simp
  with assms(1) ParseFloat_int_roundtrip [of "Timestamp (snd x)"] ParseFloat_fmt_float [of "Value (snd x)"]
  show ?thesis by (auto simp: ParseText_def valid_point_def)
qed

lemma ReadLine_line:
  assumes "cut_line CHR 0x0A s = Some (l, r)" "length l \<le> buf_size n"
  shows "ReadLine n s = Some (drop_eol l, r)"
proof -
  from assms(1) have s: "s = l @ r" "l \<noteq> []" by (auto simp: cut_line_Some)
  have "cut_line CHR 0x0A (take (buf_size n) s) = Some (l, take (buf_size n - length l) r)"
    using assms s by (simp add: cut_line_Some)
  then show ?thesis using s by (simp add: ReadLine_def)
qed

lemma restore_valid_line:
  assumes "valid_point x" shows "restore_line (drop_eol (line_of x)) = [one_of x]"
proof -
  obtain b c where l: "line_of x = (b @ [c]) @ [CHR 0x0A]" "c \<noteq> CHR 0x0D" using text_line_last [of "fst x" "snd x"] by auto
  then have "drop_eol (line_of x) = b @ [c]" by (simp add: drop_eol_def Let_def butlast_append)
  then show ?thesis using ParseText_body [OF assms l(1)] by (simp add: restore_line_def)
qed

lemma restore_valid:
  "list_all (\<lambda>x. valid_point x \<and> length (line_of x) \<le> buf_size n) xs \<Longrightarrow>
   restore_loop n (concat (map line_of xs)) out = out @ map one_of xs"
proof (induction xs arbitrary: out)
  case Nil
  then show ?case by (subst restore_loop.simps) (simp add: ReadLine_def)
next
  case (Cons x xs)
  have "cut_line CHR 0x0A (line_of x @ concat (map line_of xs)) = Some (line_of x, concat (map line_of xs))"
    using Cons.prems by (intro text_line_newline) (simp add: valid_point_def)
  then have "ReadLine n (concat (map line_of (x # xs))) = Some (drop_eol (line_of x), concat (map line_of xs))"
    using Cons.prems by (simp add: ReadLine_line)
  with Cons restore_valid_line [of x] show ?case by (subst restore_loop.simps) simp
qed

section \<open>Filling a cache\<close>

text \<open>Messages at different addresses that are not in the cache can all be added, whatever they are.\<close>

lemma Cache_Add_other: "cache_inv mem c \<Longrightarrow> Cache_Add p mem c = (mem', c') \<Longrightarrow> a \<notin> ran (data c) \<Longrightarrow> mem' a = mem a"
  by (auto simp: Cache_Add_def Let_def ran_def split: option.splits)

lemma run_puts:
  "cache_inv mem c \<Longrightarrow> distinct as \<Longrightarrow> set as \<inter> ran (data c) = {} \<Longrightarrow>
   \<exists>s'. cache_run (mem, c) (map Put as) = Some (map (\<lambda>a. (Metric (mem a), points_of (mem a))) as, [], s')"
proof (induction as arbitrary: mem c)
  case Nil
  then show ?case by (simp add: cache_run_def)
next
  case (Cons a as)
  obtain mem' c' where add: "Cache_Add a mem c = (mem', c')" by fastforce
  note other = Cache_Add_other [OF Cons.prems(1) add]
  have "cache_inv mem' c'" using inv_Add [OF Cons.prems(1) _ add] Cons.prems(3) by simp
  moreover have "set as \<inter> ran (data c') = {}" using ran_Add [OF Cons.prems(1) add] Cons.prems(2,3) by auto
  ultimately obtain s' where
    r: "cache_run (mem', c') (map Put as) = Some (map (\<lambda>a. (Metric (mem' a), points_of (mem' a))) as, [], s')"
    using Cons.IH [of mem' c'] Cons.prems(2) by auto
  have "mem' x = mem x" if "x \<in> set as" for x using that other [of x] Cons.prems(3) by auto
  then have "map (\<lambda>a. (Metric (mem' a), points_of (mem' a))) as = map (\<lambda>a. (Metric (mem a), points_of (mem a))) as"
    by (intro map_cong) auto
  with r show ?case using Cons.prems(3) add
    by (intro exI [of _ s']) (simp add: cache_run_def cache_put_def cache_fresh_def cache_item_def)
qed

section \<open>Points of a metric in a dump\<close>

definition on_metric :: "string \<Rightarrow> (string \<times> Point) list \<Rightarrow> Point list" where
  "on_metric m xs = map snd (filter (\<lambda>x. fst x = m) xs)"

lemma on_metric_append [simp]: "on_metric m (xs @ ys) = on_metric m xs @ on_metric m ys"
  by (simp add: on_metric_def)

lemma on_metric_flat: "on_metric m (flat p) = (if Metric p = m then points_of p else [])"
  by (auto simp: on_metric_def flat_def filter_map comp_def)

lemma on_metric_msgs: "on_metric m (concat (map flat ps)) = of_metric m (map (\<lambda>p. (Metric p, points_of p)) ps)"
  by (induction ps) (auto simp: on_metric_flat, simp add: on_metric_def)

lemma on_metric_entries:
  assumes "cache_inv mem c" "distinct ks" "set ks \<subseteq> dom (data c)"
  shows "on_metric m (concat (map flat (map mem (List.map_filter (data c) ks)))) = (if m \<in> set ks then elems (contents mem c m) else [])"
  using assms(2,3)
proof (induction ks)
  case Nil
  then show ?case by (simp add: on_metric_def List.map_filter_simps)
next
  case (Cons k ks)
  then obtain a where a: "data c k = Some a" by auto
  then have "Metric (mem a) = k" using cache_invD(2) [OF assms(1)] by auto
  with a Cons show ?case by (auto simp: List.map_filter_simps on_metric_flat contents_def)
qed

lemma snap_points_metric:
  assumes "cache_inv mem c" "visits order (data c)"
  shows "on_metric m (snap_points outEvents order mem c) =
    of_metric m (map (\<lambda>p. (Metric p, points_of p)) (glue_msgs outEvents)) @ elems (contents mem c m)"
proof -
  have "contents mem c m = None" if "m \<notin> set order" using that assms(2) by (auto simp: visits_def contents_def domIff)
  moreover have "on_metric m (concat (map flat (map mem (List.map_filter (data c) order)))) = (if m \<in> set order then elems (contents mem c m) else [])"
    using assms by (intro on_metric_entries) (auto simp: visits_def)
  ultimately show ?thesis by (auto simp: snap_points_def on_metric_msgs)
qed

lemma on_metric_one: "of_metric m (map (\<lambda>p. (Metric p, points_of p)) (map one_of xs)) = on_metric m xs"
  by (induction xs) (auto simp: OnePoint_def on_metric_def)

section \<open>Properties\<close>

text \<open>C4. A graceful stop and the next start keep the data: if the dump writes its snapshot, then restoring that file into a fresh cache
  (the restored messages at whatever distinct addresses) gives every metric the points that were in the output channel
  followed by the points that were in the cache, in this order. The points are those the text protocol can carry: metric names
  without white space, no NaN, timestamps below 2^53, and lines no longer than the read buffer.\<close>

theorem dump_restore:
  assumes "cache_inv mem c" "visits order (data c)" "GExit \<notin> set outEvents" "GClosed \<in> set outEvents"
    and "snap_file (GraceStopDump env outEvents inEvents order mem c) = Some snap"
    and "list_all (\<lambda>x. valid_point x \<and> length (line_of x) \<le> 1048576) (snap_points outEvents order mem c)"
    and "RestoreFromFile (Inr (snap, None :: 'e option)) = (err, msgs)"
    and "map mem0 as = msgs" "distinct as"
  shows "err = None \<and> (\<exists>ins mem' c'. cache_run (mem0, Cache_New) (map Put as) = Some (ins, [], (mem', c'))
    \<and> (\<forall>m. elems (contents mem' c' m) =
          of_metric m (map (\<lambda>p. (Metric p, points_of p)) (glue_msgs outEvents)) @ elems (contents mem c m)))"
proof -
  let ?xs = "snap_points outEvents order mem c"
  from assms(5) have "snap = concat (map line_of ?xs)"
    using snap_bytes_eq [OF assms(3,4)] by (auto simp: GraceStopDump_def dump_aborted_def split: option.splits)
  moreover have "list_all (\<lambda>x. valid_point x \<and> length (line_of x) \<le> buf_size (1024 * 1024)) ?xs"
    using assms(6) by (simp add: list_all_iff buf_size_def)
  ultimately have msgs: "err = None" "msgs = map one_of ?xs"
    using assms(7) restore_valid [of "1024 * 1024" ?xs "[]"] by (simp_all add: RestoreFromFile_def)
  obtain mem' c' where r: "cache_run (mem0, Cache_New) (map Put as) =
      Some (map (\<lambda>a. (Metric (mem0 a), points_of (mem0 a))) as, [], (mem', c'))"
    using run_puts [OF inv_New assms(9), of mem0] by (auto simp: Cache_New_def)
  have "elems (contents mem' c' m) = on_metric m ?xs" for m
  proof -
    have "elems (contents mem0 Cache_New m) @ of_metric m (map (\<lambda>a. (Metric (mem0 a), points_of (mem0 a))) as) =
        of_metric m [] @ elems (contents mem' c' m)"
      using store.run_fifo [of "(mem0, Cache_New)" "map Put as" _ "[]" "(mem', c')" m] r by (simp add: cache_run_def inv_New)
    moreover have "map (\<lambda>a. (Metric (mem0 a), points_of (mem0 a))) as = map (\<lambda>p. (Metric p, points_of p)) msgs"
      unfolding assms(8) [symmetric] by simp
    ultimately show ?thesis by (simp add: contents_New msgs(2) on_metric_one del: map_map)
  qed
  with r msgs(1) snap_points_metric [OF assms(1,2)] show ?thesis by auto
qed

definition demo_points :: "int \<Rightarrow> Points" where
  "demo_points t = OnePoint ''a'' 0 t"

definition demo_cache :: Cache where
  "demo_cache = Cache_New\<lparr>data := [''a'' \<mapsto> 0], csize := 1, sizeShared := 1, metricCount := 1\<rparr>"

definition demo_dump :: "unit dump_env" where
  "demo_dump = \<lparr>create_snap = None, create_xlog = None, write_snap = None, close_snap = None, write_xlog = None, close_xlog = None\<rparr>"

lemma demo_cache_inv: "cache_inv (\<lambda>_. demo_points 10) demo_cache"
proof -
  have add: "Cache_Add 0 (\<lambda>_. demo_points 10) Cache_New = ((\<lambda>_. demo_points 10), demo_cache)"
    by (simp add: Cache_Add_def demo_points_def demo_cache_def Cache_New_def OnePoint_def)
  show ?thesis by (rule inv_Add [OF inv_New _ add]) (simp add: Cache_New_def)
qed

lemma demo_line_length:
  "length (text_line ''a'' \<lparr>Value = 0, Timestamp = 5\<rparr>) \<le> 1048576" "length (text_line ''a'' \<lparr>Value = 0, Timestamp = 10\<rparr>) \<le> 1048576"
proof -
  have "fmt_int 10 = ''10''" "fmt_int 5 = ''5''" by code_simp+
  moreover have "fmt_float 0 = ''0''" by (simp add: fmt_float_def IsNaN_def IsInf_def f_exp_def f_frac_def f_neg_def f_mant_def)
  ultimately show "length (text_line ''a'' \<lparr>Value = 0, Timestamp = 5\<rparr>) \<le> 1048576" "length (text_line ''a'' \<lparr>Value = 0, Timestamp = 10\<rparr>) \<le> 1048576"
    by (simp_all add: text_line_def)
qed

theorem dump_restore_witness:
  "\<exists>snap msgs ins mem' c'.
     snap_file (GraceStopDump demo_dump [GRecv (Some (demo_points 5)), GClosed] [] [''a''] (\<lambda>_. demo_points 10) demo_cache) = Some snap
     \<and> RestoreFromFile (Inr (snap, None :: unit option)) = (None, msgs)
     \<and> cache_run ((!) msgs, Cache_New) (map Put [0, 1]) = Some (ins, [], (mem', c'))
     \<and> elems (contents mem' c' ''a'') = [\<lparr>Value = 0, Timestamp = 5\<rparr>, \<lparr>Value = 0, Timestamp = 10\<rparr>]"
proof -
  let ?es = "[GRecv (Some (demo_points 5)), GClosed]" and ?mem = "\<lambda>_ :: addr. demo_points 10"
  let ?snap = "snap_bytes ?es [''a''] ?mem demo_cache"
  let ?xs = "[(''a'', \<lparr>Value = 0, Timestamp = 5\<rparr>), (''a'', \<lparr>Value = 0, Timestamp = 10\<rparr>)]"
  have vis: "visits [''a''] (data demo_cache)" by (auto simp: visits_def demo_cache_def)
  have xs: "snap_points ?es [''a''] ?mem demo_cache = ?xs"
    by (simp add: snap_points_def flat_def demo_points_def OnePoint_def demo_cache_def List.map_filter_simps)
  have valid: "list_all (\<lambda>x. valid_point x \<and> length (line_of x) \<le> 1048576) ?xs"
    using demo_line_length by (simp add: valid_point_def text_metric_def IsNaN_def f_exp_def f_frac_def)
  have sf: "snap_file (GraceStopDump demo_dump ?es [] [''a''] ?mem demo_cache) = Some ?snap"
    by (simp add: GraceStopDump_def demo_dump_def)
  have rest: "RestoreFromFile (Inr (?snap, None :: unit option)) = (None, map one_of ?xs)"
    using valid restore_valid [of "1024 * 1024" ?xs "[]"] snap_bytes_eq [of ?es "[''a'']" ?mem demo_cache]
    by (simp add: RestoreFromFile_def xs buf_size_def)
  have "map ((!) (map one_of ?xs)) [0, 1] = map one_of ?xs" by simp
  from dump_restore [OF demo_cache_inv vis _ _ sf _ rest this, unfolded xs, OF _ _ valid]
  obtain ins mem' c' where r: "cache_run ((!) (map one_of ?xs), Cache_New) (map Put [0, 1]) = Some (ins, [], (mem', c'))"
    and e: "elems (contents mem' c' ''a'') = of_metric ''a'' (map (\<lambda>p. (Metric p, points_of p)) (glue_msgs ?es)) @ elems (contents ?mem demo_cache ''a'')"
    by auto
  have "of_metric ''a'' (map (\<lambda>p. (Metric p, points_of p)) (glue_msgs ?es)) @ elems (contents ?mem demo_cache ''a'') =
      [\<lparr>Value = 0, Timestamp = 5\<rparr>, \<lparr>Value = 0, Timestamp = 10\<rparr>]"
    by (simp add: demo_points_def OnePoint_def contents_def demo_cache_def)
  with e have e': "elems (contents mem' c' ''a'') = [\<lparr>Value = 0, Timestamp = 5\<rparr>, \<lparr>Value = 0, Timestamp = 10\<rparr>]" by (rule trans)
  show ?thesis by (intro exI conjI) (rule sf, rule rest, rule r, rule e')
qed

section \<open>The order of the files\<close>

text \<open>A dump file: a name \<open>cache.pid.time\<close> or \<open>input.pid.time\<close>, the time in nanoseconds with nineteen digits.\<close>

definition dump_name :: "bool \<Rightarrow> string \<Rightarrow> string \<Rightarrow> string" where
  "dump_name isInput pid t = (if isInput then ''input'' else ''cache'') @ ''.'' @ pid @ ''.'' @ t"

definition dump_time :: "string \<Rightarrow> nat" where
  "dump_time name = 2 * digits_val (split_on CHR ''.'' name ! 2) + (if hd name = CHR ''i'' then 1 else 0)"

definition wf_dump :: "nat \<Rightarrow> string \<Rightarrow> bool" where
  "wf_dump n name \<longleftrightarrow> (\<exists>isInput pid t. name = dump_name isInput pid t \<and> CHR ''.'' \<notin> set pid \<and> list_all is_digit t \<and> length t = n)"

lemma le_append_same_length:
  fixes t1 :: "char list"
  shows "length t1 = length t2 \<Longrightarrow> t1 @ r1 \<le> t2 @ r2 \<longleftrightarrow> t1 < t2 \<or> (t1 = t2 \<and> r1 \<le> r2)"
  by (induction t1 t2 rule: list_induct2) auto

lemma digits_val_Cons: "digits_val (c # s) = digit_val c * 10 ^ length s + digits_val s"
  using digits_val_append [of "[c]" s] by (simp add: digits_val_def)

lemma digits_val_less:
  "length s = length t \<Longrightarrow> list_all is_digit s \<Longrightarrow> list_all is_digit t \<Longrightarrow> s < t \<Longrightarrow> digits_val s < digits_val t"
proof (induction s t rule: list_induct2)
  case (Cons c s d t)
  show ?case
  proof (cases "c = d")
    case True
    with Cons show ?thesis by (simp add: digits_val_Cons)
  next
    case False
    with Cons have "c < d" by auto
    then have "digit_val c + 1 \<le> digit_val d" using Cons.prems by (auto simp: less_char_def digit_val_def is_digit_def)
    then have "(digit_val c + 1) * 10 ^ length s \<le> digit_val d * 10 ^ length s" by (rule mult_right_mono) simp
    with digits_val_bound [of s] Cons show ?thesis by (simp add: digits_val_Cons algebra_simps)
  qed
qed simp

definition sort_key_of :: "string \<Rightarrow> string" where
  "sort_key_of name = split_on CHR ''.'' name ! 2 @ CHR ''_'' # (if hd name = CHR ''i'' then ''2:'' else ''1:'') @ name"

lemma wf_dumpE:
  assumes "wf_dump n name"
  obtains i pid t where "name = dump_name i pid t" "split_on CHR ''.'' name = [if i then ''input'' else ''cache'', pid, t]"
    "list_all is_digit t" "length t = n" "hd name = CHR ''i'' \<longleftrightarrow> i"
proof -
  from assms obtain i pid t where n: "name = dump_name i pid t" "CHR ''.'' \<notin> set pid" "list_all is_digit t" "length t = n"
    by (auto simp: wf_dump_def)
  have "CHR ''.'' \<notin> set t" using n(3) by (auto simp: list_all_iff is_digit_def)
  moreover have "CHR ''.'' \<notin> set (if i then ''input'' else ''cache'')" by simp
  ultimately have "split_on CHR ''.'' name = [if i then ''input'' else ''cache'', pid, t]"
    unfolding n(1) dump_name_def using n(2) by (simp add: split_on_append_sep split_on_no_sep)
  with n show ?thesis by (intro that [of i pid t]) (auto simp: dump_name_def)
qed

lemma sort_prefixed_wf:
  assumes "wf_dump n name" shows "sort_prefixed name = Some (sort_key_of name)" "after_colon (sort_key_of name) = name"
proof -
  from assms obtain i pid t where n: "split_on CHR ''.'' name = [if i then ''input'' else ''cache'', pid, t]"
    "list_all is_digit t" "hd name = CHR ''i'' \<longleftrightarrow> i" by (rule wf_dumpE)
  then show "sort_prefixed name = Some (sort_key_of name)" by (auto simp: sort_prefixed_def sort_key_of_def Let_def)
  have "\<forall>c \<in> set t. c \<noteq> CHR '':''" using n(2) by (auto simp: list_all_iff is_digit_def)
  with n show "after_colon (sort_key_of name) = name"
    by (auto simp: after_colon_def sort_key_of_def dropWhile_append2)
qed

lemma sort_key_of_le:
  assumes "wf_dump n a" "wf_dump n b" "sort_key_of a \<le> sort_key_of b" shows "dump_time a \<le> dump_time b"
proof -
  from assms(1) obtain i p t where a: "split_on CHR ''.'' a = [if i then ''input'' else ''cache'', p, t]"
    "list_all is_digit t" "length t = n" "hd a = CHR ''i'' \<longleftrightarrow> i" by (rule wf_dumpE)
  from assms(2) obtain j q u where b: "split_on CHR ''.'' b = [if j then ''input'' else ''cache'', q, u]"
    "list_all is_digit u" "length u = n" "hd b = CHR ''i'' \<longleftrightarrow> j" by (rule wf_dumpE)
  from assms(3) a b have "t < u \<or> t = u \<and> CHR ''_'' # (if i then ''2:'' else ''1:'') @ a \<le> CHR ''_'' # (if j then ''2:'' else ''1:'') @ b"
    by (simp add: sort_key_of_def le_append_same_length)
  moreover have "\<not> CHR ''_'' # ''2:'' @ a \<le> CHR ''_'' # ''1:'' @ b" by (simp add: less_eq_char_def less_char_def)
  ultimately consider "t < u" | "t = u" "i \<longrightarrow> j" by (auto split: if_splits)
  then show ?thesis
  proof cases
    case 1
    from digits_val_less [OF _ a(2) b(2) 1] a b show ?thesis by (simp add: dump_time_def)
  qed (use a b in \<open>auto simp: dump_time_def\<close>)
qed

lemma map_filter_wf:
  assumes "\<forall>x \<in> set files. \<not> snd x \<longrightarrow> wf_dump n (fst x)"
  shows "List.map_filter (\<lambda>(name, isDir). if isDir then None else sort_prefixed name) files = map sort_key_of (map fst (filter (\<lambda>x. \<not> snd x) files))"
  using assms by (induction files) (auto simp: List.map_filter_simps sort_prefixed_wf)

text \<open>C29. The dumps of a directory are restored each exactly once, in the order of the times in their names and, for one time, the cache before the input
  that arrived during the dump. (Times with equally many digits, as nanoseconds have until the year 2286.)\<close>

theorem restore_in_time_order:
  assumes "\<forall>x \<in> set files. \<not> snd x \<longrightarrow> wf_dump n (fst x)"
  shows "mset (dump_files files) = mset (map fst (filter (\<lambda>x. \<not> snd x) files)) \<and> sorted (map dump_time (dump_files files))"
proof -
  define ns where "ns = map fst (filter (\<lambda>x. \<not> snd x) files)"
  have wf: "wf_dump n a" if "a \<in> set ns" for a using that assms by (auto simp: ns_def)
  have df: "dump_files files = map after_colon (sort (map sort_key_of ns))"
    by (simp only: dump_files_def map_filter_wf [OF assms] ns_def)
  have "mset (map after_colon (sort (map sort_key_of ns))) = image_mset (after_colon \<circ> sort_key_of) (mset ns)"
    by (simp add: multiset.map_comp o_assoc)
  also have "\<dots> = image_mset id (mset ns)" by (rule image_mset_cong) (use sort_prefixed_wf(2) [OF wf] in simp)
  finally have m: "mset (dump_files files) = mset ns" unfolding df by simp
  have key: "after_colon k \<in> set ns \<and> k = sort_key_of (after_colon k)" if "k \<in> set (sort (map sort_key_of ns))" for k
    using that wf sort_prefixed_wf(2) [OF wf] by auto
  have "sorted_wrt (\<lambda>a b. dump_time (after_colon a) \<le> dump_time (after_colon b)) (sort (map sort_key_of ns))"
  proof (rule sorted_wrt_mono_rel [OF _ sorted_sort])
    fix a b assume "a \<in> set (sort (map sort_key_of ns))" "b \<in> set (sort (map sort_key_of ns))" "a \<le> b"
    with key sort_key_of_le [of n "after_colon a" "after_colon b"] wf
    show "dump_time (after_colon a) \<le> dump_time (after_colon b)" by metis
  qed
  with m show ?thesis unfolding ns_def [symmetric] df by (simp add: sorted_map sorted_wrt_map)
qed

theorem restore_in_time_order_witness:
  "mset (dump_files [(''input.7.20'', False), (''cache.7.20'', False), (''sub'', True)]) = {#''input.7.20'', ''cache.7.20''#}
   \<and> sorted (map dump_time (dump_files [(''input.7.20'', False), (''cache.7.20'', False), (''sub'', True)]))"
proof -
  have "wf_dump 2 ''input.7.20''" "wf_dump 2 ''cache.7.20''"
    unfolding wf_dump_def by (rule exI [of _ True], rule exI [of _ "''7''"], rule exI [of _ "''20''"], simp add: dump_name_def is_digit_def)
      (rule exI [of _ False], rule exI [of _ "''7''"], rule exI [of _ "''20''"], simp add: dump_name_def is_digit_def)
  then show ?thesis using restore_in_time_order [of "[(''input.7.20'', False), (''cache.7.20'', False), (''sub'', True)]" 2] by simp
qed

end
