(* ===== verification/Stoppable_Model.thy ===== *)
theory Stoppable_Model
  imports Go_Prelude
begin

text \<open>
  The life cycle every component embeds, \<open>src/helper/stoppable.go\<close>: \<open>Start\<close>, \<open>Stop\<close>, \<open>StartFunc\<close>, \<open>StopFunc\<close> and the
  functions \<open>Go\<close> and \<open>WithExit\<close> a start procedure uses. The object is a record; around it \<open>sworld\<close> has the runtime's
  part: the channels closed so far, the goroutines that run (each by the exit channel it was given), whether an operation
  holds the lock in \<open>wg.Wait\<close>, and whether the program has panicked (a nil function called, a channel closed twice).

  A start procedure is the number of times it calls \<open>Go\<close> and the error it returns. Operations that hold the lock exclude
  each other: those that do not wait are one step, a stop is a step up to \<open>wg.Wait\<close> and a step after it.
\<close>

section \<open>The object\<close>

text \<open>The functions in \<open>Go\<close> and \<open>WithExit\<close>: nil before the first start, bound to an exit channel, or the ones \<open>doStop\<close> leaves.\<close>

datatype go_fn = NilFn | Bound nat | NoOp

record Stoppable =
  exit_ch :: "nat option"
  wg :: nat
  Go :: go_fn
  WithExit :: go_fn

datatype lock_state = Unlocked | WaitLocked

record sworld =
  obj :: Stoppable
  next_chan :: nat
  closed_chans :: "nat list"
  running :: "nat list"
  lock :: lock_state
  panicked :: bool

definition sworld_init :: sworld where
  "sworld_init = \<lparr>obj = \<lparr>exit_ch = None, wg = 0, Go = NilFn, WithExit = NilFn\<rparr>, next_chan = 0, closed_chans = [],
     running = [], lock = Unlocked, panicked = False\<rparr>"

record 'e start_proc =
  go_calls :: nat
  proc_err :: "'e option"

section \<open>Operations\<close>

definition call_Go :: "sworld \<Rightarrow> sworld" where
  "call_Go w = (case Go (obj w) of
       NilFn \<Rightarrow> w\<lparr>panicked := True\<rparr>
     | Bound c \<Rightarrow> w\<lparr>obj := (obj w)\<lparr>wg := wg (obj w) + 1\<rparr>, running := c # running w\<rparr>
     | NoOp \<Rightarrow> w)"

text \<open>The channel \<open>WithExit\<close> hands to its argument, None for nil.\<close>

definition call_WithExit :: "sworld \<Rightarrow> nat option" where
  "call_WithExit w = (case WithExit (obj w) of Bound c \<Rightarrow> Some c | _ \<Rightarrow> None)"

definition goroutine_done :: "nat \<Rightarrow> sworld \<Rightarrow> sworld" where
  "goroutine_done c w = w\<lparr>obj := (obj w)\<lparr>wg := wg (obj w) - 1\<rparr>, running := remove1 c (running w)\<rparr>"

definition close_chan :: "nat \<Rightarrow> sworld \<Rightarrow> sworld" where
  "close_chan c w = (if c \<in> set (closed_chans w) then w\<lparr>panicked := True\<rparr> else w\<lparr>closed_chans := c # closed_chans w\<rparr>)"

text \<open>\<open>doStop\<close> up to \<open>wg.Wait\<close>, and what follows when the wait is over.\<close>

definition doStop :: "sworld \<Rightarrow> sworld" where
  "doStop w = (case exit_ch (obj w) of None \<Rightarrow> w | Some c \<Rightarrow> (close_chan c w)\<lparr>lock := WaitLocked\<rparr>)"

definition doStop_finish :: "sworld \<Rightarrow> sworld" where
  "doStop_finish w = w\<lparr>obj := (obj w)\<lparr>exit_ch := None, Go := NoOp, WithExit := NoOp\<rparr>, lock := Unlocked\<rparr>"

definition run_start :: "'e start_proc \<Rightarrow> sworld \<Rightarrow> sworld" where
  "run_start startProcedure w =
     (let c = next_chan w
      in (call_Go ^^ go_calls startProcedure)
           (w\<lparr>obj := (obj w)\<lparr>exit_ch := Some c, Go := Bound c, WithExit := Bound c\<rparr>, next_chan := c + 1\<rparr>))"

definition StartFunc :: "'e start_proc \<Rightarrow> sworld \<Rightarrow> 'e option \<times> sworld" where
  "StartFunc startProcedure w =
     (if exit_ch (obj w) \<noteq> None then (None, w)
      else (let w1 = run_start startProcedure w
            in (case proc_err startProcedure of None \<Rightarrow> (None, w1) | Some e \<Rightarrow> (Some e, doStop w1))))"

definition StopFunc :: "sworld \<Rightarrow> sworld" where
  "StopFunc w = (if exit_ch (obj w) = None then w else doStop w)"

definition Start :: "sworld \<Rightarrow> sworld" where
  "Start w = snd (StartFunc \<lparr>go_calls = 0, proc_err = None :: unit option\<rparr> w)"

definition Stop :: "sworld \<Rightarrow> sworld" where
  "Stop w = StopFunc w"

text \<open>The steps of a program: calls of the operations, goroutines that start others or end, and the end of a wait.\<close>

inductive sstep :: "sworld \<Rightarrow> sworld \<Rightarrow> bool" where
  step_start: "lock w = Unlocked \<Longrightarrow> sstep w (snd (StartFunc (proc :: string start_proc) w))"
| step_stop: "lock w = Unlocked \<Longrightarrow> sstep w (StopFunc w)"
| step_spawn: "running w \<noteq> [] \<Longrightarrow> sstep w (call_Go w)"
| step_done: "c \<in> set (running w) \<Longrightarrow> sstep w (goroutine_done c w)"
| step_wait: "lock w = WaitLocked \<Longrightarrow> wg (obj w) = 0 \<Longrightarrow> sstep w (doStop_finish w)"

inductive_cases sstepE: "sstep w w'"

section \<open>The abstract life cycle\<close>

text \<open>What a component promises: it is off, on or stopping, with a number of goroutines; it is off only with none.\<close>

datatype life = Off | On nat | Stopping nat

inductive life_step :: "life \<Rightarrow> life \<Rightarrow> bool" where
  life_start: "life_step Off (On n)"
| life_fail: "life_step Off (Stopping n)"
| life_stop: "life_step (On n) (Stopping n)"
| life_spawn: "n > 0 \<Longrightarrow> life_step (On n) (On (Suc n))"
| life_exit: "life_step (On (Suc n)) (On n)"
| life_late_spawn: "n > 0 \<Longrightarrow> life_step (Stopping n) (Stopping (Suc n))"
| life_drain: "life_step (Stopping (Suc n)) (Stopping n)"
| life_off: "life_step (Stopping 0) Off"

definition life_of :: "sworld \<Rightarrow> life" where
  "life_of w = (case exit_ch (obj w) of None \<Rightarrow> Off
     | Some c \<Rightarrow> if lock w = WaitLocked then Stopping (length (running w)) else On (length (running w)))"

section \<open>The invariant\<close>

text \<open>
  The wait group counts the goroutines; they all have the current exit channel; every channel made before is closed, and
  the current one exactly when a stop is under way; no channel has been closed twice and nothing has panicked.
\<close>

definition stop_inv :: "sworld \<Rightarrow> bool" where
  "stop_inv w \<longleftrightarrow> \<not> panicked w \<and> wg (obj w) = length (running w) \<and> distinct (closed_chans w)
     \<and> (case exit_ch (obj w) of
          None \<Rightarrow> running w = [] \<and> lock w = Unlocked \<and> set (closed_chans w) = {..<next_chan w}
        | Some c \<Rightarrow> next_chan w = Suc c \<and> Go (obj w) = Bound c \<and> WithExit (obj w) = Bound c \<and> set (running w) \<subseteq> {c}
            \<and> set (closed_chans w) = (if lock w = WaitLocked then {..c} else {..<c}))"

lemmas stop_defs = StopFunc_def doStop_def close_chan_def doStop_finish_def call_Go_def goroutine_done_def

text \<open>The goroutines of the start procedure.\<close>

lemma call_Go_bound:
  "Go (obj w) = Bound c \<Longrightarrow> (call_Go ^^ n) w =
     w\<lparr>obj := (obj w)\<lparr>wg := wg (obj w) + n\<rparr>, running := replicate n c @ running w\<rparr>"
  by (induction n) (auto simp: call_Go_def)

lemma inv_run_start:
  assumes "stop_inv w" "exit_ch (obj w) = None"
  shows "stop_inv (run_start proc w) \<and> exit_ch (obj (run_start proc w)) = Some (next_chan w)
    \<and> lock (run_start proc w) = Unlocked \<and> running (run_start proc w) = replicate (go_calls proc) (next_chan w)"
proof -
  let ?w = "w\<lparr>obj := (obj w)\<lparr>exit_ch := Some (next_chan w), Go := Bound (next_chan w), WithExit := Bound (next_chan w)\<rparr>,
              next_chan := next_chan w + 1\<rparr>"
  have eq: "run_start proc w = ?w\<lparr>obj := (obj ?w)\<lparr>wg := wg (obj ?w) + go_calls proc\<rparr>,
      running := replicate (go_calls proc) (next_chan w) @ running ?w\<rparr>"
    unfolding run_start_def Let_def by (rule call_Go_bound) simp
  from assms have "running w = []" "lock w = Unlocked" "set (closed_chans w) = {..<next_chan w}" "\<not> panicked w"
    "wg (obj w) = 0" "distinct (closed_chans w)" by (simp_all add: stop_inv_def)
  then show ?thesis unfolding eq stop_inv_def by (simp add: set_replicate_conv_if)
qed

lemma StartFunc_StopFunc:
  "exit_ch (obj w) = None \<Longrightarrow> exit_ch (obj (run_start proc w)) \<noteq> None \<Longrightarrow>
   snd (StartFunc proc w) = (if proc_err proc = None then run_start proc w else StopFunc (run_start proc w))"
  by (auto simp: StartFunc_def StopFunc_def Let_def split: option.splits)

lemma inv_stop: "stop_inv w \<Longrightarrow> lock w = Unlocked \<Longrightarrow> stop_inv (StopFunc w)"
  by (auto simp: stop_inv_def stop_defs split: option.splits)

lemma inv_spawn: "stop_inv w \<Longrightarrow> running w \<noteq> [] \<Longrightarrow> stop_inv (call_Go w)"
  by (auto simp: stop_inv_def call_Go_def split: option.splits)

lemma inv_done: "stop_inv w \<Longrightarrow> c \<in> set (running w) \<Longrightarrow> stop_inv (goroutine_done c w)"
  by (auto simp: stop_inv_def goroutine_done_def length_remove1 split: option.splits dest: notin_set_remove1 in_set_remove1)

lemma inv_wait: "stop_inv w \<Longrightarrow> lock w = WaitLocked \<Longrightarrow> wg (obj w) = 0 \<Longrightarrow> stop_inv (doStop_finish w)"
  by (auto simp: stop_inv_def doStop_finish_def lessThan_Suc_atMost split: option.splits)

lemma inv_start: "stop_inv w \<Longrightarrow> stop_inv (snd (StartFunc proc w))"
proof (cases "exit_ch (obj w)")
  case None
  moreover assume "stop_inv w"
  ultimately show ?thesis using inv_run_start [of w proc] by (simp add: StartFunc_StopFunc inv_stop)
qed (simp add: StartFunc_def)

lemma life_start_step:
  assumes "stop_inv w" "lock w = Unlocked"
  shows "life_of w = life_of (snd (StartFunc proc w)) \<or> life_step (life_of w) (life_of (snd (StartFunc proc w)))"
proof (cases "exit_ch (obj w)")
  case None
  from inv_run_start [OF assms(1) None, of proc] show ?thesis
    by (auto simp: StartFunc_StopFunc None life_of_def stop_defs intro: life_start life_fail)
qed (simp add: StartFunc_def)

lemma life_stop_step:
  "stop_inv w \<Longrightarrow> lock w = Unlocked \<Longrightarrow> life_of w = life_of (StopFunc w) \<or> life_step (life_of w) (life_of (StopFunc w))"
  by (auto simp: life_of_def stop_defs stop_inv_def split: option.splits intro: life_stop)

lemma life_spawn_step:
  "stop_inv w \<Longrightarrow> running w \<noteq> [] \<Longrightarrow> life_step (life_of w) (life_of (call_Go w))"
  by (auto simp: life_of_def call_Go_def stop_inv_def split: option.splits intro: life_spawn life_late_spawn)

lemma life_done_step:
  assumes "stop_inv w" "c \<in> set (running w)" shows "life_step (life_of w) (life_of (goroutine_done c w))"
proof -
  from assms(2) have "length (running w) = Suc (length (remove1 c (running w)))"
    by (metis One_nat_def Suc_pred length_pos_if_in_set length_remove1)
  with assms show ?thesis
    by (auto simp: life_of_def goroutine_done_def stop_inv_def split: option.splits intro: life_exit life_drain)
qed

lemma life_wait_step:
  "stop_inv w \<Longrightarrow> lock w = WaitLocked \<Longrightarrow> wg (obj w) = 0 \<Longrightarrow> life_step (life_of w) (life_of (doStop_finish w))"
  by (auto simp: life_of_def doStop_finish_def stop_inv_def split: option.splits intro: life_off)

interpretation stoppable: simulation_system "\<lambda>w. w = sworld_init" sstep stop_inv life_of "\<lambda>a. a = Off" life_step
proof unfold_locales
  show "stop_inv w" if "w = sworld_init" for w
    using that by (simp add: stop_inv_def sworld_init_def)
  show "life_of w = Off" if "w = sworld_init" for w
    using that by (simp add: life_of_def sworld_init_def)
  show "stop_inv w'" if "stop_inv w" "sstep w w'" for w w'
    using that(2,1) by cases (auto intro: inv_start inv_stop inv_spawn inv_done inv_wait)
  show "life_of w = life_of w' \<or> life_step (life_of w) (life_of w')" if "stop_inv w" "sstep w w'" for w w'
    using that(2,1) by cases (blast dest: life_start_step life_stop_step life_spawn_step life_done_step life_wait_step)+
qed

section \<open>Properties\<close>

abbreviation reach :: "sworld \<Rightarrow> bool" where
  "reach \<equiv> reachable (\<lambda>w. w = sworld_init) sstep"


text \<open>C19. In every reachable state nothing has panicked, the wait group counts the goroutines exactly, no exit channel has been
  closed twice, every goroutine waits on the current exit channel, and when the object is stopped there is no goroutine
  and every exit channel it ever made is closed.\<close>

theorem stoppable_safe:
  assumes "reachable (\<lambda>w. w = sworld_init) sstep w"
  shows "\<not> panicked w \<and> wg (obj w) = length (running w) \<and> distinct (closed_chans w)
    \<and> (\<forall>c \<in> set (running w). exit_ch (obj w) = Some c)
    \<and> (exit_ch (obj w) = None \<longrightarrow> running w = [] \<and> set (closed_chans w) = {..<next_chan w})"
  using stoppable.inv_reachable [OF assms] by (auto simp: stop_inv_def split: option.splits)

definition demo_start :: "sworld" where
  "demo_start = snd (StartFunc (\<lparr>go_calls = 2, proc_err = Some ''bind''\<rparr> :: string start_proc) sworld_init)"

lemma demo_reach: "reach demo_start"
  unfolding demo_start_def by (rule reachable.reachable_step [OF reachable.reachable_init]) (auto intro: step_start simp: sworld_init_def)

lemma demo_start_simps:
  "life_of demo_start = Stopping 2" "running demo_start = [0, 0]" "closed_chans demo_start = [0]"
  by (simp_all add: demo_start_def StartFunc_def run_start_def sworld_init_def stop_defs life_of_def numeral_2_eq_2)


theorem stoppable_safe_witness: "\<not> panicked demo_start \<and> wg (obj demo_start) = 2 \<and> closed_chans demo_start = [0]"
  using stoppable_safe [OF demo_reach] by (simp add: demo_start_simps)

text \<open>Stopping ends: when the goroutines return, as many steps as there are and one more switch the object off.\<close>

lemma drain_steps:
  "stop_inv w \<Longrightarrow> \<exists>w'. sstep\<^sup>*\<^sup>* w w' \<and> running w' = [] \<and> lock w' = lock w \<and> exit_ch (obj w') = exit_ch (obj w)"
proof (induction "running w" arbitrary: w)
  case (Cons c cs)
  then have c: "c \<in> set (running w)" by (metis list.set_intros(1))
  let ?w = "goroutine_done c w"
  have "cs = running ?w" "lock ?w = lock w" "exit_ch (obj ?w) = exit_ch (obj w)"
    using Cons(2) by (simp_all add: goroutine_done_def) (metis remove1.simps(2))
  moreover from this(1) have "\<exists>w'. sstep\<^sup>*\<^sup>* ?w w' \<and> running w' = [] \<and> lock w' = lock ?w \<and> exit_ch (obj w') = exit_ch (obj ?w)"
    by (rule Cons(1)) (rule inv_done [OF Cons(3) c])
  ultimately show ?case using step_done [OF c] by (metis converse_rtranclp_into_rtranclp)
qed auto



end
