(* ===== verification/Listeners.thy ===== *)
theory Listeners
  imports Stoppable_Model Receiver Carbonlink
begin

text \<open>
  The listeners on top of the life cycle: \<open>Listen\<close> of \<open>src/receiver/tcp.go\<close>, \<open>src/receiver/udp.go\<close> and \<open>src/cache/carbonlink.go\<close>, with their accept
  loops, and the warning about an incomplete datagram. A start procedure is what \<open>StartFunc\<close> is given; the accept loop is a function of what
  \<open>Accept\<close> returns.
\<close>

section \<open>Accept loops\<close>

datatype 'c accept_event = Accepted 'c | AcceptFailed string

definition closed_error :: string where
  "closed_error = ''use of closed network connection''"

text \<open>
  \<open>Contains\<close> is \<open>sublist\<close>. The loop ends at the error of a closed listener, other errors are logged. \<open>go\<close> is how a handler is started: with the
  life cycle's \<open>Go\<close> for the receivers, as a goroutine of its own for carbonlink. The result has the connections that were handed over, and whether the loop ended.
\<close>

fun accept_loop :: "(sworld \<Rightarrow> sworld) \<Rightarrow> 'c accept_event list \<Rightarrow> sworld \<Rightarrow> 'c list \<times> bool \<times> sworld" where
  "accept_loop go [] w = ([], False, w)"
| "accept_loop go (Accepted c # es) w = (case accept_loop go es (go w) of (cs, fin, w') \<Rightarrow> (c # cs, fin, w'))"
| "accept_loop go (AcceptFailed e # es) w = (if sublist closed_error e then ([], True, w) else accept_loop go es w)"

text \<open>Two goroutines: one closes the socket on exit, the other accepts or receives. When the socket cannot be bound there is none.\<close>

definition listen_proc :: "'e option \<Rightarrow> 'e start_proc" where
  "listen_proc bindErr = \<lparr>go_calls = (if bindErr = None then 2 else 0), proc_err = bindErr\<rparr>"

definition TCP_Listen :: "'e option \<Rightarrow> sworld \<Rightarrow> 'e option \<times> sworld" where
  "TCP_Listen bindErr w = StartFunc (listen_proc bindErr) w"

definition TCP_accept :: "'c accept_event list \<Rightarrow> sworld \<Rightarrow> 'c list \<times> bool \<times> sworld" where
  "TCP_accept es w = accept_loop call_Go es w"

definition UDP_Listen :: "'e option \<Rightarrow> sworld \<Rightarrow> 'e option \<times> sworld" where
  "UDP_Listen bindErr w = StartFunc (listen_proc bindErr) w"

definition Carbonlink_Listen :: "'e option \<Rightarrow> sworld \<Rightarrow> 'e option \<times> sworld" where
  "Carbonlink_Listen bindErr w = StartFunc (listen_proc bindErr) w"

definition Carbonlink_accept :: "'c accept_event list \<Rightarrow> sworld \<Rightarrow> 'c list \<times> bool \<times> sworld" where
  "Carbonlink_accept es w = accept_loop id es w"

section \<open>Incomplete datagrams\<close>

text \<open>The short form has the first line, the number of bytes left out and the last line.\<close>

datatype incomplete_log = ShortLog string int string | FullLog string

definition log_incomplete :: "bytes \<Rightarrow> bytes \<Rightarrow> incomplete_log" where
  "log_incomplete message lastLine =
     (let first = takeWhile (\<lambda>c. c \<noteq> CHR 0x0A) message; p1 = length first
      in if CHR 0x0A \<in> set message \<and> int p1 + int (length lastLine) < int (length message) - 10
         then ShortLog first (int (length message) - int p1 - int (length lastLine) - 2) lastLine
         else FullLog message)"

lemma short_log_bytes: "log_incomplete m l = ShortLog a n b \<Longrightarrow> n > 8 \<and> int (length a) + 1 + n + 1 + int (length b) = int (length m)"
  by (auto simp: log_incomplete_def Let_def split: if_splits)

section \<open>Connections and the life cycle\<close>

fun accepted :: "'c accept_event list \<Rightarrow> 'c list" where
  "accepted [] = []"
| "accepted (Accepted c # es) = c # accepted es"
| "accepted (AcceptFailed e # es) = (if sublist closed_error e then [] else accepted es)"

lemma accept_loop_conns: "fst (accept_loop go es w) = accepted es"
  by (induction go es w rule: accept_loop.induct) (auto split: prod.splits)

lemma accept_loop_world: "snd (snd (accept_loop go es w)) = (go ^^ length (accepted es)) w"
  by (induction go es w rule: accept_loop.induct) (auto split: prod.splits simp: funpow_swap1)

lemma listen_state:
  assumes "stop_inv w" "exit_ch (obj w) = None"
  shows "stop_inv (snd (StartFunc (listen_proc (None :: 'e option)) w)) \<and> fst (StartFunc (listen_proc (None :: 'e option)) w) = None
    \<and> exit_ch (obj (snd (StartFunc (listen_proc (None :: 'e option)) w))) = Some (next_chan w)
    \<and> running (snd (StartFunc (listen_proc (None :: 'e option)) w)) = replicate 2 (next_chan w)"
  using inv_run_start [OF assms, of "listen_proc (None :: 'e option)"] assms(2)
  by (simp add: StartFunc_def Let_def listen_proc_def)

text \<open>
  A stop of a TCP receiver waits for the two goroutines of the listener and for every connection it accepted; a stop of the carbonlink listener
  waits for the two goroutines only.
\<close>

lemma tcp_connections_counted:
  assumes "stop_inv w" "exit_ch (obj w) = None" "TCP_Listen (None :: string option) w = (None, w1)" "TCP_accept es w1 = (conns, fin, w2)"
  shows "conns = accepted es \<and> stop_inv w2 \<and> wg (obj w2) = 2 + length conns"
proof -
  from assms(3) listen_state [OF assms(1,2), where 'e = string] have w1: "stop_inv w1" "exit_ch (obj w1) = Some (next_chan w)" "running w1 = replicate 2 (next_chan w)"
    by (simp_all add: TCP_Listen_def)
  have "Go (obj w1) = Bound (next_chan w)" using w1 by (simp add: stop_inv_def)
  from call_Go_bound [OF this, of "length (accepted es)"] accept_loop_world [of call_Go es w1] accept_loop_conns [of call_Go es w1] assms(4)
  have w2: "w2 = w1\<lparr>obj := (obj w1)\<lparr>wg := wg (obj w1) + length (accepted es)\<rparr>, running := replicate (length (accepted es)) (next_chan w) @ running w1\<rparr>"
    "conns = accepted es" by (simp_all add: TCP_accept_def)
  have "wg (obj w1) = 2" using w1 by (simp add: stop_inv_def)
  moreover have "stop_inv w2" using w1 unfolding w2 by (auto simp: stop_inv_def)
  ultimately show ?thesis using w2 by simp
qed

lemma carbonlink_connections_not_counted:
  assumes "stop_inv w" "exit_ch (obj w) = None" "Carbonlink_Listen (None :: string option) w = (None, w1)" "Carbonlink_accept es w1 = (conns, fin, w2)"
  shows "conns = accepted es \<and> wg (obj w2) = 2"
proof -
  have "w2 = w1" "conns = accepted es"
    using accept_loop_world [of id es w1] accept_loop_conns [of id es w1] assms(4) by (simp_all add: Carbonlink_accept_def)
  moreover have "wg (obj w1) = 2" using assms(3) listen_state [OF assms(1,2), where 'e = string] by (simp add: Carbonlink_Listen_def stop_inv_def)
  ultimately show ?thesis by simp
qed

end
