(* ===== verification/Durations.thy ===== *)
theory Durations
  imports Schemas Go_Float_Text
begin

text \<open>
  The durations of the configuration, \<open>Duration\<close> of \<open>src/carbon/config.go\<close>: their text is that of package \<open>time\<close>, read by \<open>time.ParseDuration\<close> and written
  by \<open>Duration.String\<close>, as of the Go release the repository builds with (1.7). A duration is an \<open>int64\<close> of nanoseconds; the product that gives the nanoseconds of a
  fraction is computed in \<open>float64\<close>, as the library does. A written duration reads back exactly, because every float operation on it is exact.
\<close>

section \<open>Multiplication and division of floats\<close>

definition f_num :: "float64 \<Rightarrow> nat" where
  "f_num x = (if 0 \<le> f_e2 x then f_mant x * 2 ^ nat (f_e2 x) else f_mant x)"

definition f_den :: "float64 \<Rightarrow> nat" where
  "f_den x = (if 0 \<le> f_e2 x then 1 else 2 ^ nat (- f_e2 x))"

definition rounded :: "bool \<Rightarrow> nat \<Rightarrow> nat \<Rightarrow> float64" where
  "rounded neg n d = (case float_of_ratio neg n d of Some x \<Rightarrow> x | None \<Rightarrow> mk_float neg (2047 * 2 ^ 52))"

definition float_mul :: "float64 \<Rightarrow> float64 \<Rightarrow> float64" where
  "float_mul x y =
     (let neg = (f_neg x \<noteq> f_neg y)
      in if IsNaN x \<or> IsNaN y then NaN_bits
         else if IsInf x \<or> IsInf y
         then if f_mant x = 0 \<or> f_mant y = 0 then NaN_bits else mk_float neg (2047 * 2 ^ 52)
         else rounded neg (f_num x * f_num y) (f_den x * f_den y))"

definition float_div :: "float64 \<Rightarrow> float64 \<Rightarrow> float64" where
  "float_div x y =
     (let neg = (f_neg x \<noteq> f_neg y)
      in if IsNaN x \<or> IsNaN y \<or> (IsInf x \<and> IsInf y) then NaN_bits
         else if IsInf x then mk_float neg (2047 * 2 ^ 52)
         else if IsInf y then mk_float neg 0
         else if f_mant y = 0 then if f_mant x = 0 then NaN_bits else mk_float neg (2047 * 2 ^ 52)
         else rounded neg (f_num x * f_den y) (f_den x * f_num y))"

section \<open>time.ParseDuration\<close>

datatype dur_error = InvalidDuration | MissingUnit | UnknownUnit string

text \<open>\<open>unitMap\<close>; the two spellings of the micro sign are in UTF-8.\<close>

definition micro :: string where
  "micro = [CHR 0xC2, CHR 0xB5]"

definition unitMap :: "string \<Rightarrow> int64 option" where
  "unitMap u =
     (if u = ''ns'' then Some 1
      else if u = ''us'' \<or> u = micro @ ''s'' \<or> u = [CHR 0xCE, CHR 0xBC] @ ''s'' then Some 1000
      else if u = ''ms'' then Some 1000000
      else if u = ''s'' then Some 1000000000
      else if u = ''m'' then Some 60000000000
      else if u = ''h'' then Some 3600000000000 else None)"

text \<open>\<open>leadingInt\<close>: the value of the leading digits and the rest; None when it does not fit.\<close>

fun leadingInt_loop :: "int64 \<Rightarrow> string \<Rightarrow> (int64 \<times> string) option" where
  "leadingInt_loop x [] = Some (x, [])"
| "leadingInt_loop x (c # cs) =
     (if \<not> is_digit c then Some (x, c # cs)
      else if (2 ^ 63 - 1) div 10 < x then None
      else (let y = wrap64 (x * 10 + int (digit_val c)) in if y < 0 then None else leadingInt_loop y cs))"

definition leadingInt :: "string \<Rightarrow> (int64 \<times> string) option" where
  "leadingInt s = leadingInt_loop 0 s"

primrec pow10_scale :: "nat \<Rightarrow> float64" where
  "pow10_scale 0 = float64_of_nat 1"
| "pow10_scale (Suc n) = float_mul (pow10_scale n) (float64_of_nat 10)"

text \<open>The optional fraction: its digits as a number, the scale, whether there were any digits, and the rest.\<close>

definition fraction :: "string \<Rightarrow> (int64 \<times> float64 \<times> bool \<times> string) option" where
  "fraction s =
     (case s of
        c # cs \<Rightarrow>
          if c = CHR ''.''
          then (case leadingInt cs of
                  None \<Rightarrow> None
                | Some (f, r) \<Rightarrow> Some (f, pow10_scale (length cs - length r), length cs \<noteq> length r, r))
          else Some (0, float64_of_nat 1, False, s)
      | [] \<Rightarrow> Some (0, float64_of_nat 1, False, []))"

definition frac_nanos :: "int64 \<Rightarrow> float64 \<Rightarrow> int64 \<Rightarrow> int64" where
  "frac_nanos f scale unit = int64_of_float (float_mul (float64_of_int f) (float_div (float64_of_int unit) scale))"

definition dur_value :: "int64 \<Rightarrow> int64 \<Rightarrow> float64 \<Rightarrow> int64 \<Rightarrow> int64 option" where
  "dur_value v f scale unit =
     (if (2 ^ 63 - 1) div unit < v then None
      else if 0 < f
      then (let w = wrap64 (v * unit + frac_nanos f scale unit) in if w < 0 then None else Some w)
      else Some (v * unit))"

definition in_unit :: "char \<Rightarrow> bool" where
  "in_unit c \<longleftrightarrow> \<not> (c = CHR ''.'' \<or> is_digit c)"

text \<open>One pass of the loop: a number with its unit. The result is its value and what is left.\<close>

definition dur_component :: "string \<Rightarrow> (dur_error, int64 \<times> string) result" where
  "dur_component s =
     (if s = [] \<or> \<not> (hd s = CHR ''.'' \<or> is_digit (hd s)) then Inl InvalidDuration
      else (case leadingInt s of
              None \<Rightarrow> Inl InvalidDuration
            | Some (v, s1) \<Rightarrow>
                (case fraction s1 of
                   None \<Rightarrow> Inl InvalidDuration
                 | Some (f, scale, post, s2) \<Rightarrow>
                     (let pre = (length s \<noteq> length s1); u = takeWhile in_unit s2; s3 = dropWhile in_unit s2
                      in if \<not> pre \<and> \<not> post then Inl InvalidDuration
                         else if u = [] then Inl MissingUnit
                         else (case unitMap u of
                                 None \<Rightarrow> Inl (UnknownUnit u)
                               | Some unit \<Rightarrow>
                                   (case dur_value v f scale unit of None \<Rightarrow> Inl InvalidDuration | Some w \<Rightarrow> Inr (w, s3)))))))"

lemma leadingInt_loop_rest: "leadingInt_loop x s = Some (y, r) \<Longrightarrow> \<exists>ds. s = ds @ r \<and> list_all is_digit ds"
proof (induction x s rule: leadingInt_loop.induct)
  case (2 x c cs)
  show ?case
  proof (cases "is_digit c")
    case True
    then obtain ds where "cs = ds @ r" "list_all is_digit ds" using 2 by (auto simp: Let_def split: if_splits)
    then have "c # cs = (c # ds) @ r \<and> list_all is_digit (c # ds)" using True by simp
    then show ?thesis by blast
  qed (use 2 in simp)
qed simp

lemma leadingInt_length: "leadingInt s = Some (v, r) \<Longrightarrow> length r \<le> length s"
  by (auto simp: leadingInt_def dest: leadingInt_loop_rest)

lemma fraction_length: "fraction s = Some (f, scale, post, r) \<Longrightarrow> length r \<le> length s"
  by (auto simp: fraction_def split: list.splits if_splits option.splits dest: leadingInt_length)

lemma dropWhile_shorter: "takeWhile P s \<noteq> [] \<Longrightarrow> length (dropWhile P s) < length s"
  by (induction s) (auto simp: le_imp_less_Suc length_dropWhile_le split: if_splits)

lemma dur_component_shorter: "dur_component s = Inr (v, r) \<Longrightarrow> length r < length s"
  by (auto simp: dur_component_def Let_def split: if_splits option.splits dest!: leadingInt_length fraction_length dropWhile_shorter)

function dur_loop :: "int64 \<Rightarrow> string \<Rightarrow> (dur_error, int64) result" where
  "dur_loop d s =
     (if s = [] then Inr d
      else (case dur_component s of
              Inl e \<Rightarrow> Inl e
            | Inr (v, r) \<Rightarrow> (let d' = wrap64 (d + v) in if d' < 0 then Inl InvalidDuration else dur_loop d' r)))"
  by pat_completeness auto
termination
  by (relation "measure (\<lambda>(d, s). length s)") (auto dest: dur_component_shorter)

declare dur_loop.simps [simp del]

definition ParseDuration :: "string \<Rightarrow> (dur_error, int64) result" where
  "ParseDuration orig =
     (let (neg, s) = sign_split orig
      in if s = ''0'' then Inr 0
         else if s = [] then Inl InvalidDuration
         else (case dur_loop 0 s of Inl e \<Rightarrow> Inl e | Inr d \<Rightarrow> Inr (if neg then - d else d)))"

section \<open>Duration.String\<close>

text \<open>The buffer is filled from its end: it is the list of the bytes written so far.\<close>

fun fmtFrac_loop :: "bool \<Rightarrow> nat \<Rightarrow> nat \<Rightarrow> string \<Rightarrow> bool \<times> nat \<times> string" where
  "fmtFrac_loop pr v 0 buf = (pr, v, buf)"
| "fmtFrac_loop pr v (Suc k) buf =
     (let digit = v mod 10; pr' = (pr \<or> digit \<noteq> 0)
      in fmtFrac_loop pr' (v div 10) k (if pr' then char_of (48 + digit) # buf else buf))"

definition fmtFrac :: "nat \<Rightarrow> nat \<Rightarrow> string \<Rightarrow> nat \<times> string" where
  "fmtFrac v prec buf = (case fmtFrac_loop False v prec buf of (pr, v', b) \<Rightarrow> (v', if pr then CHR ''.'' # b else b))"

definition fmtInt :: "nat \<Rightarrow> string \<Rightarrow> string" where
  "fmtInt v buf = dec_digits v @ buf"

definition small_String :: "nat \<Rightarrow> string" where
  "small_String u =
     (if u = 0 then ''0s''
      else let (prec, unit) = (if u < 1000 then (0, ''ns'') else if u < 1000000 then (3, micro @ ''s'') else (6, ''ms''));
               (v, buf) = fmtFrac u prec unit
           in fmtInt v buf)"

definition large_String :: "nat \<Rightarrow> string" where
  "large_String u =
     (let (secs, b1) = fmtFrac u 9 ''s''; b2 = fmtInt (secs mod 60) b1; mins = secs div 60
      in if mins = 0 then b2
         else let b3 = fmtInt (mins mod 60) (CHR ''m'' # b2); hours = mins div 60
              in if hours = 0 then b3 else fmtInt hours (CHR ''h'' # b3))"

definition abs_String :: "nat \<Rightarrow> string" where
  "abs_String n = (if n < 1000000000 then small_String n else large_String n)"

definition Duration_String :: "int64 \<Rightarrow> string" where
  "Duration_String d =
     (let u = (if d < 0 then - word_of_int d else word_of_int d :: uint64); n = unat u;
          s = abs_String n
      in if d < 0 \<and> n \<noteq> 0 then CHR ''-'' # s else s)"

section \<open>Duration of the configuration\<close>

record Duration =
  time_Duration :: int64

text \<open>After an error the field holds the zero that \<open>ParseDuration\<close> returns with it.\<close>

definition UnmarshalText :: "Duration \<Rightarrow> string \<Rightarrow> Duration \<times> dur_error option" where
  "UnmarshalText d t =
     (case ParseDuration t of Inr v \<Rightarrow> (d\<lparr>time_Duration := v\<rparr>, None) | Inl e \<Rightarrow> (d\<lparr>time_Duration := 0\<rparr>, Some e))"

definition MarshalText :: "Duration \<Rightarrow> string" where
  "MarshalText d = Duration_String (time_Duration d)"

definition Duration_Value :: "Duration \<Rightarrow> int64" where
  "Duration_Value d = time_Duration d"

section \<open>Exact float operations\<close>

text \<open>The value of a float as a ratio; a ratio with the value of a float rounds to that float.\<close>

lemma f_den_pos [simp]: "0 < f_den x"
  by (simp add: f_den_def)

lemma f_ratio_val: "real (f_num x) / real (f_den x) = f_val x"
proof (cases "0 \<le> f_e2 x")
  case False
  define k where "k = nat (- f_e2 x)"
  then have e: "f_e2 x = - int k" using False by simp
  have "2 powi (- int k) = inverse ((2::real) ^ k)" by (simp add: power_int_minus)
  with False show ?thesis by (simp add: f_num_def f_den_def f_val_def divide_inverse flip: k_def e)
qed (simp add: f_num_def f_den_def f_val_def power_int_def)

lemma in_interval_self: "in_interval (f_mant x) (f_e2 x) b (f_val x)"
proof -
  have "f_val x * 4 * 2 powi (- f_e2 x) = 4 * real (f_mant x)"
    by (simp add: f_val_def power_int_minus divide_inverse [symmetric])
  then show ?thesis by (simp add: in_interval_def Let_def)
qed

lemma float_of_ratio_exact:
  assumes "finite_nz x" "0 < n" "0 < d" "real n / real d = f_val x"
  shows "float_of_ratio (f_neg x) n d = Some x"
  using assms by (intro float_of_ratio_interval) (simp_all add: in_interval_self)

lemma float64_of_nat_fields:
  assumes "0 < n" "n < 2 ^ 53"
  shows "finite_nz (float64_of_nat n)" "\<not> f_neg (float64_of_nat n)" "f_val (float64_of_nat n) = real n"
    "\<not> IsNaN (float64_of_nat n)" "\<not> IsInf (float64_of_nat n)" "f_mant (float64_of_nat n) \<noteq> 0"
proof -
  have b: "0 < bitlen n" "bitlen n \<le> 53" using assms by (auto intro: bitlen_pos bitlen_le)
  have m: "f_mant (float64_of_nat n) = n * 2 ^ (53 - bitlen n)"
    using mantissa_bounds [OF assms] mk_float_nat_fields [OF assms] by (simp add: f_mant_def float64_of_nat_def)
  have e: "f_e2 (float64_of_nat n) = - int (53 - bitlen n)"
    using mk_float_nat_fields(1) [OF assms] b by (simp add: f_e2_def float64_of_nat_def)
  show "f_val (float64_of_nat n) = real n" unfolding f_val_def m e by (simp add: power_int_minus)
  have x: "f_exp (float64_of_nat n) \<noteq> 2047" using f_exp_nat [OF assms(2)] by (simp add: float64_of_nat_def)
  show "f_mant (float64_of_nat n) \<noteq> 0" using m assms by simp
  with x show "finite_nz (float64_of_nat n)" "\<not> IsNaN (float64_of_nat n)" "\<not> IsInf (float64_of_nat n)"
    by (simp_all add: finite_nz_def IsNaN_def IsInf_def)
  show "\<not> f_neg (float64_of_nat n)" using mk_float_nat_fields(3) [OF assms] by (simp add: float64_of_nat_def)
qed

lemma f_num_pos: "f_mant x \<noteq> 0 \<Longrightarrow> 0 < f_num x"
  by (simp add: f_num_def)

lemma rounded_exact:
  assumes "0 < n" "n < 2 ^ 53" "0 < a" "0 < b" "real a / real b = real n"
  shows "rounded False a b = float64_of_nat n"
  using float_of_ratio_exact [OF float64_of_nat_fields(1) [OF assms(1,2)] assms(3,4)] assms(5)
    float64_of_nat_fields(2,3) [OF assms(1,2)] by (simp add: rounded_def)

lemma float_mul_nat:
  assumes "0 < a" "0 < b" "a * b < 2 ^ 53"
  shows "float_mul (float64_of_nat a) (float64_of_nat b) = float64_of_nat (a * b)"
proof -
  have "a * 1 \<le> a * b" "1 * b \<le> a * b" using assms by (intro mult_le_mono; simp)+
  then have ab: "a < 2 ^ 53" "b < 2 ^ 53" using assms(3) by linarith+
  note A = float64_of_nat_fields [OF assms(1) ab(1)] and B = float64_of_nat_fields [OF assms(2) ab(2)]
  have "real (f_num (float64_of_nat a) * f_num (float64_of_nat b)) / real (f_den (float64_of_nat a) * f_den (float64_of_nat b)) = real (a * b)"
    using f_ratio_val [of "float64_of_nat a"] f_ratio_val [of "float64_of_nat b"] A(3) B(3) by (simp flip: times_divide_times_eq)
  then have "rounded False (f_num (float64_of_nat a) * f_num (float64_of_nat b)) (f_den (float64_of_nat a) * f_den (float64_of_nat b)) = float64_of_nat (a * b)"
    using assms f_num_pos A(6) B(6) by (intro rounded_exact) auto
  then show ?thesis using A(2,4,5) B(2,4,5) by (simp add: float_mul_def)
qed

lemma float_div_nat:
  assumes "0 < c" "0 < b" "c * b < 2 ^ 53"
  shows "float_div (float64_of_nat (c * b)) (float64_of_nat b) = float64_of_nat c"
proof -
  have "c * 1 \<le> c * b" "1 * b \<le> c * b" using assms by (intro mult_le_mono; simp)+
  then have cb: "c < 2 ^ 53" "b < 2 ^ 53" using assms(3) by linarith+
  have p: "0 < c * b" using assms by simp
  note A = float64_of_nat_fields [OF p assms(3)] and B = float64_of_nat_fields [OF assms(2) cb(2)]
  let ?x = "float64_of_nat (c * b)" and ?y = "float64_of_nat b"
  have "real (f_num ?x * f_den ?y) / real (f_den ?x * f_num ?y) = (real (f_num ?x) / real (f_den ?x)) / (real (f_num ?y) / real (f_den ?y))"
    by simp
  also have "\<dots> = real c" unfolding f_ratio_val A(3) B(3) using assms(2) by simp
  finally have "rounded False (f_num ?x * f_den ?y) (f_den ?x * f_num ?y) = float64_of_nat c"
    using assms cb f_num_pos A(6) B(6) by (intro rounded_exact) auto
  then show ?thesis using A(2,4,5) B(2,4,5,6) by (simp add: float_div_def)
qed

lemma pow10_bound: "n \<le> 15 \<Longrightarrow> (10::nat) ^ n < 2 ^ 53"
  by (rule le_less_trans [OF power_increasing [of n 15]]) simp_all

lemma pow10_scale_nat: "n \<le> 15 \<Longrightarrow> pow10_scale n = float64_of_nat (10 ^ n)"
proof (induction n)
  case (Suc n)
  then have "pow10_scale (Suc n) = float_mul (float64_of_nat (10 ^ n)) (float64_of_nat 10)" by simp
  also have "\<dots> = float64_of_nat (10 ^ n * 10)" using pow10_bound [of "Suc n"] Suc.prems by (intro float_mul_nat) (simp_all add: mult.commute)
  finally show ?case by (simp add: mult.commute)
qed simp

text \<open>A fraction of \<open>k\<close> digits of a unit of \<open>10^a\<close> nanoseconds, \<open>k \<le> a \<le> 9\<close>, is a whole number of nanoseconds, and the float computation gives it.\<close>

lemma frac_nanos_exact:
  assumes f: "0 < f" "f < 10 ^ k" and k: "k \<le> a" "a \<le> 9"
  shows "frac_nanos (int f) (pow10_scale k) (10 ^ a) = int (f * 10 ^ (a - k))"
proof -
  have a: "10 ^ (a - k) * 10 ^ k = (10::nat) ^ a" using k by (simp flip: power_add)
  have b: "(10::nat) ^ a < 2 ^ 53" using k pow10_bound [of a] by simp
  have "f * 10 ^ (a - k) < 10 ^ k * (10::nat) ^ (a - k)" using f by simp
  then have c: "f * 10 ^ (a - k) < 2 ^ 53" using a b by (metis less_trans mult.commute)
  have u: "float64_of_int (10 ^ a) = float64_of_nat (10 ^ (a - k) * 10 ^ k)"
    by (simp add: a float64_of_int_def float64_of_nat_def nat_power_eq)
  have "float_div (float64_of_int (10 ^ a)) (pow10_scale k) = float64_of_nat (10 ^ (a - k))"
    unfolding u using k b a by (subst pow10_scale_nat, simp) (intro float_div_nat, simp_all)
  moreover have "float64_of_int (int f) = float64_of_nat f" by (simp add: float64_of_int_def float64_of_nat_def)
  ultimately have "frac_nanos (int f) (pow10_scale k) (10 ^ a) = int64_of_float (float64_of_nat (f * 10 ^ (a - k)))"
    using f c by (simp add: frac_nanos_def float_mul_nat)
  then show ?thesis using int64_of_float_int [OF c, of False] by (simp add: float64_of_nat_def)
qed

section \<open>Writing and reading a number with its unit\<close>

lemma digit_char: "is_digit (char_of (48 + n mod 10))" "digit_val (char_of (48 + n mod 10)) = n mod 10"
  by (simp_all add: is_digit_def digit_val_def)

lemma fmtFrac_loop_spec:
  "\<exists>ds. fmtFrac_loop pr v k buf = (pr \<or> v mod 10 ^ k \<noteq> 0, v div 10 ^ k, ds @ buf) \<and> list_all is_digit ds \<and> length ds \<le> k
     \<and> (pr \<longrightarrow> length ds = k) \<and> digits_val ds * 10 ^ (k - length ds) = v mod 10 ^ k \<and> (\<not> pr \<longrightarrow> v mod 10 ^ k = 0 \<longrightarrow> ds = [])"
proof (induction k arbitrary: pr v buf)
  case 0
  show ?case by (rule exI [of _ "[]"]) simp
next
  case (Suc k)
  define pr' where "pr' = (pr \<or> v mod 10 \<noteq> 0)"
  obtain ds where ds: "fmtFrac_loop pr' (v div 10) k (if pr' then char_of (48 + v mod 10) # buf else buf)
        = (pr' \<or> v div 10 mod 10 ^ k \<noteq> 0, v div 10 div 10 ^ k, ds @ (if pr' then char_of (48 + v mod 10) # buf else buf))"
      "list_all is_digit ds" "length ds \<le> k" "pr' \<longrightarrow> length ds = k" "digits_val ds * 10 ^ (k - length ds) = v div 10 mod 10 ^ k"
      "\<not> pr' \<longrightarrow> v div 10 mod 10 ^ k = 0 \<longrightarrow> ds = []"
    using Suc.IH [of pr' "v div 10" "if pr' then char_of (48 + v mod 10) # buf else buf"] by (rule exE) (elim conjE, rule that; assumption)
  have m: "v mod 10 ^ Suc k = 10 * (v div 10 mod 10 ^ k) + v mod 10" using mod_mult2_eq [of v 10 "10 ^ k"] by simp
  have q: "v div 10 div 10 ^ k = v div 10 ^ Suc k" by (simp add: div_mult2_eq)
  define es where "es = (if pr' then ds @ [char_of (48 + v mod 10)] else ds)"
  have "fmtFrac_loop pr v (Suc k) buf = (pr \<or> v mod 10 ^ Suc k \<noteq> 0, v div 10 ^ Suc k, es @ buf)"
    using ds(1) unfolding m q by (auto simp: pr'_def es_def Let_def)
  moreover have "list_all is_digit es" using ds(2) by (simp add: es_def digit_char)
  moreover have "length es \<le> Suc k" "pr \<longrightarrow> length es = Suc k" using ds(3,4) by (auto simp: es_def pr'_def)
  moreover have "digits_val es * 10 ^ (Suc k - length es) = v mod 10 ^ Suc k"
  proof (cases pr')
    case True
    then show ?thesis using ds(4,5) unfolding m by (simp add: es_def digits_val_snoc digit_char)
  next
    case False
    then have "v mod 10 = 0" by (simp add: pr'_def)
    then show ?thesis using False ds(3,5) unfolding m by (simp add: es_def Suc_diff_le)
  qed
  moreover have "\<not> pr \<longrightarrow> v mod 10 ^ Suc k = 0 \<longrightarrow> es = []" using ds(6) unfolding m by (auto simp: es_def pr'_def)
  ultimately show ?case by (intro exI [of _ es] conjI)
qed

text \<open>The text of the fraction: nothing, or a point and digits.\<close>

definition frac_text :: "string \<Rightarrow> string" where
  "frac_text ds = (if ds = [] then [] else CHR ''.'' # ds)"

lemma fmtFrac_spec:
  obtains ds where "fmtFrac v k buf = (v div 10 ^ k, frac_text ds @ buf)" "list_all is_digit ds" "length ds \<le> k"
    "digits_val ds * 10 ^ (k - length ds) = v mod 10 ^ k" "ds = [] \<longleftrightarrow> v mod 10 ^ k = 0"
proof -
  obtain ds where ds: "fmtFrac_loop False v k buf = (v mod 10 ^ k \<noteq> 0, v div 10 ^ k, ds @ buf)" "list_all is_digit ds" "length ds \<le> k"
      "digits_val ds * 10 ^ (k - length ds) = v mod 10 ^ k" "v mod 10 ^ k = 0 \<longrightarrow> ds = []"
    using fmtFrac_loop_spec [of False v k buf] by auto
  then have "ds = [] \<longleftrightarrow> v mod 10 ^ k = 0" by auto
  moreover from this ds(1) have "fmtFrac v k buf = (v div 10 ^ k, frac_text ds @ buf)" by (auto simp: fmtFrac_def frac_text_def)
  ultimately show ?thesis by (intro that [of ds] ds(2-4))
qed

definition digit_free :: "string \<Rightarrow> bool" where
  "digit_free r \<longleftrightarrow> r = [] \<or> \<not> is_digit (hd r)"

lemma leadingInt_loop_digits:
  assumes "list_all is_digit ds" "digit_free r" "x * 10 ^ length ds + digits_val ds < 2 ^ 63"
  shows "leadingInt_loop (int x) (ds @ r) = Some (int (x * 10 ^ length ds + digits_val ds), r)"
  using assms
proof (induction ds arbitrary: x)
  case Nil
  then show ?case by (cases r) (auto simp: digit_free_def)
next
  case (Cons c ds)
  define y where "y = x * 10 + digit_val c"
  have v: "x * 10 ^ length (c # ds) + digits_val (c # ds) = y * 10 ^ length ds + digits_val ds"
    using digits_val_append [of "[c]" ds] by (simp add: y_def algebra_simps digits_val_def)
  have y1: "y * 10 ^ length ds + digits_val ds < 2 ^ 63" using Cons.prems(3) unfolding v .
  have "y * 1 \<le> y * 10 ^ length ds" by (intro mult_le_mono) simp_all
  with y1 have y2: "y < 2 ^ 63" by linarith
  then have "\<not> (2 ^ 63 - 1) div 10 < int x" by (simp add: y_def)
  moreover have "wrap64 (int x * 10 + int (digit_val c)) = int y" using y2 by (simp add: wrap64_def y_def)
  ultimately have "leadingInt_loop (int x) ((c # ds) @ r) = leadingInt_loop (int y) (ds @ r)"
    using Cons.prems(1) by (simp add: Let_def)
  also have "\<dots> = Some (int (y * 10 ^ length ds + digits_val ds), r)" using Cons.IH [OF _ Cons.prems(2) y1] Cons.prems(1) by simp
  finally show ?case unfolding v .
qed

lemma leadingInt_digits:
  "list_all is_digit ds \<Longrightarrow> digit_free r \<Longrightarrow> digits_val ds < 2 ^ 63 \<Longrightarrow> leadingInt (ds @ r) = Some (int (digits_val ds), r)"
  using leadingInt_loop_digits [of ds r 0] by (simp add: leadingInt_def)

text \<open>The units, and their texts: no digit and no point in them.\<close>

definition unit_text :: "string \<Rightarrow> bool" where
  "unit_text u \<longleftrightarrow> u \<noteq> [] \<and> list_all in_unit u"

lemma unit_texts: "unit_text ''ns''" "unit_text (micro @ ''s'')" "unit_text ''ms''" "unit_text ''s''" "unit_text ''m''" "unit_text ''h''"
  by (simp_all add: unit_text_def in_unit_def micro_def is_digit_def)

lemma unitMap_texts:
  "unitMap ''ns'' = Some (10 ^ 0)" "unitMap (micro @ ''s'') = Some (10 ^ 3)" "unitMap ''ms'' = Some (10 ^ 6)" "unitMap ''s'' = Some (10 ^ 9)"
  "unitMap ''m'' = Some (int 60000000000)" "unitMap ''h'' = Some (int 3600000000000)"
  by (simp_all add: unitMap_def micro_def)

lemma unit_split:
  assumes "unit_text u" "r = [] \<or> is_digit (hd r)"
  shows "takeWhile in_unit (u @ r) = u" "dropWhile in_unit (u @ r) = r"
  using assms by (cases r; auto simp: unit_text_def in_unit_def list_all_iff)+

lemma fraction_text:
  assumes ds: "list_all is_digit ds" "digits_val ds < 2 ^ 63" and u: "unit_text u"
  shows "fraction (frac_text ds @ u @ r) = Some (int (digits_val ds), pow10_scale (length ds), ds \<noteq> [], u @ r)"
proof (cases "ds = []")
  case True
  then show ?thesis using u by (cases u) (auto simp: fraction_def frac_text_def unit_text_def in_unit_def)
next
  case False
  have "digit_free (u @ r)" using u by (cases u) (auto simp: digit_free_def unit_text_def in_unit_def)
  then show ?thesis using False ds by (simp add: fraction_def frac_text_def leadingInt_digits)
qed

lemma dec_digits_hd: "is_digit (hd (dec_digits n))"
  using dec_digits_is_digit [of n] dec_digits_not_Nil [of n] by (cases "dec_digits n") auto

lemma dur_component_text:
  assumes u: "unit_text u" "unitMap u = Some unit" and r: "r = [] \<or> is_digit (hd r)"
    and ds: "list_all is_digit ds" "digits_val ds < 2 ^ 63" and n: "n < 2 ^ 63"
    and w: "dur_value (int n) (int (digits_val ds)) (pow10_scale (length ds)) unit = Some w"
  shows "dur_component (dec_digits n @ frac_text ds @ u @ r) = Inr (w, r)"
proof -
  have "digit_free (frac_text ds @ u @ r)"
    using u(1) by (cases u) (auto simp: digit_free_def frac_text_def unit_text_def in_unit_def is_digit_def)
  then have l: "leadingInt (dec_digits n @ frac_text ds @ u @ r) = Some (int n, frac_text ds @ u @ r)"
    using leadingInt_digits [OF dec_digits_is_digit [of n]] n by simp
  have "u \<noteq> []" using u(1) by (simp add: unit_text_def)
  then show ?thesis
    using dec_digits_hd [of n] u(2) w by (simp add: dur_component_def l fraction_text [OF ds u(1)] unit_split [OF u(1) r] Let_def)
qed

lemma dur_value_whole: "0 < unit \<Longrightarrow> n * unit < 2 ^ 63 \<Longrightarrow> dur_value (int n) 0 scale (int unit) = Some (int (n * unit))"
proof -
  assume u: "0 < unit" and n: "n * unit < 2 ^ 63"
  have "int n * int unit \<le> 2 ^ 63 - 1" using n by (simp flip: of_nat_mult)
  then have "int n \<le> (2 ^ 63 - 1) div int unit" using zdiv_mono1 [of "int n * int unit" "2 ^ 63 - 1" "int unit"] u by simp
  then show ?thesis by (simp add: dur_value_def)
qed

lemma dur_value_frac:
  assumes ds: "list_all is_digit ds" "length ds \<le> a" and a: "a \<le> 9" and v: "n * 10 ^ a + digits_val ds * 10 ^ (a - length ds) = v" "v < 2 ^ 63"
  shows "dur_value (int n) (int (digits_val ds)) (pow10_scale (length ds)) (10 ^ a) = Some (int v)"
proof (cases "digits_val ds = 0")
  case True
  then show ?thesis using v dur_value_whole [of "10 ^ a" n "pow10_scale (length ds)"] by simp
next
  case False
  have n: "n * 10 ^ a < 2 ^ 63" using v by linarith
  have "frac_nanos (int (digits_val ds)) (pow10_scale (length ds)) (10 ^ a) = int (digits_val ds * 10 ^ (a - length ds))"
    using frac_nanos_exact [OF _ digits_val_bound [OF ds(1)] ds(2) a] False by simp
  moreover have "wrap64 (int n * 10 ^ a + int (digits_val ds * 10 ^ (a - length ds))) = int v"
  proof -
    have "int n * 10 ^ a + int (digits_val ds * 10 ^ (a - length ds)) = int v" unfolding v(1) [symmetric] by simp
    then show ?thesis using v(2) by (simp add: wrap64_id)
  qed
  moreover have "\<not> (2 ^ 63 - 1) div 10 ^ a < int n" using dur_value_whole [of "10 ^ a" n 0] n by (auto simp: dur_value_def split: if_splits)
  ultimately show ?thesis using False by (simp add: dur_value_def)
qed

section \<open>The round trip\<close>

lemma dur_loop_step:
  assumes "dur_component s = Inr (v, r)" "0 \<le> d" "0 \<le> v" "d + v < 2 ^ 63"
  shows "dur_loop d s = dur_loop (d + v) r"
proof -
  have "s \<noteq> []" using assms(1) by (auto simp: dur_component_def)
  moreover have "wrap64 (d + v) = d + v" using assms by (intro wrap64_id) auto
  ultimately show ?thesis using assms by (subst dur_loop.simps) (simp add: Let_def)
qed

lemma dur_loop_Nil [simp]: "dur_loop d [] = Inr d"
  by (simp add: dur_loop.simps)

text \<open>A last number with a fraction, and a whole number before others.\<close>

lemma dur_loop_last:
  assumes ds: "list_all is_digit ds" "length ds \<le> a" and a: "a \<le> 9" and u: "unit_text u" "unitMap u = Some (10 ^ a)"
    and v: "d + n * 10 ^ a + digits_val ds * 10 ^ (a - length ds) = v" "v < 2 ^ 63"
  shows "dur_loop (int d) (dec_digits n @ frac_text ds @ u) = Inr (int v)"
proof -
  define w where "w = n * 10 ^ a + digits_val ds * 10 ^ (a - length ds)"
  have w: "d + w = v" "w < 2 ^ 63" using v by (simp_all add: w_def)
  have "digits_val ds < 10 ^ a" using digits_val_bound [OF ds(1)] power_increasing [OF ds(2), of "10::nat"] by linarith
  moreover have "(10::nat) ^ a < 2 ^ 63" using power_increasing [OF a, of "10::nat"] by simp
  moreover have "n * 1 \<le> n * 10 ^ a" by (intro mult_le_mono) simp_all
  ultimately have b: "digits_val ds < 2 ^ 63" "n < 2 ^ 63" using v by linarith+
  have "dur_component (dec_digits n @ frac_text ds @ u @ []) = Inr (int w, [])"
    using dur_value_frac [OF ds a w_def [symmetric] w(2)] by (intro dur_component_text [OF u _ ds(1) b]) simp_all
  then have "dur_loop (int d) (dec_digits n @ frac_text ds @ u) = dur_loop (int d + int w) []"
    using w v(2) by (intro dur_loop_step) (simp_all flip: of_nat_add)
  then show ?thesis using w(1) by simp
qed

lemma dur_loop_whole:
  assumes u: "unit_text u" "unitMap u = Some (int unit)" "0 < unit" and r: "is_digit (hd r)" and v: "d + n * unit < 2 ^ 63"
  shows "dur_loop (int d) (dec_digits n @ u @ r) = dur_loop (int (d + n * unit)) r"
proof -
  have "n * 1 \<le> n * unit" using u(3) by (intro mult_le_mono) simp_all
  then have n: "n < 2 ^ 63" "n * unit < 2 ^ 63" using v by linarith+
  have "dur_component (dec_digits n @ frac_text [] @ u @ r) = Inr (int (n * unit), r)"
    using dur_value_whole [OF u(3) n(2)] r n by (intro dur_component_text [OF u(1,2)]) simp_all
  then have "dur_loop (int d) (dec_digits n @ u @ r) = dur_loop (int d + int (n * unit)) r"
    using v by (intro dur_loop_step) (simp_all add: frac_text_def flip: of_nat_add of_nat_mult)
  then show ?thesis by simp
qed

lemma dur_loop_fmt:
  assumes "fmtFrac u a t = (q, b)" "a \<le> 9" "unit_text t" "unitMap t = Some (10 ^ a)" "u < 2 ^ 63"
  shows "dur_loop 0 (fmtInt q b) = Inr (int u)"
proof -
  obtain ds where "fmtFrac u a t = (u div 10 ^ a, frac_text ds @ t)" "list_all is_digit ds" "length ds \<le> a"
      "digits_val ds * 10 ^ (a - length ds) = u mod 10 ^ a"
    by (rule fmtFrac_spec)
  with assms show ?thesis using dur_loop_last [of ds a t 0 "u div 10 ^ a" u] by (auto simp: fmtInt_def div_mult_mod_eq)
qed

lemma dur_loop_small: "u < 1000000000 \<Longrightarrow> dur_loop 0 (small_String u) = Inr (int u)"
proof -
  assume u: "u < 1000000000"
  have zero: "dur_loop 0 (dec_digits 0 @ frac_text [] @ ''s'') = Inr (int 0)"
    using dur_loop_last [of "[]" 9 "''s''" 0 0 0] unit_texts(4) unitMap_texts(4) by simp
  have d0: "dec_digits 0 = ''0''" by code_simp
  show ?thesis
    using u zero d0 dur_loop_fmt [OF _ _ unit_texts(1) unitMap_texts(1), of u] dur_loop_fmt [OF _ _ unit_texts(2) unitMap_texts(2), of u] dur_loop_fmt [OF _ _ unit_texts(3) unitMap_texts(3), of u]
    by (auto simp: small_String_def frac_text_def Let_def split: prod.splits)
qed

lemma hours_minutes: "(a::nat) = b * 60 + c \<Longrightarrow> b = e * 60 + f \<Longrightarrow> a * 10 ^ 9 = e * 3600000000000 + f * 60000000000 + c * 10 ^ 9"
  by simp

lemma dur_loop_large:
  assumes u: "u < 2 ^ 63" shows "dur_loop 0 (large_String u) = Inr (int u)"
proof -
  obtain ds where f: "fmtFrac u 9 ''s'' = (u div 10 ^ 9, frac_text ds @ ''s'')" "list_all is_digit ds" "length ds \<le> 9"
      "digits_val ds * 10 ^ (9 - length ds) = u mod 10 ^ 9"
    by (rule fmtFrac_spec)
  define secs where "secs = u div 10 ^ 9"
  define tail where "tail = dec_digits (secs mod 60) @ frac_text ds @ ''s''"
  have t: "is_digit (hd tail)" using dec_digits_hd by (simp add: tail_def)
  have eq: "u = secs * 10 ^ 9 + u mod 10 ^ 9" by (simp add: secs_def)
  have sm: "secs = secs div 60 * 60 + secs mod 60" "secs div 60 = secs div 60 div 60 * 60 + secs div 60 mod 60" by simp_all
  then have sx: "secs * 10 ^ 9 = secs div 60 div 60 * 3600000000000 + secs div 60 mod 60 * 60000000000 + secs mod 60 * 10 ^ 9" by (rule hours_minutes)
  have last: "dur_loop (int d) tail = Inr (int u)" if "d + secs mod 60 * 10 ^ 9 + u mod 10 ^ 9 = u" for d
    unfolding tail_def using that u by (intro dur_loop_last [OF f(2,3) _ unit_texts(4) unitMap_texts(4)]) (simp_all only: f(4) le_refl)
  have mins: "dur_loop (int d) (dec_digits (secs div 60 mod 60) @ ''m'' @ tail) = Inr (int u)"
    if d: "d + secs div 60 mod 60 * 60000000000 + secs mod 60 * 10 ^ 9 + u mod 10 ^ 9 = u" for d
  proof -
    have "dur_loop (int d) (dec_digits (secs div 60 mod 60) @ ''m'' @ tail) = dur_loop (int (d + secs div 60 mod 60 * 60000000000)) tail"
      using d u by (intro dur_loop_whole [OF unit_texts(5) unitMap_texts(5) _ t]) simp_all
    then show ?thesis using last [OF d] by simp
  qed
  have hrs: "dur_loop 0 (dec_digits (secs div 60 div 60) @ ''h'' @ dec_digits (secs div 60 mod 60) @ ''m'' @ tail) = Inr (int u)"
  proof -
    have d: "secs div 60 div 60 * 3600000000000 + secs div 60 mod 60 * 60000000000 + secs mod 60 * 10 ^ 9 + u mod 10 ^ 9 = u"
      using eq sx by linarith
    have "dur_loop (int 0) (dec_digits (secs div 60 div 60) @ ''h'' @ dec_digits (secs div 60 mod 60) @ ''m'' @ tail)
        = dur_loop (int (0 + secs div 60 div 60 * 3600000000000)) (dec_digits (secs div 60 mod 60) @ ''m'' @ tail)"
      using d u dec_digits_hd by (intro dur_loop_whole [OF unit_texts(6) unitMap_texts(6)]) simp_all
    then show ?thesis using mins [OF d] by simp
  qed
  have "large_String u = (if secs div 60 = 0 then tail else if secs div 60 div 60 = 0 then dec_digits (secs div 60 mod 60) @ ''m'' @ tail
      else dec_digits (secs div 60 div 60) @ ''h'' @ dec_digits (secs div 60 mod 60) @ ''m'' @ tail)"
    using f(1) by (simp add: large_String_def fmtInt_def tail_def secs_def Let_def)
  moreover have "secs div 60 = 0 \<Longrightarrow> dur_loop 0 tail = Inr (int u)" using last [of 0] eq by simp
  moreover have "secs div 60 div 60 = 0 \<Longrightarrow> dur_loop 0 (dec_digits (secs div 60 mod 60) @ ''m'' @ tail) = Inr (int u)"
    using mins [of 0] eq sx by simp
  ultimately show ?thesis using hrs by simp
qed

lemma dur_loop_String:
  "u < 2 ^ 63 \<Longrightarrow> dur_loop 0 (abs_String u) = Inr (int u)"
  by (simp add: abs_String_def dur_loop_small dur_loop_large)

text \<open>A text that the loop accepts from its first character on starts with a digit or a point, so the sign is not taken from it.\<close>

lemma dur_loop_head: "dur_loop d s = Inr v \<Longrightarrow> s \<noteq> [] \<Longrightarrow> hd s = CHR ''.'' \<or> is_digit (hd s)"
  by (subst (asm) dur_loop.simps) (auto simp: dur_component_def split: sum.splits if_splits)

lemma dur_loop_zero: "dur_loop 0 ''0'' \<noteq> Inr v"
  by (subst dur_loop.simps)
    (simp add: dur_component_def leadingInt_def is_digit_def digit_val_def wrap64_def fraction_def Let_def)

lemma ParseDuration_loop:
  assumes "dur_loop 0 s = Inr v" "s \<noteq> []"
  shows "ParseDuration s = Inr v" "ParseDuration (CHR ''-'' # s) = Inr (- v)"
proof -
  have "s \<noteq> ''0''" using assms(1) dur_loop_zero by auto
  moreover have "sign_split s = (False, s)"
    using dur_loop_head [OF assms] assms(2) by (cases s) (auto simp: sign_split_def is_digit_def)
  ultimately show "ParseDuration s = Inr v" "ParseDuration (CHR ''-'' # s) = Inr (- v)"
    using assms by (simp_all add: ParseDuration_def sign_split_minus)
qed

lemma abs_word: "- (2 ^ 63) \<le> d \<Longrightarrow> d < 2 ^ 63 \<Longrightarrow> unat (if d < 0 then - word_of_int d else word_of_int d :: uint64) = nat \<bar>d\<bar>"
proof -
  assume d: "- (2 ^ 63) \<le> d" "d < 2 ^ 63"
  have "(if d < 0 then - word_of_int d else word_of_int d :: uint64) = word_of_int \<bar>d\<bar>" by simp
  moreover have "unat (word_of_int \<bar>d\<bar> :: uint64) = nat \<bar>d\<bar>" using d by (simp add: unat_eq_nat_uint uint_word_of_int)
  ultimately show ?thesis by simp
qed

lemma Duration_String_abs:
  "- (2 ^ 63) \<le> d \<Longrightarrow> d < 2 ^ 63 \<Longrightarrow> Duration_String d = (if d < 0 then ''-'' else []) @ abs_String (nat \<bar>d\<bar>)"
  by (simp only: Duration_String_def Let_def abs_word) auto

lemma abs_String_not_Nil: "abs_String n \<noteq> []"
  by (auto simp: abs_String_def small_String_def large_String_def fmtInt_def Let_def split: prod.splits)

lemma ParseDuration_String: "- (2 ^ 63) < d \<Longrightarrow> d < 2 ^ 63 \<Longrightarrow> ParseDuration (Duration_String d) = Inr d"
  using dur_loop_String [of "nat \<bar>d\<bar>", THEN ParseDuration_loop(1)] dur_loop_String [of "nat \<bar>d\<bar>", THEN ParseDuration_loop(2)]
  by (cases "d < 0") (simp_all add: Duration_String_abs abs_String_not_Nil)

text \<open>The text fits into the library's buffer of 32 bytes.\<close>

lemma dec_digits_length_le: "n < 10 ^ k \<Longrightarrow> 0 < k \<Longrightarrow> length (dec_digits n) \<le> k"
proof (rule ccontr)
  assume n: "n < 10 ^ k" "0 < k" "\<not> length (dec_digits n) \<le> k"
  then have "0 < n" by (cases n) (auto simp: dec_digits.simps)
  then have "10 ^ (length (dec_digits n) - 1) \<le> n" by (rule dec_digits_length)
  moreover have "(10::nat) ^ k \<le> 10 ^ (length (dec_digits n) - 1)" using n by (intro power_increasing) auto
  ultimately show False using n(1) by linarith
qed

lemma fmtFrac_length: "fmtFrac v k buf = (q, b) \<Longrightarrow> length b \<le> Suc k + length buf \<and> q = v div 10 ^ k"
  by (rule fmtFrac_spec [of v k buf]) (auto simp: frac_text_def)

lemma small_length: "0 < n \<Longrightarrow> n < 1000000000 \<Longrightarrow> length (small_String n) \<le> 13"
  using fmtFrac_length [of n 0 "''ns''"] fmtFrac_length [of n 3 "micro @ ''s''"] fmtFrac_length [of n 6 "''ms''"]
    dec_digits_length_le [of "n div 10 ^ 0" 3] dec_digits_length_le [of "n div 10 ^ 3" 3] dec_digits_length_le [of "n div 10 ^ 6" 3]
  by (auto simp: small_String_def fmtInt_def micro_def Let_def less_mult_imp_div_less split: prod.splits)

lemma large_length: "n \<le> 2 ^ 63 \<Longrightarrow> length (large_String n) \<le> 24"
proof -
  assume n: "n \<le> 2 ^ 63"
  obtain secs b where f: "fmtFrac n 9 ''s'' = (secs, b)" by fastforce
  then have b: "length b \<le> 11" and s: "secs = n div 10 ^ 9" using fmtFrac_length [of n 9 "''s''"] by auto
  have "secs div 60 div 60 < 10 ^ 7" using n by (simp add: s div_mult2_eq [symmetric] less_mult_imp_div_less)
  then have "length (dec_digits (secs div 60 div 60)) \<le> 7" by (intro dec_digits_length_le) simp_all
  moreover have "length (dec_digits (secs div 60 mod 60)) \<le> 2" "length (dec_digits (secs mod 60)) \<le> 2"
    by (intro dec_digits_length_le; simp add: order_less_trans [OF mod_less_divisor])+
  ultimately show ?thesis using b by (auto simp: large_String_def f fmtInt_def Let_def)
qed

lemma String_length: "- (2 ^ 63) \<le> d \<Longrightarrow> d < 2 ^ 63 \<Longrightarrow> length (Duration_String d) \<le> 32"
proof -
  assume d: "- (2 ^ 63) \<le> d" "d < 2 ^ 63"
  then have n: "nat \<bar>d\<bar> \<le> 2 ^ 63" by simp
  have "length (abs_String (nat \<bar>d\<bar>)) \<le> 24"
    using small_length [of "nat \<bar>d\<bar>"] large_length [OF n] by (cases "nat \<bar>d\<bar> = 0") (auto simp: abs_String_def small_String_def)
  then show ?thesis unfolding Duration_String_abs [OF d] by (cases "d < 0") simp_all
qed

section \<open>What is read\<close>

text \<open>What is read is in the range of \<open>int64\<close>, without the smallest value.\<close>

lemma wrap64_range: "- (2 ^ 63) \<le> wrap64 x" "wrap64 x < 2 ^ 63"
  by (simp_all add: wrap64_def)

lemma dur_loop_Inr:
  assumes "dur_loop d s = Inr v" "s \<noteq> []"
  obtains w r where "dur_component s = Inr (w, r)" "0 \<le> wrap64 (d + w)" "dur_loop (wrap64 (d + w)) r = Inr v"
  using assms dur_loop.simps [of d s] by (auto simp: Let_def split: sum.splits if_splits)

lemma dur_loop_range: "dur_loop d s = Inr v \<Longrightarrow> 0 \<le> d \<Longrightarrow> d < 2 ^ 63 \<Longrightarrow> 0 \<le> v \<and> v < 2 ^ 63"
proof (induction d s rule: dur_loop.induct)
  case (1 d s)
  show ?case
  proof (cases "s = []")
    case False
    with 1(2) obtain w r where c: "dur_component s = Inr (w, r)" "0 \<le> wrap64 (d + w)" "dur_loop (wrap64 (d + w)) r = Inr v"
      by (rule dur_loop_Inr)
    then show ?thesis using 1(1) [OF False c(1) refl refl] wrap64_range [of "d + w"] by simp
  qed (use 1 in simp)
qed

lemma ParseDuration_range: "ParseDuration s = Inr d \<Longrightarrow> - (2 ^ 63) < d \<and> d < 2 ^ 63"
proof -
  assume p: "ParseDuration s = Inr d"
  obtain neg t where "sign_split s = (neg, t)" by fastforce
  with p have "d = 0 \<or> (\<exists>v. dur_loop 0 t = Inr v \<and> d = (if neg then - v else v))"
    by (auto simp: ParseDuration_def split: if_splits sum.splits)
  then show ?thesis using dur_loop_range [of 0 t] by fastforce
qed

lemma wrap64_over: "2 ^ 63 \<le> x \<Longrightarrow> x < 2 ^ 64 \<Longrightarrow> wrap64 x < 0"
proof -
  assume x: "2 ^ 63 \<le> x" "x < 2 ^ 64"
  have "(x + 2 ^ 63) mod 2 ^ 64 = (x - 2 ^ 63 + 2 ^ 64) mod 2 ^ 64" by (simp add: add.commute)
  also have "\<dots> = x - 2 ^ 63" unfolding mod_add_self2 using x by (intro mod_pos_pos_trivial) simp_all
  finally show ?thesis using x by (simp add: wrap64_def)
qed

text \<open>Digits that are too many for \<open>int64\<close> are an error.\<close>

lemma leadingInt_loop_overflow:
  assumes "list_all is_digit ds" "x < 2 ^ 63" "2 ^ 63 \<le> x * 10 ^ length ds + digits_val ds"
  shows "leadingInt_loop (int x) (ds @ r) = None"
  using assms
proof (induction ds arbitrary: x)
  case (Cons c ds)
  define y where "y = x * 10 + digit_val c"
  have v: "x * 10 ^ length (c # ds) + digits_val (c # ds) = y * 10 ^ length ds + digits_val ds"
    using digits_val_append [of "[c]" ds] by (simp add: y_def algebra_simps digits_val_def)
  have c: "is_digit c" "digit_val c \<le> 9" using Cons.prems(1) by (auto simp: is_digit_def digit_val_def)
  have y: "int x * 10 + int (digit_val c) = int y" by (simp add: y_def)
  show ?case
  proof (cases "(2 ^ 63 - 1) div 10 < int x \<or> 2 ^ 63 \<le> y")
    case True
    have "y < 2 ^ 64 \<or> (2 ^ 63 - 1) div 10 < int x" using c(2) by (auto simp: y_def)
    then have "(2 ^ 63 - 1) div 10 < int x \<or> wrap64 (int y) < 0"
      using True wrap64_over [of "int y"] by fastforce
    then show ?thesis using c y by (auto simp: Let_def)
  next
    case False
    then have "leadingInt_loop (int y) (ds @ r) = None" using Cons.IH [of y] Cons.prems v by simp
    moreover have "wrap64 (int y) = int y" using False by (simp add: wrap64_id)
    ultimately show ?thesis using c y False by (simp add: Let_def)
  qed
qed simp

lemma unitMap_cases:
  assumes "unitMap u = Some k" shows "unit_text u" "0 < k"
  using assms by (auto simp: unitMap_def unit_text_def in_unit_def micro_def is_digit_def split: if_splits)

lemma dur_component_whole:
  assumes u: "unitMap u = Some k" and r: "r = [] \<or> is_digit (hd r)"
  shows "dur_component (dec_digits n @ u @ r) = (if int n * k < 2 ^ 63 then Inr (int n * k, r) else Inl InvalidDuration)"
proof -
  obtain m where k: "k = int m" "0 < m" using unitMap_cases(2) [OF u] zero_less_imp_eq_int by blast
  note t = unitMap_cases(1) [OF u]
  have free: "digit_free (u @ r)" and ne: "u \<noteq> []" "hd (u @ r) \<noteq> CHR ''.''" using t by (cases u; auto simp: digit_free_def unit_text_def in_unit_def)+
  have frac: "fraction (u @ r) = Some (0, float64_of_nat 1, False, u @ r)" using ne by (cases u) (auto simp: fraction_def)
  show ?thesis
  proof (cases "n < 2 ^ 63")
    case False
    have "n * 1 \<le> n * m" using k(2) by (intro mult_le_mono) simp_all
    then have "\<not> n * m < 2 ^ 63" using False by linarith
    moreover have "leadingInt (dec_digits n @ u @ r) = None"
      using leadingInt_loop_overflow [OF dec_digits_is_digit, of 0 n "u @ r"] False by (simp add: leadingInt_def)
    ultimately show ?thesis using dec_digits_hd [of n] k by (simp add: dur_component_def flip: of_nat_mult)
  next
    case True
    have l: "leadingInt (dec_digits n @ u @ r) = Some (int n, u @ r)"
      using leadingInt_digits [OF dec_digits_is_digit free, of n] True by simp
    have "dur_value (int n) 0 (float64_of_nat 1) k = (if int n * k < 2 ^ 63 then Some (int n * k) else None)"
    proof (cases "n * m < 2 ^ 63")
      case True
      then show ?thesis using dur_value_whole [OF k(2) True] k by (simp flip: of_nat_mult)
    next
      case False
      then have "2 ^ 63 - 1 < int n * int m" by (simp flip: of_nat_mult)
      moreover have "(2 ^ 63 - 1) div int m * int m \<le> 2 ^ 63 - 1"
        using k(2) div_mult_mod_eq [of "2 ^ 63 - 1" "int m"] pos_mod_sign [of "int m" "2 ^ 63 - 1"] by linarith
      ultimately have "(2 ^ 63 - 1) div int m * int m < int n * int m" by linarith
      then have "(2 ^ 63 - 1) div int m < int n" using k(2) by (simp only: mult_less_cancel_right_pos of_nat_0_less_iff)
      then show ?thesis using False k by (simp add: dur_value_def flip: of_nat_mult)
    qed
    then show ?thesis
      using dec_digits_hd [of n] u ne(1) by (simp add: dur_component_def l frac unit_split [OF t r] Let_def)
  qed
qed

text \<open>A text of whole numbers with units is read as their sum, and refused exactly when the sum is not an \<open>int64\<close>.\<close>

definition part_text :: "nat \<times> string \<Rightarrow> string" where
  "part_text p = dec_digits (fst p) @ snd p"

definition part_value :: "nat \<times> string \<Rightarrow> int" where
  "part_value p = int (fst p) * the (unitMap (snd p))"

lemma part_text_hd: "is_digit (hd (part_text p @ s))"
  using dec_digits_hd [of "fst p"] by (simp add: part_text_def)

lemma dur_loop_parts:
  assumes "\<forall>p \<in> set ps. unitMap (snd p) \<noteq> None" "0 \<le> d" "d < 2 ^ 63"
  shows "dur_loop d (concat (map part_text ps)) =
    (if d + sum_list (map part_value ps) < 2 ^ 63 then Inr (d + sum_list (map part_value ps)) else Inl InvalidDuration)"
  using assms
proof (induction ps arbitrary: d)
  case (Cons p ps)
  define r where "r = concat (map part_text ps)"
  obtain k where k: "unitMap (snd p) = Some k" using Cons.prems(1) by auto
  have r: "r = [] \<or> is_digit (hd r)" using part_text_hd by (cases ps) (auto simp: r_def)
  have pv: "part_value p = int (fst p) * k" "0 \<le> part_value p" using k unitMap_cases(2) [OF k] by (simp_all add: part_value_def)
  have rest: "0 \<le> sum_list (map part_value ps)"
    using Cons.prems(1) unitMap_cases(2) by (intro sum_list_nonneg) (fastforce simp: part_value_def)
  have c: "dur_component (part_text p @ r) = (if part_value p < 2 ^ 63 then Inr (part_value p, r) else Inl InvalidDuration)"
    using dur_component_whole [OF k r, of "fst p"] by (simp add: part_text_def pv)
  have ne: "part_text p @ r \<noteq> []" by (simp add: part_text_def)
  have step: "dur_loop d (part_text p @ r) = (if part_value p < 2 ^ 63 then if d + part_value p < 2 ^ 63 then dur_loop (d + part_value p) r
      else Inl InvalidDuration else Inl InvalidDuration)"
  proof (cases "part_value p < 2 ^ 63")
    case True
    then show ?thesis
      using c ne pv(2) Cons.prems(2,3) wrap64_over [of "d + part_value p"] wrap64_id [of "d + part_value p"]
      by (subst dur_loop.simps) (auto simp: Let_def)
  qed (use c ne in \<open>simp add: dur_loop.simps\<close>)
  show ?case
  proof (cases "d + part_value p < 2 ^ 63")
    case True
    then show ?thesis using step Cons.IH [of "d + part_value p"] Cons.prems pv(2) by (simp add: r_def add.assoc)
  next
    case False
    then show ?thesis using step rest by (simp add: r_def)
  qed
qed simp

lemma ParseDuration_sum:
  assumes "\<forall>p \<in> set ps. unitMap (snd p) \<noteq> None" "ps \<noteq> []"
  shows "ParseDuration (concat (map part_text ps)) =
    (if sum_list (map part_value ps) < 2 ^ 63 then Inr (sum_list (map part_value ps)) else Inl InvalidDuration)"
proof -
  define s where "s = concat (map part_text ps)"
  obtain p qs where ps: "ps = p # qs" using assms(2) by (cases ps) auto
  have h: "is_digit (hd s)" "s \<noteq> []" using part_text_hd [of p] by (simp_all add: s_def ps part_text_def)
  then have "sign_split s = (False, s)" by (cases s) (auto simp: sign_split_def is_digit_def)
  moreover have "s \<noteq> ''0''"
  proof
    assume "s = ''0''"
    moreover obtain k where "unitMap (snd p) = Some k" using assms(1) ps by auto
    then have "snd p \<noteq> []" using unitMap_cases(1) by (auto simp: unit_text_def)
    then have "2 \<le> length s" using dec_digits_not_Nil [of "fst p"] by (cases "dec_digits (fst p)"; cases "snd p") (auto simp: s_def ps part_text_def)
    ultimately show False by simp
  qed
  ultimately show ?thesis
    using h(2) dur_loop_parts [OF assms(1), of 0] by (simp add: ParseDuration_def flip: s_def)
qed

section \<open>Durations of the configuration\<close>

text \<open>Evaluation of the text of a duration: the digits, and the nine passes of the loop for the fraction of a second.\<close>

lemma digit_chars:
  "char_of (48::nat) = CHR ''0''" "char_of (49::nat) = CHR ''1''" "char_of (50::nat) = CHR ''2''" "char_of (51::nat) = CHR ''3''"
  "char_of (52::nat) = CHR ''4''" "char_of (53::nat) = CHR ''5''" "char_of (54::nat) = CHR ''6''" "char_of (55::nat) = CHR ''7''"
  "char_of (56::nat) = CHR ''8''" "char_of (57::nat) = CHR ''9''"
  by code_simp+

lemma nine_passes: "fmtFrac_loop pr v 9 buf = fmtFrac_loop pr v (Suc (Suc (Suc (Suc (Suc (Suc (Suc (Suc (Suc 0))))))))) buf"
  by (rule arg_cong [where f = "\<lambda>k. fmtFrac_loop pr v k buf"]) simp

lemmas text_eval = Duration_String_abs abs_String_def large_String_def fmtFrac_def nine_passes fmtInt_def frac_text_def Let_def digit_chars

text \<open>C33. A duration of the configuration that is written and read back is the same, for every \<open>int64\<close> of nanoseconds but the smallest, whatever the field
  held before; and its text fits into the 32 bytes of the library's buffer, so that writing it does not panic.\<close>

theorem duration_roundtrip:
  assumes "- (2 ^ 63) < time_Duration d" "time_Duration d < 2 ^ 63"
  shows "UnmarshalText d0 (MarshalText d) = (d, None) \<and> length (MarshalText d) \<le> 32"
  using assms ParseDuration_String [OF assms] String_length [of "time_Duration d"] by (simp add: UnmarshalText_def MarshalText_def)

text \<open>A minute and a half: the text, and the value that is read back into a field that held the default of \<open>metric-interval\<close>.\<close>

theorem duration_roundtrip_witness:
  "MarshalText \<lparr>time_Duration = 90500000000\<rparr> = ''1m30.5s''
   \<and> UnmarshalText \<lparr>time_Duration = 60000000000\<rparr> ''1m30.5s'' = (\<lparr>time_Duration = 90500000000\<rparr>, None)"
proof -
  have "MarshalText \<lparr>time_Duration = 90500000000\<rparr> = ''1m30.5s''" by (simp add: MarshalText_def text_eval dec_digits.simps)
  then show ?thesis using duration_roundtrip [of "\<lparr>time_Duration = 90500000000\<rparr>" "\<lparr>time_Duration = 60000000000\<rparr>"] by simp
qed

text \<open>Every text that is read, in whatever units, has a written form that reads as the same duration.\<close>

lemma duration_normal_form:
  assumes "UnmarshalText d0 t = (d, None)"
  shows "UnmarshalText d1 (MarshalText d) = (d, None)"
  using assms ParseDuration_range [of t] ParseDuration_String [of "time_Duration d"]
  by (auto simp: UnmarshalText_def MarshalText_def split: sum.splits)

text \<open>After an error the field is zero, not its default.\<close>

lemma unmarshal_error: "UnmarshalText d0 t = (d, Some e) \<Longrightarrow> time_Duration d = 0"
  by (auto simp: UnmarshalText_def split: sum.splits)

text \<open>The smallest duration is written, but its text is not read: the loop adds up to \<open>2^63\<close> before it changes the sign.\<close>

lemma smallest_not_read: "UnmarshalText d0 (MarshalText \<lparr>time_Duration = - (2 ^ 63)\<rparr>) = (\<lparr>time_Duration = 0\<rparr>, Some InvalidDuration)"
proof -
  define r where "r = dec_digits 16 @ frac_text ''854775808'' @ ''s''"
  define t where "t = dec_digits 2562047 @ ''h'' @ dec_digits 47 @ ''m'' @ r"
  have f: "list_all is_digit ''854775808''" "digits_val ''854775808'' = 854775808" by (simp_all add: is_digit_def digits_val_def digit_val_def)
  have c: "dur_component r = Inr (16854775808, [])"
    using dur_component_text [OF unit_texts(4) unitMap_texts(4), of "[]" "''854775808''" 16 16854775808] dur_value_frac [OF f(1), of 9 16 16854775808] f
    by (simp add: r_def)
  have "r \<noteq> []" by (simp add: r_def)
  then have "dur_loop (int 9223372020000000000) r = Inl InvalidDuration"
    using c by (subst dur_loop.simps) (simp add: wrap64_def)
  moreover have "dur_loop (int 0) t = dur_loop (int 9223372020000000000) r"
    using dur_loop_whole [OF unit_texts(6) unitMap_texts(6), of "dec_digits 47 @ ''m'' @ r" 0 2562047] dec_digits_hd
      dur_loop_whole [OF unit_texts(5) unitMap_texts(5), of r 9223369200000000000 47] by (simp add: t_def r_def)
  moreover have "Duration_String (- (2 ^ 63)) = CHR ''-'' # t" by (simp add: text_eval r_def t_def)
  ultimately have "ParseDuration (Duration_String (- (2 ^ 63))) = Inl InvalidDuration"
    by (simp add: ParseDuration_def sign_split_minus) (simp add: t_def)
  then show ?thesis by (simp add: UnmarshalText_def MarshalText_def)
qed

end
