(* ===== verification/Config_Model.thy ===== *)
theory Config_Model
  imports Durations
begin

text \<open>
  The configuration, \<open>src/carbon/config.go\<close>: its sections with their defaults, and reading the file (the TOML decoder is an
  argument). A field's prefix is that of its section.
\<close>

definition MetricEndpointLocal :: string where
  "MetricEndpointLocal = ''local''"

abbreviation Second :: int where
  "Second \<equiv> 1000000000"

record commonConfig =
  cm_User :: string
  cm_Logfile :: string
  cm_LogLevel :: string
  cm_GraphPrefix :: string
  cm_MetricInterval :: Duration
  cm_MetricEndpoint :: string
  cm_MaxCPU :: int

record ('r, 't) whisperConfig =
  wh_DataDir :: string
  wh_SchemasFilename :: string
  wh_AggregationFilename :: string
  wh_Workers :: int
  wh_MaxUpdatesPerSecond :: int
  wh_Sparse :: bool
  wh_Enabled :: bool
  wh_Schemas :: "('r, 't) Schema list"
  wh_Aggregation :: "'r WhisperAggregation option"

record cacheConfig =
  ca_MaxSize :: uint32
  ca_InputBuffer :: int
  ca_WriteStrategy :: string

record udpConfig =
  ud_Listen :: string
  ud_Enabled :: bool
  ud_LogIncomplete :: bool

record tcpConfig =
  tc_Listen :: string
  tc_Enabled :: bool

record pickleConfig =
  pi_Listen :: string
  pi_MaxMessageSize :: int
  pi_Enabled :: bool

record carbonlinkConfig =
  cl_Listen :: string
  cl_Enabled :: bool
  cl_ReadTimeout :: Duration
  cl_QueryTimeout :: Duration

record carbonserverConfig =
  cs_Listen :: string
  cs_Enabled :: bool
  cs_ReadTimeout :: Duration
  cs_QueryTimeout :: Duration
  cs_ScanFrequency :: Duration
  cs_Buckets :: int
  cs_MaxGlobs :: int
  cs_MetricsAsCounters :: bool

record pprofConfig =
  pp_Listen :: string
  pp_Enabled :: bool

record dumpConfig =
  du_Enabled :: bool
  du_Path :: string
  du_RestorePerSecond :: int

record ('r, 't) Config =
  Common :: commonConfig
  WhisperC :: "('r, 't) whisperConfig"
  CacheC :: cacheConfig
  Udp :: udpConfig
  Tcp :: tcpConfig
  Pickle :: pickleConfig
  Carbonlink :: carbonlinkConfig
  CarbonserverC :: carbonserverConfig
  Dump :: dumpConfig
  Pprof :: pprofConfig

definition NewConfig :: "('r, 't) Config" where
  "NewConfig =
     \<lparr>Common = \<lparr>cm_User = [], cm_Logfile = ''/var/log/go-carbon/go-carbon.log'', cm_LogLevel = ''info'',
        cm_GraphPrefix = ''carbon.agents.{host}'', cm_MetricInterval = \<lparr>time_Duration = 60 * Second\<rparr>, cm_MetricEndpoint = MetricEndpointLocal, cm_MaxCPU = 1\<rparr>,
      WhisperC = \<lparr>wh_DataDir = ''/data/graphite/whisper/'', wh_SchemasFilename = ''/data/graphite/schemas'', wh_AggregationFilename = [],
        wh_Workers = 1, wh_MaxUpdatesPerSecond = 0, wh_Sparse = False, wh_Enabled = True, wh_Schemas = [], wh_Aggregation = None\<rparr>,
      CacheC = \<lparr>ca_MaxSize = 1000000, ca_InputBuffer = 51200, ca_WriteStrategy = ''max''\<rparr>,
      Udp = \<lparr>ud_Listen = '':2003'', ud_Enabled = True, ud_LogIncomplete = False\<rparr>,
      Tcp = \<lparr>tc_Listen = '':2003'', tc_Enabled = True\<rparr>,
      Pickle = \<lparr>pi_Listen = '':2004'', pi_MaxMessageSize = 67108864, pi_Enabled = True\<rparr>,
      Carbonlink = \<lparr>cl_Listen = ''127.0.0.1:7002'', cl_Enabled = True, cl_ReadTimeout = \<lparr>time_Duration = 30 * Second\<rparr>,
        cl_QueryTimeout = \<lparr>time_Duration = 100000000\<rparr>\<rparr>,
      CarbonserverC = \<lparr>cs_Listen = ''127.0.0.1:8080'', cs_Enabled = False, cs_ReadTimeout = \<lparr>time_Duration = 30 * Second\<rparr>,
        cs_QueryTimeout = \<lparr>time_Duration = 100000000\<rparr>, cs_ScanFrequency = \<lparr>time_Duration = 300 * Second\<rparr>, cs_Buckets = 10, cs_MaxGlobs = 100, cs_MetricsAsCounters = False\<rparr>,
      Dump = \<lparr>du_Enabled = False, du_Path = [], du_RestorePerSecond = 0\<rparr>,
      Pprof = \<lparr>pp_Listen = ''localhost:7007'', pp_Enabled = False\<rparr>\<rparr>"

definition ParseConfig :: "(string \<Rightarrow> 'c \<Rightarrow> ('e, 'c) result) \<Rightarrow> string \<Rightarrow> 'c \<Rightarrow> ('e, 'c) result" where
  "ParseConfig decodeFile filename cfg = (if filename \<noteq> [] then decodeFile filename cfg else Inr cfg)"

section \<open>Checking a configuration\<close>

text \<open>\<open>strings.Replace(s, old, new, -1)\<close> for a non-empty \<open>old\<close>: from the left, without overlaps.\<close>

fun replace_all :: "string \<Rightarrow> string \<Rightarrow> nat \<Rightarrow> string \<Rightarrow> string" where
  "replace_all old new k [] = []"
| "replace_all old new (Suc k) (c # s) = replace_all old new k s"
| "replace_all old new 0 (c # s) =
     (if prefix old (c # s) then new @ replace_all old new (length old - 1) s else c # replace_all old new 0 s)"

datatype 'e config_error = ConfigFile 'e | SchemasFile "'e" | AggregationFile 'e | UnsupportedStrategy | EndpointParse 'e | EndpointScheme string

text \<open>What \<open>configure\<close> asks of the outside: the decoder, the host name, the two readers, and the scheme of a URL.\<close>

record ('r, 't, 'e) config_env =
  decodeFile :: "string \<Rightarrow> ('r, 't) Config \<Rightarrow> ('e, ('r, 't) Config) result"
  hostname :: "string option"
  readSchemas :: "string \<Rightarrow> ('e, ('r, 't) Schema list) result"
  readAggregation :: "string \<Rightarrow> ('e, 'r WhisperAggregation) result"
  urlScheme :: "string \<Rightarrow> ('e, string) result"

definition graph_prefix :: "string option \<Rightarrow> string \<Rightarrow> string" where
  "graph_prefix host s =
     replace_all ''{host}'' (case host of Some h \<Rightarrow> replace_char CHR ''.'' CHR ''_'' h | None \<Rightarrow> ''localhost'') 0 s"

definition configure_whisper :: "('r, 't, 'e) config_env \<Rightarrow> ('r, 't) whisperConfig \<Rightarrow> ('e config_error, ('r, 't) whisperConfig) result" where
  "configure_whisper env w =
     (if \<not> wh_Enabled w then Inr w
      else (case readSchemas env (wh_SchemasFilename w) of
              Inl e \<Rightarrow> Inl (SchemasFile e)
            | Inr ss \<Rightarrow>
                if wh_AggregationFilename w \<noteq> []
                then (case readAggregation env (wh_AggregationFilename w) of
                        Inl e \<Rightarrow> Inl (AggregationFile e)
                      | Inr a \<Rightarrow> Inr (w\<lparr>wh_Schemas := ss, wh_Aggregation := Some a\<rparr>))
                else Inr (w\<lparr>wh_Schemas := ss, wh_Aggregation := Some NewWhisperAggregation\<rparr>)))"

definition check_endpoint :: "(string \<Rightarrow> ('e, string) result) \<Rightarrow> string \<Rightarrow> 'e config_error option" where
  "check_endpoint scheme endpoint =
     (if endpoint = MetricEndpointLocal then None
      else (case scheme endpoint of
              Inl e \<Rightarrow> Some (EndpointParse e)
            | Inr s \<Rightarrow> if s \<noteq> ''tcp'' \<and> s \<noteq> ''udp'' then Some (EndpointScheme s) else None))"

definition load_config :: "('r, 't, 'e) config_env \<Rightarrow> string \<Rightarrow> ('e config_error, ('r, 't) Config) result" where
  "load_config env filename =
     (case ParseConfig (decodeFile env) filename NewConfig of
        Inl e \<Rightarrow> Inl (ConfigFile e)
      | Inr cfg0 \<Rightarrow>
          (let cfg1 = cfg0\<lparr>Common := (Common cfg0)\<lparr>cm_GraphPrefix := graph_prefix (hostname env) (cm_GraphPrefix (Common cfg0))\<rparr>\<rparr>
           in case configure_whisper env (WhisperC cfg1) of
                Inl e \<Rightarrow> Inl e
              | Inr w \<Rightarrow>
                  (let cfg2 = cfg1\<lparr>WhisperC := w\<rparr>; s = ca_WriteStrategy (CacheC cfg2);
                       endpoint = (if cm_MetricEndpoint (Common cfg2) = [] then MetricEndpointLocal else cm_MetricEndpoint (Common cfg2));
                       cfg3 = cfg2\<lparr>Common := (Common cfg2)\<lparr>cm_MetricEndpoint := endpoint\<rparr>\<rparr>
                   in if \<not> (s = ''max'' \<or> s = ''sorted'' \<or> s = ''noop'') then Inl UnsupportedStrategy
                      else (case check_endpoint (urlScheme env) endpoint of Some e \<Rightarrow> Inl e | None \<Rightarrow> Inr cfg3))))"

lemma load_config_ok:
  assumes "load_config env filename = Inr cfg"
  shows "ca_WriteStrategy (CacheC cfg) \<in> {''max'', ''sorted'', ''noop''}"
    and "cm_MetricEndpoint (Common cfg) = MetricEndpointLocal \<or> urlScheme env (cm_MetricEndpoint (Common cfg)) \<in> {Inr ''tcp'', Inr ''udp''}"
    and "wh_Enabled (WhisperC cfg) \<Longrightarrow> wh_Aggregation (WhisperC cfg) \<noteq> None"
  using assms
  by (auto simp: load_config_def Let_def configure_whisper_def check_endpoint_def split: sum.splits if_splits option.splits)

text \<open>Replacing in a prefix that has the placeholder once.\<close>

lemma replace_all_skip: "replace_all old new (length s) (s @ t) = replace_all old new 0 t"
  by (induction s) auto

lemma replace_all_hit: "old \<noteq> [] \<Longrightarrow> replace_all old new 0 (old @ t) = new @ replace_all old new 0 t"
  by (cases old) (auto simp: replace_all_skip)

lemma replace_all_none: "hd old \<notin> set s \<Longrightarrow> old \<noteq> [] \<Longrightarrow> replace_all old new 0 s = s"
  by (induction s) (auto simp: neq_Nil_conv)

end
