(* ===== verification/App_Model.thy ===== *)
theory App_Model
  imports Config_Model Carbonserver Grace_Model
begin

text \<open>
  The application that puts the components together, \<open>src/carbon/app.go\<close>, its \<open>GraceStop\<close> in \<open>src/carbon/grace.go\<close>, and the
  collector of statistics, \<open>src/carbon/collector.go\<close>. A component that runs is a field that is not None. What \<open>Start\<close> gets from
  sockets and URLs is the record \<open>start_env\<close>; stopping gives the list of what was stopped, in order.

  The only callback of the receivers is the send to the cache's input, so it is the unit value.
\<close>

section \<open>State\<close>

record CarbonlinkListener =
  link_readTimeout :: int
  link_queryTimeout :: int

definition NewCarbonlinkListener :: CarbonlinkListener where
  "NewCarbonlinkListener = \<lparr>link_readTimeout = 30 * Second, link_queryTimeout = 100000000\<rparr>"

definition link_SetReadTimeout :: "int \<Rightarrow> CarbonlinkListener \<Rightarrow> CarbonlinkListener" where
  "link_SetReadTimeout d l = l\<lparr>link_readTimeout := d\<rparr>"

definition link_SetQueryTimeout :: "int \<Rightarrow> CarbonlinkListener \<Rightarrow> CarbonlinkListener" where
  "link_SetQueryTimeout d l = l\<lparr>link_queryTimeout := d\<rparr>"

text \<open>The modules the collector asks for statistics, by name, and its queue of points.\<close>

datatype endpoint = LocalCache | Remote string nat

record Collector =
  graphPrefix :: string
  metricInterval :: int
  stats :: "string list"
  sender :: endpoint
  cdata :: "Points list"

record ('r, 't, 'i) App =
  ConfigFilename :: string
  AConfig :: "('r, 't) Config"
  ACache :: "Cache option"
  AUDP :: "unit Receiver option"
  ATCP :: "unit Receiver option"
  APickle :: "unit Receiver option"
  ACarbonLink :: "CarbonlinkListener option"
  APersister :: "('r, 't) Whisper option"
  ACarbonserver :: "'i CarbonserverListener option"
  ACollector :: "Collector option"
  exit_open :: bool

definition App_New :: "string \<Rightarrow> ('r, 't, 'i) App" where
  "App_New filename = \<lparr>ConfigFilename = filename, AConfig = NewConfig, ACache = None, AUDP = None, ATCP = None, APickle = None,
     ACarbonLink = None, APersister = None, ACarbonserver = None, ACollector = None, exit_open = True\<rparr>"

definition configure :: "('r, 't, 'e) config_env \<Rightarrow> ('r, 't, 'i) App \<Rightarrow> 'e config_error option \<times> ('r, 't, 'i) App" where
  "configure env app =
     (case load_config env (ConfigFilename app) of Inl e \<Rightarrow> (Some e, app) | Inr cfg \<Rightarrow> (None, app\<lparr>AConfig := cfg\<rparr>))"

section \<open>The collector\<close>

definition stat_modules :: "('r, 't, 'i) App \<Rightarrow> string list" where
  "stat_modules app =
     (if ACache app \<noteq> None then [''cache''] else []) @ (if ACarbonserver app \<noteq> None then [''carbonserver''] else [])
     @ (if AUDP app \<noteq> None then [''udp''] else []) @ (if ATCP app \<noteq> None then [''tcp''] else [])
     @ (if APickle app \<noteq> None then [''pickle''] else []) @ (if APersister app \<noteq> None then [''persister''] else [])"

text \<open>An endpoint that cannot be parsed is replaced by the local cache; UDP gets small chunks.\<close>

definition NewCollector :: "(string \<Rightarrow> ('e, string) result) \<Rightarrow> ('r, 't, 'i) App \<Rightarrow> Collector" where
  "NewCollector scheme app =
     (let c = Common (AConfig app)
      in \<lparr>graphPrefix = cm_GraphPrefix c, metricInterval = Duration_Value (cm_MetricInterval c), stats = stat_modules app,
          sender = (case scheme (cm_MetricEndpoint c) of
                      Inl _ \<Rightarrow> LocalCache
                    | Inr s \<Rightarrow> if cm_MetricEndpoint c = MetricEndpointLocal then LocalCache
                              else Remote s (if s = ''udp'' then 1000 else 32768)),
          cdata = []\<rparr>)"

definition sendCallback :: "int64 \<Rightarrow> string \<Rightarrow> sent \<Rightarrow> Collector \<Rightarrow> Collector" where
  "sendCallback nowT moduleName s c =
     (let key = graphPrefix c @ ''.'' @ moduleName @ ''.'' @ fst s
      in if length (cdata c) < 4096 then c\<lparr>cdata := cdata c @ [NowPoint nowT key (snd s)]\<rparr> else c)"

text \<open>\<open>stat\<close> is what the \<open>Stat\<close> of a module sends.\<close>

definition collect :: "int64 \<Rightarrow> (string \<Rightarrow> sent list) \<Rightarrow> Collector \<Rightarrow> Collector" where
  "collect nowT stat c = fold (\<lambda>m c. fold (sendCallback nowT m) (stat m) c) (stats c) c"

text \<open>
  The sender to a remote endpoint. Each pass of the loop over a chunk meets one event: the closed exit channel, a dial that fails, a deadline that cannot be set, a write
  that fails after \<open>n\<close> bytes, or a write of the whole chunk. The state has the variable \<open>conn\<close>, how many connections were opened and closed, and what each write delivered. The
  result says whether the loop ended with the chunk written; None is waiting for the next attempt.
\<close>

datatype send_event = SendExit | DialFailed | DeadlineFailed | WriteFailed nat | WriteDone

record send_state =
  conn :: bool
  opened :: nat
  closed_conns :: nat
  delivered :: "bytes list"

definition conn_close :: "send_state \<Rightarrow> send_state" where
  "conn_close s = (if conn s then s\<lparr>conn := False, closed_conns := Suc (closed_conns s)\<rparr> else s)"

definition conn_dial :: "send_state \<Rightarrow> send_state" where
  "conn_dial s = s\<lparr>conn := True, opened := Suc (opened s)\<rparr>"

definition conn_write :: "bytes \<Rightarrow> send_state \<Rightarrow> send_state" where
  "conn_write bs s = s\<lparr>delivered := delivered s @ [bs]\<rparr>"

fun send_loop :: "bytes \<Rightarrow> send_event list \<Rightarrow> send_state \<Rightarrow> bool option \<times> send_state" where
  "send_loop chunk [] s = (None, s)"
| "send_loop chunk (SendExit # es) s = (Some False, conn_close s)"
| "send_loop chunk (DialFailed # es) s = send_loop chunk es (conn_close s)"
| "send_loop chunk (DeadlineFailed # es) s = send_loop chunk es (conn_dial (conn_close s))"
| "send_loop chunk (WriteFailed n # es) s = send_loop chunk es (conn_write (take n chunk) (conn_dial (conn_close s)))"
| "send_loop chunk (WriteDone # es) s = (Some True, conn_close (conn_write chunk (conn_dial (conn_close s))))"

text \<open>\<open>Glue\<close> calls the loop for one chunk after the other; the flag says whether the last call has returned.\<close>

fun send_chunks :: "bytes list \<Rightarrow> send_event list list \<Rightarrow> send_state \<Rightarrow> bool \<times> send_state" where
  "send_chunks [] ess s = (True, s)"
| "send_chunks (c # cs) [] s = (False, s)"
| "send_chunks (c # cs) (es # ess) s =
     (case send_loop c es s of (None, s') \<Rightarrow> (False, s') | (Some _, s') \<Rightarrow> send_chunks cs ess s')"

definition remote_sender :: "nat \<Rightarrow> glue_event list \<Rightarrow> send_event list list \<Rightarrow> bool \<times> send_state" where
  "remote_sender chunkSize ges ess =
     send_chunks (snd (snd (Glue chunkSize ges ([], [])))) ess \<lparr>conn = False, opened = 0, closed_conns = 0, delivered = []\<rparr>"

text \<open>
  The goroutines of a collector that sends to the cache: one collects when its ticker fires, the other takes a point from the queue and waits until the cache
  accepts it or the exit channel is closed (then the point it holds is gone). The argument is the order of what happens; None says that it cannot happen,
  because the queue is empty. The result is the collector and what the cache was sent.
\<close>

datatype collector_event = CollectorTick int64 "string \<Rightarrow> sent list" | Forwarded | ExitHolding | CollectorExit

fun collector_run :: "collector_event list \<Rightarrow> Collector \<Rightarrow> Points list \<Rightarrow> (Collector \<times> Points list) option" where
  "collector_run [] c out = Some (c, out)"
| "collector_run (CollectorTick nowT stat # es) c out = collector_run es (collect nowT stat c) out"
| "collector_run (Forwarded # es) c out =
     (case cdata c of [] \<Rightarrow> None | p # q \<Rightarrow> collector_run es (c\<lparr>cdata := q\<rparr>) (out @ [p]))"
| "collector_run (ExitHolding # es) c out = (case cdata c of [] \<Rightarrow> None | p # q \<Rightarrow> Some (c\<lparr>cdata := q\<rparr>, out))"
| "collector_run (CollectorExit # es) c out = Some (c, out)"

text \<open>The goroutine that collects makes its ticker first: \<open>time.NewTicker\<close> panics for an interval that is not positive (Inl), and the panic ends the program.\<close>

definition collector_goroutines :: "collector_event list \<Rightarrow> Collector \<Rightarrow> unit + (Collector \<times> Points list) option" where
  "collector_goroutines es c = (if metricInterval c \<le> 0 then Inl () else Inr (collector_run es c []))"

section \<open>Stopping\<close>

datatype comp = CTCP | CPickle | CUDP | CCarbonLink | CCarbonserver | CPersister | CCache | CCollector | CExit

definition stop_field :: "comp \<Rightarrow> 'a option \<Rightarrow> comp list" where
  "stop_field c f = (case f of None \<Rightarrow> [] | Some _ \<Rightarrow> [c])"

text \<open>None: the server's \<open>Stop\<close> does not return.\<close>

definition stopListeners :: "('r, 't, 'i) App \<Rightarrow> (('r, 't, 'i) App \<times> comp list) option" where
  "stopListeners app =
     (let app' = app\<lparr>ATCP := None, APickle := None, AUDP := None, ACarbonLink := None, ACarbonserver := None\<rparr>;
          stopped = stop_field CTCP (ATCP app) @ stop_field CPickle (APickle app) @ stop_field CUDP (AUDP app)
            @ stop_field CCarbonLink (ACarbonLink app) @ stop_field CCarbonserver (ACarbonserver app)
      in (case ACarbonserver app of
            None \<Rightarrow> Some (app', stopped)
          | Some l \<Rightarrow> (case Carbonserver_Stop l of None \<Rightarrow> None | Some _ \<Rightarrow> Some (app', stopped))))"

definition stopAll :: "('r, 't, 'i) App \<Rightarrow> (('r, 't, 'i) App \<times> comp list) option" where
  "stopAll app =
     (case stopListeners app of
        None \<Rightarrow> None
      | Some (app1, s1) \<Rightarrow>
          Some (app1\<lparr>APersister := None, ACache := None, ACollector := None, exit_open := False\<rparr>,
                s1 @ stop_field CPersister (APersister app1) @ stop_field CCache (ACache app1)
                @ stop_field CCollector (ACollector app1) @ (if exit_open app1 then [CExit] else [])))"

definition App_Stop :: "('r, 't, 'i) App \<Rightarrow> (('r, 't, 'i) App \<times> comp list) option" where
  "App_Stop app = stopAll app"

section \<open>Starting\<close>

definition startPersister :: "('r, 't, 'i) App \<Rightarrow> ('r, 't, 'i) App" where
  "startPersister app =
     (let w = WhisperC (AConfig app)
      in if wh_Enabled w
         then app\<lparr>APersister := Some (SetWorkers (wh_Workers w) (SetSparse (wh_Sparse w) (SetMaxUpdatesPerSecond (wh_MaxUpdatesPerSecond w)
                (NewWhisper (wh_DataDir w) (wh_Schemas w) (case wh_Aggregation w of Some a \<Rightarrow> a | None \<Rightarrow> NewWhisperAggregation) True))))\<rparr>
         else app)"

definition new_cache :: "cacheConfig \<Rightarrow> Cache" where
  "new_cache conf =
     (let c = SetInputCapacity (nat (ca_InputBuffer conf)) (SetMaxSize (ca_MaxSize conf) Cache_New);
          c1 = (case SetWriteStrategy (ca_WriteStrategy conf) c of Inl _ \<Rightarrow> c | Inr c1 \<Rightarrow> c1)
      in fst (Cache_Out (fst (Cache_In c1))))"

record ('e, 'a, 'i) start_env =
  parseUrl :: "string \<Rightarrow> ('e, string \<times> string) result"
  resolveAddr :: "string \<Rightarrow> string \<Rightarrow> ('e, 'a) result"
  listenOn :: "unit Receiver \<Rightarrow> 'a \<Rightarrow> 'e option"
  newIndex :: "string list \<Rightarrow> 'i list \<Rightarrow> nat list"
  walkEntries :: "(string \<times> string \<times> bool) option list"
  serverErr :: "'e option"
  linkErr :: "'a \<Rightarrow> 'e option"

datatype 'e start_outcome = Started | StartFailed "'e new_error" | StartPanic | StartBlocked

definition new_receiver :: "('e, 'a, 'i) start_env \<Rightarrow> string \<Rightarrow> unit Option list \<Rightarrow> ('e new_error, unit Receiver) result" where
  "new_receiver env dsn opts = Receiver_New (parseUrl env) (resolveAddr env) (listenOn env) dsn (OutFunc () # opts)"

definition start_udp :: "('e, 'a, 'i) start_env \<Rightarrow> ('r, 't, 'i) App \<Rightarrow> ('e new_error, ('r, 't, 'i) App) result" where
  "start_udp env app =
     (let c = Udp (AConfig app)
      in if \<not> ud_Enabled c then Inr app
         else map_sum id (\<lambda>r. app\<lparr>AUDP := Some r\<rparr>) (new_receiver env (''udp://'' @ ud_Listen c) [UDPLogIncomplete (ud_LogIncomplete c)]))"

definition start_tcp :: "('e, 'a, 'i) start_env \<Rightarrow> ('r, 't, 'i) App \<Rightarrow> ('e new_error, ('r, 't, 'i) App) result" where
  "start_tcp env app =
     (let c = Tcp (AConfig app)
      in if \<not> tc_Enabled c then Inr app
         else map_sum id (\<lambda>r. app\<lparr>ATCP := Some r\<rparr>) (new_receiver env (''tcp://'' @ tc_Listen c) []))"

definition start_pickle :: "('e, 'a, 'i) start_env \<Rightarrow> ('r, 't, 'i) App \<Rightarrow> ('e new_error, ('r, 't, 'i) App) result" where
  "start_pickle env app =
     (let c = Pickle (AConfig app)
      in if \<not> pi_Enabled c then Inr app
         else map_sum id (\<lambda>r. app\<lparr>APickle := Some r\<rparr>)
                (new_receiver env (''pickle://'' @ pi_Listen c) [PickleMaxMessageSize (word_of_int (pi_MaxMessageSize c))]))"

text \<open>The server is a field only after it listens. Inl None is the panic for a negative number of buckets.\<close>

definition start_carbonserver :: "('e, 'a, 'i) start_env \<Rightarrow> ('r, 't, 'i) App \<Rightarrow> ('e new_error option, ('r, 't, 'i) App) result" where
  "start_carbonserver env app =
     (let c = CarbonserverC (AConfig app)
      in if \<not> cs_Enabled c then Inr app
         else (let l = SetQueryTimeout (Duration_Value (cs_QueryTimeout c)) (SetReadTimeout (Duration_Value (cs_ReadTimeout c))
                     (SetScanFrequency (Duration_Value (cs_ScanFrequency c))
                     (SetMetricsAsCounters (cs_MetricsAsCounters c) (SetBuckets (cs_Buckets c) (SetMaxGlobs (cs_MaxGlobs c)
                       (SetWhisperData (wh_DataDir (WhisperC (AConfig app))) NewCarbonserverListener))))))
               in case Carbonserver_Listen (newIndex env) (walkEntries env) (serverErr env) l of
                    None \<Rightarrow> Inl None
                  | Some (Some e, _) \<Rightarrow> Inl (Some (NetError e))
                  | Some (None, l') \<Rightarrow> Inr (app\<lparr>ACarbonserver := Some l'\<rparr>)))"

definition start_carbonlink :: "('e, 'a, 'i) start_env \<Rightarrow> ('r, 't, 'i) App \<Rightarrow> ('e new_error, ('r, 't, 'i) App) result" where
  "start_carbonlink env app =
     (let c = Carbonlink (AConfig app)
      in if \<not> cl_Enabled c then Inr app
         else (case resolveAddr env ''tcp'' (cl_Listen c) of
                 Inl e \<Rightarrow> Inl (NetError e)
               | Inr a \<Rightarrow>
                   (case linkErr env a of
                      Some e \<Rightarrow> Inl (NetError e)
                    | None \<Rightarrow> Inr (app\<lparr>ACarbonLink := Some (link_SetQueryTimeout (Duration_Value (cl_QueryTimeout c))
                                 (link_SetReadTimeout (Duration_Value (cl_ReadTimeout c)) NewCarbonlinkListener))\<rparr>))))"

text \<open>On an error everything started so far is stopped. A negative input buffer panics when the channel is made.\<close>

definition fail_start :: "'e start_outcome \<Rightarrow> ('r, 't, 'i) App \<Rightarrow> 'e start_outcome \<times> ('r, 't, 'i) App" where
  "fail_start o1 app = (case stopAll app of None \<Rightarrow> (StartBlocked, app) | Some (app', _) \<Rightarrow> (o1, app'))"

definition App_Start :: "('e, 'a, 'i) start_env \<Rightarrow> (string \<Rightarrow> ('e, string) result) \<Rightarrow> ('r, 't, 'i) App \<Rightarrow> 'e start_outcome \<times> ('r, 't, 'i) App" where
  "App_Start env scheme app =
     (if ca_InputBuffer (CacheC (AConfig app)) < 0 then (StartPanic, app)
      else (let app1 = startPersister (app\<lparr>ACache := Some (new_cache (CacheC (AConfig app)))\<rparr>)
            in case start_udp env app1 of Inl e \<Rightarrow> fail_start (StartFailed e) app1
            | Inr app2 \<Rightarrow>
              (case start_tcp env app2 of Inl e \<Rightarrow> fail_start (StartFailed e) app2
            | Inr app3 \<Rightarrow>
              (case start_pickle env app3 of Inl e \<Rightarrow> fail_start (StartFailed e) app3
            | Inr app4 \<Rightarrow>
              (case start_carbonserver env app4 of
                 Inl None \<Rightarrow> (StartPanic, app4)
               | Inl (Some e) \<Rightarrow> fail_start (StartFailed e) app4
            | Inr app5 \<Rightarrow>
              (case start_carbonlink env app5 of Inl e \<Rightarrow> fail_start (StartFailed e) app5
            | Inr app6 \<Rightarrow> (Started, app6\<lparr>ACollector := Some (NewCollector scheme app6)\<rparr>)))))))"

text \<open>Reloading replaces the persister and the collector; the other components keep running with their old settings.\<close>

definition ReloadConfig ::
  "('r, 't, 'e) config_env \<Rightarrow> ('r, 't, 'i) App \<Rightarrow> 'e config_error option \<times> ('r, 't, 'i) App" where
  "ReloadConfig env app =
     (case configure env app of
        (Some e, app1) \<Rightarrow> (Some e, app1)
      | (None, app1) \<Rightarrow>
          (let app2 = startPersister (app1\<lparr>APersister := None\<rparr>)
           in (None, app2\<lparr>ACollector := Some (NewCollector (urlScheme env) (app2\<lparr>ACollector := None\<rparr>))\<rparr>)))"

section \<open>Graceful stop\<close>

text \<open>
  What \<open>GraceStop\<close> observes of the cache when its ticker fires, the cache's size and the length of its input: the flush is over at the first
  that is zero. The size is converted to an \<open>int\<close>.
\<close>

fun flush_loop :: "(uint32 \<times> nat) list \<Rightarrow> bool" where
  "flush_loop [] = False"
| "flush_loop ((sz, inputLen) # obs) = (if unat sz + inputLen = 0 then True else flush_loop obs)"

datatype 'e grace_outcome = GraceDone | GraceWaiting | GraceFatal 'e | GraceBlocked

definition grace_unthrottle :: "('r, 't, 'i) App \<Rightarrow> ('r, 't, 'i) App" where
  "grace_unthrottle app =
     (case APersister app of
        None \<Rightarrow> app
      | Some p \<Rightarrow> if maxUpdatesPerSecond p > 0 then app\<lparr>APersister := Some (SetMaxUpdatesPerSecond 0 p)\<rparr> else app)"

text \<open>With dumps enabled the result of \<open>GraceStopDump\<close> decides: an error ends the process.\<close>

definition GraceStop :: "'e dump_result \<Rightarrow> (uint32 \<times> nat) list \<Rightarrow> ('r, 't, 'i) App \<Rightarrow> 'e grace_outcome \<times> ('r, 't, 'i) App" where
  "GraceStop dump obs app =
     (let finish = (\<lambda>a. case stopAll a of None \<Rightarrow> (GraceBlocked, a) | Some (a', _) \<Rightarrow> (GraceDone, a'))
      in if du_Enabled (Dump (AConfig app))
         then (case dump_err dump of Some e \<Rightarrow> (GraceFatal e, app) | None \<Rightarrow> finish app)
         else (case stopListeners app of
                 None \<Rightarrow> (GraceBlocked, app)
               | Some (app1, _) \<Rightarrow>
                   if ACache app1 \<noteq> None \<and> APersister app1 \<noteq> None
                   then (if flush_loop obs then finish (grace_unthrottle app1) else (GraceWaiting, grace_unthrottle app1))
                   else finish app1))"

text \<open>
  \<open>Loop\<close> reads \<open>app.exit\<close> twice, under the lock for the test and without it for the wait; \<open>atTest\<close> and \<open>atWait\<close> are the application then.
  It returns once the channel it waits on is closed; a nil channel never is (False).
\<close>

definition App_Loop :: "('r, 't, 'i) App \<Rightarrow> ('r, 't, 'i) App \<Rightarrow> bool" where
  "App_Loop atTest atWait = (if exit_open atTest then exit_open atWait else True)"

end
