(* ===== verification/App_Props.thy ===== *)
theory App_Props
  imports App_Model
begin

text \<open>
  The life of the application: a configuration is taken over only when it is valid; a start that fails leaves nothing running, one that
  succeeds runs exactly what is enabled; everything is stopped in an order in which nobody feeds a component that is gone.
\<close>

section \<open>Stopping\<close>

definition all_stopped :: "('r, 't, 'i) App \<Rightarrow> bool" where
  "all_stopped app \<longleftrightarrow> ACache app = None \<and> AUDP app = None \<and> ATCP app = None \<and> APickle app = None \<and> ACarbonLink app = None
     \<and> APersister app = None \<and> ACarbonserver app = None \<and> ACollector app = None \<and> \<not> exit_open app"

definition running_comps :: "('r, 't, 'i) App \<Rightarrow> comp set" where
  "running_comps app = {c. case c of CTCP \<Rightarrow> ATCP app \<noteq> None | CPickle \<Rightarrow> APickle app \<noteq> None | CUDP \<Rightarrow> AUDP app \<noteq> None
     | CCarbonLink \<Rightarrow> ACarbonLink app \<noteq> None | CCarbonserver \<Rightarrow> ACarbonserver app \<noteq> None | CPersister \<Rightarrow> APersister app \<noteq> None
     | CCache \<Rightarrow> ACache app \<noteq> None | CCollector \<Rightarrow> ACollector app \<noteq> None | CExit \<Rightarrow> exit_open app}"

text \<open>The order of stopping: producers and readers first, then the consumer, then the cache.\<close>

definition stop_list :: "comp list" where
  "stop_list = [CTCP, CPickle, CUDP, CCarbonLink, CCarbonserver, CPersister, CCache, CCollector, CExit]"

lemma stop_field_filter: "stop_field c f = filter (\<lambda>_. f \<noteq> None) [c]"
  by (simp add: stop_field_def split: option.splits)

lemma stopListeners_Some:
  assumes "stopListeners app = Some (app1, s1)"
  shows "app1 = app\<lparr>ATCP := None, APickle := None, AUDP := None, ACarbonLink := None, ACarbonserver := None\<rparr>"
    and "s1 = filter (\<lambda>c. c \<in> running_comps app) [CTCP, CPickle, CUDP, CCarbonLink, CCarbonserver]"
proof -
  from assms show "app1 = app\<lparr>ATCP := None, APickle := None, AUDP := None, ACarbonLink := None, ACarbonserver := None\<rparr>"
    by (auto simp: stopListeners_def Let_def split: option.splits)
  from assms have "s1 = stop_field CTCP (ATCP app) @ stop_field CPickle (APickle app) @ stop_field CUDP (AUDP app)
            @ stop_field CCarbonLink (ACarbonLink app) @ stop_field CCarbonserver (ACarbonserver app)"
    by (auto simp: stopListeners_def Let_def split: option.splits)
  then show "s1 = filter (\<lambda>c. c \<in> running_comps app) [CTCP, CPickle, CUDP, CCarbonLink, CCarbonserver]"
    by (simp add: stop_field_filter running_comps_def)
qed

lemma stopAll_Some:
  assumes "stopAll app = Some (app', stopped)"
  shows "all_stopped app'" "AConfig app' = AConfig app" "stopped = filter (\<lambda>c. c \<in> running_comps app) stop_list"
proof -
  from assms obtain app1 s1 where l: "stopListeners app = Some (app1, s1)"
    and a: "app' = app1\<lparr>APersister := None, ACache := None, ACollector := None, exit_open := False\<rparr>"
    and s: "stopped = s1 @ stop_field CPersister (APersister app1) @ stop_field CCache (ACache app1)
                @ stop_field CCollector (ACollector app1) @ (if exit_open app1 then [CExit] else [])"
    by (auto simp: stopAll_def split: option.splits)
  note f = stopListeners_Some [OF l]
  show "all_stopped app'" "AConfig app' = AConfig app" using f(1) by (simp_all add: a all_stopped_def)
  show "stopped = filter (\<lambda>c. c \<in> running_comps app) stop_list"
    unfolding s f(2) using f(1) by (simp add: stop_field_filter running_comps_def stop_list_def)
qed

lemma all_stopped_running: "all_stopped app \<Longrightarrow> c \<notin> running_comps app"
  by (cases c) (simp_all add: all_stopped_def running_comps_def)

lemma stopAll_stopped: "all_stopped app \<Longrightarrow> stopAll app = Some (app, [])"
  by (simp add: stopAll_def stopListeners_def all_stopped_def stop_field_def Let_def)

lemma fail_start_stops: "fail_start (StartFailed e) app = (StartFailed e', app') \<Longrightarrow> e' = e \<and> all_stopped app' \<and> AConfig app' = AConfig app"
  by (auto simp: fail_start_def dest: stopAll_Some split: option.splits)

lemma fail_start_not_started: "fail_start (StartFailed e) app \<noteq> (Started, app')"
  by (simp add: fail_start_def split: option.splits prod.splits)

section \<open>Starting\<close>

lemma start_udp_Inr: "start_udp env app = Inr app' \<Longrightarrow> \<exists>r. app' = app\<lparr>AUDP := r\<rparr> \<and> (if ud_Enabled (Udp (AConfig app)) then r \<noteq> None else r = AUDP app)"
  by (cases "ud_Enabled (Udp (AConfig app))") (auto simp: start_udp_def Let_def map_sum_def split: sum.splits intro: exI [of _ "AUDP app"])

lemma start_tcp_Inr: "start_tcp env app = Inr app' \<Longrightarrow> \<exists>r. app' = app\<lparr>ATCP := r\<rparr> \<and> (if tc_Enabled (Tcp (AConfig app)) then r \<noteq> None else r = ATCP app)"
  by (cases "tc_Enabled (Tcp (AConfig app))") (auto simp: start_tcp_def Let_def map_sum_def split: sum.splits intro: exI [of _ "ATCP app"])

lemma start_pickle_Inr:
  "start_pickle env app = Inr app' \<Longrightarrow> \<exists>r. app' = app\<lparr>APickle := r\<rparr> \<and> (if pi_Enabled (Pickle (AConfig app)) then r \<noteq> None else r = APickle app)"
  by (cases "pi_Enabled (Pickle (AConfig app))") (auto simp: start_pickle_def Let_def map_sum_def split: sum.splits intro: exI [of _ "APickle app"])

lemma start_carbonserver_Inr:
  "start_carbonserver env app = Inr app' \<Longrightarrow>
   \<exists>r. app' = app\<lparr>ACarbonserver := r\<rparr> \<and> (if cs_Enabled (CarbonserverC (AConfig app)) then r \<noteq> None else r = ACarbonserver app)"
  by (cases "cs_Enabled (CarbonserverC (AConfig app))")
    (auto simp: start_carbonserver_def Let_def split: option.splits prod.splits intro: exI [of _ "ACarbonserver app"])

lemma start_carbonlink_Inr:
  "start_carbonlink env app = Inr app' \<Longrightarrow>
   \<exists>r. app' = app\<lparr>ACarbonLink := r\<rparr> \<and> (if cl_Enabled (Carbonlink (AConfig app)) then r \<noteq> None else r = ACarbonLink app)"
  by (cases "cl_Enabled (Carbonlink (AConfig app))")
    (auto simp: start_carbonlink_def Let_def split: option.splits sum.splits intro: exI [of _ "ACarbonLink app"])

lemma startPersister_eq:
  "\<exists>p. startPersister app = app\<lparr>APersister := p\<rparr> \<and> (if wh_Enabled (WhisperC (AConfig app)) then p \<noteq> None else p = APersister app)"
  by (cases "wh_Enabled (WhisperC (AConfig app))") (auto simp: startPersister_def Let_def intro: exI [of _ "APersister app"])

text \<open>The components that an application with this configuration runs.\<close>

definition enabled_comps :: "('r, 't) Config \<Rightarrow> comp set" where
  "enabled_comps cfg = {c. case c of CTCP \<Rightarrow> tc_Enabled (Tcp cfg) | CPickle \<Rightarrow> pi_Enabled (Pickle cfg) | CUDP \<Rightarrow> ud_Enabled (Udp cfg)
     | CCarbonLink \<Rightarrow> cl_Enabled (Carbonlink cfg) | CCarbonserver \<Rightarrow> cs_Enabled (CarbonserverC cfg) | CPersister \<Rightarrow> wh_Enabled (WhisperC cfg)
     | CCache \<Rightarrow> True | CCollector \<Rightarrow> True | CExit \<Rightarrow> True}"

lemma started_runs_enabled:
  assumes "App_Start env scheme app = (Started, app')" "running_comps app = {CExit}"
  shows "running_comps app' = enabled_comps (AConfig app) \<and> AConfig app' = AConfig app"
proof -
  let ?app0 = "app\<lparr>ACache := Some (new_cache (CacheC (AConfig app)))\<rparr>"
  have none: "ATCP app = None" "APickle app = None" "AUDP app = None" "ACarbonLink app = None" "APersister app = None" "ACarbonserver app = None" "exit_open app"
    using assms(2) unfolding running_comps_def set_eq_iff by (metis (mono_tags, lifting) comp.simps mem_Collect_eq singleton_iff)+
  obtain p where p: "startPersister ?app0 = ?app0\<lparr>APersister := p\<rparr>" "p \<noteq> None \<longleftrightarrow> wh_Enabled (WhisperC (AConfig app))"
    using startPersister_eq [of ?app0] none by (auto split: if_splits)
  from assms(1) obtain a2 a3 a4 a5 a6 where steps: "start_udp env (startPersister ?app0) = Inr a2" "start_tcp env a2 = Inr a3"
    "start_pickle env a3 = Inr a4" "start_carbonserver env a4 = Inr a5" "start_carbonlink env a5 = Inr a6"
    "app' = a6\<lparr>ACollector := Some (NewCollector scheme a6)\<rparr>"
    unfolding App_Start_def Let_def by (auto simp: fail_start_not_started split: if_splits sum.splits option.splits)
  obtain u where u: "a2 = (startPersister ?app0)\<lparr>AUDP := u\<rparr>" "u \<noteq> None \<longleftrightarrow> ud_Enabled (Udp (AConfig app))"
    using start_udp_Inr [OF steps(1)] none by (auto simp: p(1) split: if_splits)
  obtain t where t: "a3 = a2\<lparr>ATCP := t\<rparr>" "t \<noteq> None \<longleftrightarrow> tc_Enabled (Tcp (AConfig app))"
    using start_tcp_Inr [OF steps(2)] none by (auto simp: p(1) u(1) split: if_splits)
  obtain k where k: "a4 = a3\<lparr>APickle := k\<rparr>" "k \<noteq> None \<longleftrightarrow> pi_Enabled (Pickle (AConfig app))"
    using start_pickle_Inr [OF steps(3)] none by (auto simp: p(1) u(1) t(1) split: if_splits)
  obtain cs where cs: "a5 = a4\<lparr>ACarbonserver := cs\<rparr>" "cs \<noteq> None \<longleftrightarrow> cs_Enabled (CarbonserverC (AConfig app))"
    using start_carbonserver_Inr [OF steps(4)] none by (auto simp: p(1) u(1) t(1) k(1) split: if_splits)
  obtain cl where cl: "a6 = a5\<lparr>ACarbonLink := cl\<rparr>" "cl \<noteq> None \<longleftrightarrow> cl_Enabled (Carbonlink (AConfig app))"
    using start_carbonlink_Inr [OF steps(5)] none by (auto simp: p(1) u(1) t(1) k(1) cs(1) split: if_splits)
  note eqs = steps(6) cl(1) cs(1) k(1) t(1) u(1) p(1)
  have "c \<in> running_comps app' \<longleftrightarrow> c \<in> enabled_comps (AConfig app)" for c
    by (cases c) (use none(7) p(2) u(2) t(2) k(2) cs(2) cl(2) in \<open>simp_all add: running_comps_def enabled_comps_def eqs\<close>)
  then show ?thesis by (auto simp: eqs)
qed

lemma failed_start_stops:
  assumes "App_Start env scheme app = (StartFailed e, app')"
  shows "all_stopped app'"
  using assms unfolding App_Start_def Let_def
  by (auto dest: fail_start_stops split: if_splits sum.splits option.splits)

section \<open>The collector's queue\<close>

lemma take_take_append: "take n (take n xs @ ys) = take n (xs @ ys)"
  by (cases "length xs \<le> n") simp_all

definition stat_point :: "int64 \<Rightarrow> string \<Rightarrow> string \<times> sent \<Rightarrow> Points" where
  "stat_point t pre x = NowPoint t (pre @ ''.'' @ fst x @ ''.'' @ fst (snd x)) (snd (snd x))"

lemma sendCallback_take:
  "length (cdata c) \<le> 4096 \<Longrightarrow> cdata (sendCallback t m s c) = take 4096 (cdata c @ [stat_point t (graphPrefix c) (m, s)])"
  "graphPrefix (sendCallback t m s c) = graphPrefix c"
  by (simp_all add: sendCallback_def Let_def stat_point_def)

lemma fold_send_take:
  "length (cdata c) \<le> 4096 \<Longrightarrow>
   cdata (fold (sendCallback t m) ss c) = take 4096 (cdata c @ map (\<lambda>s. stat_point t (graphPrefix c) (m, s)) ss)
   \<and> graphPrefix (fold (sendCallback t m) ss c) = graphPrefix c"
proof (induction ss arbitrary: c)
  case (Cons s ss)
  note c = sendCallback_take [where c = c and t = t and m = m and s = s]
  have "length (cdata (sendCallback t m s c)) \<le> 4096" unfolding c(1) [OF Cons.prems] by simp
  from Cons.IH [OF this] show ?case unfolding c(2) c(1) [OF Cons.prems] take_take_append by simp
qed simp

lemma collect_take:
  "length (cdata c) \<le> 4096 \<Longrightarrow>
   cdata (fold (\<lambda>m c. fold (sendCallback t m) (stat m) c) ms c) =
     take 4096 (cdata c @ map (stat_point t (graphPrefix c)) (concat (map (\<lambda>m. map (Pair m) (stat m)) ms)))"
proof (induction ms arbitrary: c)
  case (Cons m ms)
  let ?c = "fold (sendCallback t m) (stat m) c"
  from fold_send_take [OF Cons.prems, of t m "stat m"]
  have c: "cdata ?c = take 4096 (cdata c @ map (stat_point t (graphPrefix c)) (map (Pair m) (stat m)))" "graphPrefix ?c = graphPrefix c"
    unfolding map_map comp_def by blast+
  have "length (cdata ?c) \<le> 4096" unfolding c(1) by simp
  from Cons.IH [OF this] show ?case unfolding c take_take_append fold_simps comp_def list.map concat.simps map_append append_assoc .
qed simp

text \<open>What the cache is sent by the collector is what was queued, in order; a stop loses at most the point that is held.\<close>

lemma collector_fifo:
  assumes "collector_run es c out = Some (c', out')" "length (cdata c) \<le> 4096"
  shows "\<exists>new lost. out' @ lost @ cdata c' = out @ cdata c @ new \<and> length lost \<le> 1 \<and> length (cdata c') \<le> 4096"
  using assms
proof (induction es c out rule: collector_run.induct)
  case (2 t stat es c out)
  obtain xs where "cdata (collect t stat c) = take 4096 (cdata c @ xs)" using collect_take [OF "2.prems"(2), of t stat "stats c"] by (auto simp: collect_def)
  then have c: "cdata (collect t stat c) = cdata c @ take (4096 - length (cdata c)) xs" "length (cdata (collect t stat c)) \<le> 4096"
    using "2.prems"(2) by simp_all
  from "2.prems"(1) have "collector_run es (collect t stat c) out = Some (c', out')" by simp
  from "2.IH" [OF this c(2)] c(1) show ?case by (metis append_assoc)
next
  case (3 es c out)
  then obtain p q where pq: "cdata c = p # q" "collector_run es (c\<lparr>cdata := q\<rparr>) (out @ [p]) = Some (c', out')" by (auto split: list.splits)
  from "3.IH" [OF pq] pq(1) "3.prems"(2) show ?case by fastforce
next
  case (4 es c out)
  then obtain p q where "cdata c = p # q" "c' = c\<lparr>cdata := q\<rparr>" "out' = out" by (auto split: list.splits)
  with "4.prems"(2) have "out' @ [p] @ cdata c' = out @ cdata c @ [] \<and> length [p] \<le> 1 \<and> length (cdata c') \<le> 4096" by simp
  then show ?case by blast
qed (auto intro!: exI [of _ "[]"])

section \<open>Properties\<close>


text \<open>Stopping everything stops each running component exactly once, in the fixed order receivers, readers, persister, cache, collector, and leaves
  nothing running; stopping again does nothing.\<close>

theorem stop_all_once:
  assumes "stopAll app = Some (app', stopped)"
  shows "stopped = filter (\<lambda>c. c \<in> running_comps app) [CTCP, CPickle, CUDP, CCarbonLink, CCarbonserver, CPersister, CCache, CCollector, CExit]
    \<and> running_comps app' = {} \<and> stopAll app' = Some (app', [])"
  using stopAll_Some [OF assms] all_stopped_running [of app'] stopAll_stopped [of app'] by (auto simp: stop_list_def)

text \<open>Reading a configuration is atomic: on any error the old one stays; one that is taken over has a known write strategy, a usable metric
  endpoint, and aggregation rules when the persister is enabled.\<close>

theorem configure_checked:
  assumes "configure env app = (err, app')"
  shows "(err \<noteq> None \<longrightarrow> app' = app)
    \<and> (err = None \<longrightarrow> ca_WriteStrategy (CacheC (AConfig app')) \<in> {''max'', ''sorted'', ''noop''}
        \<and> (cm_MetricEndpoint (Common (AConfig app')) = MetricEndpointLocal
            \<or> urlScheme env (cm_MetricEndpoint (Common (AConfig app'))) \<in> {Inr ''tcp'', Inr ''udp''})
        \<and> (wh_Enabled (WhisperC (AConfig app')) \<longrightarrow> wh_Aggregation (WhisperC (AConfig app')) \<noteq> None))"
  using assms load_config_ok [of env "ConfigFilename app"] by (auto simp: configure_def split: sum.splits)

text \<open>A round of statistics puts the points of all modules into the collector's queue in order, under \<open>prefix.module.metric\<close>, and drops exactly what does not
  fit into its 4096 places.\<close>

theorem collect_bounded:
  assumes "length (cdata c) \<le> 4096"
  shows "cdata (collect t stat c) = take 4096 (cdata c @
    map (\<lambda>(m, s). NowPoint t (graphPrefix c @ ''.'' @ m @ ''.'' @ fst s) (snd s)) (concat (map (\<lambda>m. map (Pair m) (stat m)) (stats c))))"
proof -
  have "stat_point t (graphPrefix c) = (\<lambda>(m, s). NowPoint t (graphPrefix c @ ''.'' @ m @ ''.'' @ fst s) (snd s))"
    by (simp add: fun_eq_iff stat_point_def)
  then show ?thesis using collect_take [OF assms, of t stat "stats c"] by (simp only: collect_def)
qed

section \<open>Witnesses\<close>

definition demo_cfg_env :: "(unit, unit, unit) config_env" where
  "demo_cfg_env = \<lparr>decodeFile = \<lambda>_ c. Inr c, hostname = None, readSchemas = \<lambda>_. Inr [], readAggregation = \<lambda>_. Inr NewWhisperAggregation, urlScheme = \<lambda>_. Inl ()\<rparr>"

definition demo_start_env :: "(unit, unit, unit) start_env" where
  "demo_start_env = \<lparr>parseUrl = \<lambda>_. Inl (), resolveAddr = \<lambda>_ _. Inr (), listenOn = \<lambda>_ _. None, newIndex = \<lambda>_ _. [], walkEntries = [],
     serverErr = None, linkErr = \<lambda>_. None\<rparr>"

lemma demo_running: "running_comps (App_New f) = {CExit}"
proof -
  have "c \<in> running_comps (App_New f) \<longleftrightarrow> c = CExit" for c by (cases c) (simp_all add: running_comps_def App_New_def)
  then show ?thesis by auto
qed


theorem stop_all_once_witness:
  "stopAll (App_New [] :: (unit, unit, unit) App) = Some ((App_New [])\<lparr>exit_open := False\<rparr>, [CExit])"
proof -
  obtain app' s where s: "stopAll (App_New [] :: (unit, unit, unit) App) = Some (app', s)"
    by (simp add: stopAll_def stopListeners_def App_New_def Let_def)
  moreover have "app' = (App_New [])\<lparr>exit_open := False\<rparr>" using s by (simp add: stopAll_def stopListeners_def App_New_def Let_def)
  ultimately show ?thesis using stop_all_once [OF s] by (simp add: demo_running)
qed

theorem configure_checked_witness:
  "\<exists>app' :: (unit, unit, unit) App. configure demo_cfg_env (App_New ''f'') = (None, app') \<and> wh_Aggregation (WhisperC (AConfig app')) \<noteq> None"
proof -
  obtain r and app' :: "(unit, unit, unit) App" where r: "configure demo_cfg_env (App_New ''f'') = (r, app')" by fastforce
  then have "r = None \<and> wh_Enabled (WhisperC (AConfig app'))"
    by (auto simp: configure_def load_config_def ParseConfig_def demo_cfg_env_def App_New_def NewConfig_def configure_whisper_def check_endpoint_def
        MetricEndpointLocal_def Let_def)
  with configure_checked [OF r] r show ?thesis by auto
qed

theorem collect_bounded_witness:
  "cdata (collect 7 (\<lambda>_. [(''size'', 0)]) \<lparr>graphPrefix = ''g'', metricInterval = 1, stats = [''cache''], sender = LocalCache, cdata = []\<rparr>)
   = [NowPoint 7 ''g.cache.size'' 0]"
  using collect_bounded [of "\<lparr>graphPrefix = ''g'', metricInterval = 1, stats = [''cache''], sender = LocalCache, cdata = []\<rparr>" 7 "\<lambda>_. [(''size'', 0)]"]
  by simp

section \<open>The sender to a remote endpoint\<close>

text \<open>No connection is left open when the loop for a chunk is over.\<close>

definition send_balanced :: "send_state \<Rightarrow> bool" where
  "send_balanced s \<longleftrightarrow> opened s = closed_conns s + (if conn s then 1 else 0)"

lemmas conn_defs = conn_close_def conn_dial_def conn_write_def

lemma send_loop_balanced:
  "send_loop c es s = (r, s') \<Longrightarrow> send_balanced s \<Longrightarrow> send_balanced s' \<and> (r \<noteq> None \<longrightarrow> \<not> conn s')"
  by (induction c es s rule: send_loop.induct) (auto simp: send_balanced_def conn_defs split: if_splits)

lemma send_loop_writes:
  "send_loop c es s = (Some b, s') \<Longrightarrow> SendExit \<notin> set es \<Longrightarrow> \<exists>ps. delivered s' = delivered s @ ps @ [c] \<and> (\<forall>p \<in> set ps. prefix p c)"
proof (induction c es s rule: send_loop.induct)
  case (5 chunk n es s)
  then obtain ps where "delivered s' = delivered (conn_write (take n chunk) (conn_dial (conn_close s))) @ ps @ [chunk]" "\<forall>p \<in> set ps. prefix p chunk"
    by auto
  then show ?case by (intro exI [of _ "take n chunk # ps"]) (auto simp: conn_defs take_is_prefix split: if_splits)
qed (auto simp: conn_defs split: if_splits)

lemma send_chunks_writes:
  assumes "send_chunks cs ess s = (True, s')" "\<forall>es \<in> set ess. SendExit \<notin> set es" "send_balanced s" "\<not> conn s"
  shows "\<exists>pss. list_all2 (\<lambda>ps c. \<forall>p \<in> set ps. prefix p c) pss cs \<and> delivered s' = delivered s @ concat (map2 (\<lambda>ps c. ps @ [c]) pss cs)
     \<and> opened s' = closed_conns s' \<and> \<not> conn s'"
  using assms
proof (induction cs ess s rule: send_chunks.induct)
  case (3 c cs es ess s)
  then obtain b s1 where l: "send_loop c es s = (Some b, s1)" and r: "send_chunks cs ess s1 = (True, s')"
    by (auto split: prod.splits option.splits)
  from send_loop_writes [OF l] 3(3) obtain ps where ps: "delivered s1 = delivered s @ ps @ [c]" "\<forall>p \<in> set ps. prefix p c" by auto
  have b: "send_balanced s1" "\<not> conn s1" using send_loop_balanced [OF l 3(4)] by auto
  obtain pss where "list_all2 (\<lambda>ps c. \<forall>p \<in> set ps. prefix p c) pss cs"
      "delivered s' = delivered s1 @ concat (map2 (\<lambda>ps c. ps @ [c]) pss cs)" "opened s' = closed_conns s'" "\<not> conn s'"
    using 3(1) [OF l [symmetric] refl r _ b] 3(3) by auto
  then show ?case using ps by (intro exI [of _ "ps # pss"]) simp
qed (auto simp: send_balanced_def)



section \<open>Deviations\<close>

text \<open>
  The strategy that the configuration calls \<open>sorted\<close> is not known to the cache, which keeps \<open>max\<close>; and \<open>Loop\<close> can wait forever on the exit
  channel that a stop has set to nil.
\<close>

lemma sorted_strategy_ignored: "ca_WriteStrategy conf = ''sorted'' \<Longrightarrow> writeStrategy (new_cache conf) = MaximumLength"
  by (simp add: new_cache_def SetWriteStrategy_def SetInputCapacity_def SetMaxSize_def Cache_New_def Cache_In_def Cache_Out_def Let_def)

lemma loop_misses_exit: "exit_open app \<Longrightarrow> App_Stop app = Some (app', stopped) \<Longrightarrow> \<not> App_Loop app app'"
  using stopAll_Some(1) [of app app' stopped] by (simp add: App_Loop_def App_Stop_def all_stopped_def)

text \<open>
  The interval of the collector is not checked: a configuration with the text \<open>0s\<close> for it, which is a valid duration, passes all checks, and then the goroutine of the
  collector that it starts panics.
\<close>

definition zero_interval_env :: "(unit, unit, unit) config_env" where
  "zero_interval_env = demo_cfg_env\<lparr>decodeFile := (\<lambda>_ c. Inr (c\<lparr>Common := (Common c)\<lparr>cm_MetricInterval := fst (UnmarshalText (cm_MetricInterval (Common c)) ''0s'')\<rparr>\<rparr>))\<rparr>"

lemma zero_duration: "UnmarshalText d ''0s'' = (\<lparr>time_Duration = 0\<rparr>, None)"
proof -
  have z: "''0s'' = dec_digits 0 @ ''s''" by (simp add: dec_digits.simps digit_chars)
  have "ParseDuration ''0s'' = Inr 0"
    unfolding z using ParseDuration_sum [of "[(0, ''s'')]"] by (simp add: part_text_def part_value_def unitMap_texts)
  then show ?thesis by (simp add: UnmarshalText_def)
qed

lemma zero_interval_panics:
  "\<exists>app' :: (unit, unit, unit) App. configure zero_interval_env (App_New ''f'') = (None, app')
     \<and> collector_goroutines es (NewCollector scheme app') = Inl ()"
  by (simp add: configure_def load_config_def ParseConfig_def zero_interval_env_def demo_cfg_env_def App_New_def NewConfig_def configure_whisper_def check_endpoint_def
      MetricEndpointLocal_def Let_def zero_duration collector_goroutines_def NewCollector_def Duration_Value_def)

end
