(* ===== verification/Logging.thy ===== *)
theory Logging
  imports Whisper_Model "HOL-Library.AList" "HOL-Library.Char_ord" "HOL-Library.List_Lexorder"
begin

text \<open>
  Logging: the text of a log line, \<open>src/logging/formatter.go\<close>, and the log file with its rotation, \<open>src/logging/logger.go\<close>.

  The package logrus is outside: the name of a level and the parser of levels are arguments, and so is how \<open>fmt\<close> prints a value of any type. The
  file logger is a step relation: opening a file, the HUP signal, and the events and the end of the goroutines that watch the file.
\<close>

section \<open>Log lines\<close>

text \<open>A map of fields is an association list with distinct keys, in the order in which \<open>range\<close> happens to visit it.\<close>

type_synonym 'v fields = "(string \<times> 'v) list"

definition prefix_field :: "string \<Rightarrow> 'v fields \<Rightarrow> 'v fields" where
  "prefix_field k data = (case map_of data k of None \<Rightarrow> data | Some v \<Rightarrow> AList.update (''fields.'' @ k) v data)"

definition prefixFieldClashes :: "'v fields \<Rightarrow> 'v fields" where
  "prefixFieldClashes data = prefix_field ''level'' (prefix_field ''msg'' (prefix_field ''time'' data))"

record civil_time =
  year :: nat
  month :: nat
  day :: nat
  hour :: nat
  minute :: nat
  sec :: nat

record ('l, 'v) Entry =
  Level :: 'l
  Time :: civil_time
  Message :: string
  Fields :: "'v fields"

definition pad_dec :: "nat \<Rightarrow> nat \<Rightarrow> string" where
  "pad_dec w n = replicate (w - length (dec_digits n)) CHR ''0'' @ dec_digits n"

definition format_time :: "civil_time \<Rightarrow> string" where
  "format_time t = pad_dec 4 (year t) @ ''-'' @ pad_dec 2 (month t) @ ''-'' @ pad_dec 2 (day t) @ '' ''
     @ pad_dec 2 (hour t) @ '':'' @ pad_dec 2 (minute t) @ '':'' @ pad_dec 2 (sec t)"

definition to_upper :: "char \<Rightarrow> char" where
  "to_upper c = (if CHR ''a'' \<le> c \<and> c \<le> CHR ''z'' then char_of (of_char c - (32 :: nat)) else c)"

text \<open>The fields in the order of their keys; a missing value would be printed as nil.\<close>

fun format_fields :: "('v option \<Rightarrow> string) \<Rightarrow> 'v fields \<Rightarrow> string list \<Rightarrow> string" where
  "format_fields goSyntax data [] = []"
| "format_fields goSyntax data [k] = k @ ''='' @ goSyntax (map_of data k)"
| "format_fields goSyntax data (k # ks) = k @ ''='' @ goSyntax (map_of data k) @ '', '' @ format_fields goSyntax data ks"

text \<open>The keys are taken before the clashing fields are copied. None is the panic for a level without a name.\<close>

definition Format :: "('l \<Rightarrow> string) \<Rightarrow> ('v option \<Rightarrow> string) \<Rightarrow> ('l, 'v) Entry \<Rightarrow> (bytes \<times> ('l, 'v) Entry) option" where
  "Format levelString goSyntax entry =
     (let keys = sort (map fst (Fields entry));
          data = prefixFieldClashes (Fields entry);
          lvl = map to_upper (levelString (Level entry))
      in if lvl = [] then None
         else Some (''['' @ format_time (Time entry) @ ''] '' @ [hd lvl] @ '' '' @ Message entry
                    @ (if keys \<noteq> [] then '' {'' @ format_fields goSyntax data keys @ ''}'' else []) @ [CHR 0x0A],
                    entry\<lparr>Fields := data\<rparr>))"

definition needsQuoting :: "string \<Rightarrow> bool" where
  "needsQuoting text \<longleftrightarrow>
     (\<forall>ch \<in> set text. (CHR ''a'' \<le> ch \<and> ch \<le> CHR ''z'') \<or> (CHR ''A'' \<le> ch \<and> ch \<le> CHR ''Z'') \<or> (CHR ''0'' \<le> ch \<and> ch < CHR ''9'')
        \<or> ch = CHR ''-'' \<or> ch = CHR ''.'')"

datatype 'v log_value = StringValue string | ErrorValue string | OtherValue 'v

definition appendKeyValue :: "(string \<Rightarrow> string) \<Rightarrow> ('v \<Rightarrow> string) \<Rightarrow> bytes \<Rightarrow> string \<Rightarrow> 'v log_value \<Rightarrow> bytes" where
  "appendKeyValue quote showValue b key v =
     b @ key @ ''='' @ (case v of StringValue s \<Rightarrow> if needsQuoting s then s else quote s
                        | ErrorValue s \<Rightarrow> if needsQuoting s then s else quote s
                        | OtherValue x \<Rightarrow> showValue x) @ '' ''"

section \<open>The file logger\<close>

record FileLogger =
  lg_filename :: string
  lg_fd :: "nat option"
  lg_watcherDone :: "nat option"

definition NewFileLogger :: FileLogger where
  "NewFileLogger = \<lparr>lg_filename = [], lg_fd = None, lg_watcherDone = None\<rparr>"

text \<open>
  What the logger acts on: the output of logrus and its level, the descriptors that are open, the channels that are closed, the goroutines that watch
  a file (with its name and the channel that ends them), and the number of watchers that no goroutine closes.
\<close>

datatype log_out = Stderr | ToFd nat | ToBuffer

record 'l log_world =
  std :: FileLogger
  log_output :: log_out
  log_level :: 'l
  open_fds :: "nat list"
  next_fd :: nat
  next_quit :: nat
  closed_quits :: "nat list"
  watchers :: "(string \<times> nat) list"
  lost_watchers :: nat

definition out_of :: "nat option \<Rightarrow> log_out" where
  "out_of fd = (case fd of None \<Rightarrow> Stderr | Some f \<Rightarrow> ToFd f)"

definition log_init :: "'l \<Rightarrow> 'l log_world" where
  "log_init l = \<lparr>std = NewFileLogger, log_output = Stderr, log_level = l, open_fds = [], next_fd = 0, next_quit = 0, closed_quits = [], watchers = [],
     lost_watchers = 0\<rparr>"

text \<open>The new descriptor replaces the old one, which is closed after the output is switched.\<close>

definition swap_fd :: "nat option \<Rightarrow> 'l log_world \<Rightarrow> 'l log_world" where
  "swap_fd newFd w =
     w\<lparr>std := (std w)\<lparr>lg_fd := newFd\<rparr>, log_output := out_of newFd,
       open_fds := (case lg_fd (std w) of None \<Rightarrow> open_fds w | Some old \<Rightarrow> remove1 old (open_fds w))\<rparr>"

definition Reopen :: "'e option \<Rightarrow> 'l log_world \<Rightarrow> 'e option \<times> 'l log_world" where
  "Reopen openErr w =
     (if lg_filename (std w) \<noteq> []
      then (case openErr of
              Some e \<Rightarrow> (Some e, w)
            | None \<Rightarrow> (None, swap_fd (Some (next_fd w)) (w\<lparr>open_fds := next_fd w # open_fds w, next_fd := Suc (next_fd w)\<rparr>)))
      else (None, swap_fd None w))"

text \<open>\<open>watcherErr\<close>: whether \<open>NewWatcher\<close> failed. A failing subscription is only logged.\<close>

definition fsWatch :: "bool \<Rightarrow> string \<Rightarrow> nat \<Rightarrow> 'l log_world \<Rightarrow> 'l log_world" where
  "fsWatch watcherErr filename quit w =
     (if watcherErr then w
      else if filename = [] then w\<lparr>lost_watchers := Suc (lost_watchers w)\<rparr>
      else w\<lparr>watchers := (filename, quit) # watchers w\<rparr>)"

definition Open :: "string \<Rightarrow> 'e option \<Rightarrow> bool \<Rightarrow> 'l log_world \<Rightarrow> 'e option \<times> 'l log_world" where
  "Open filename openErr watcherErr w =
     (let (reopenErr, w1) = Reopen openErr (w\<lparr>std := (std w)\<lparr>lg_filename := filename\<rparr>\<rparr>);
          w2 = (case lg_watcherDone (std w1) of None \<Rightarrow> w1 | Some q \<Rightarrow> w1\<lparr>closed_quits := q # closed_quits w1\<rparr>);
          q = next_quit w2;
          w3 = w2\<lparr>std := (std w2)\<lparr>lg_watcherDone := Some q\<rparr>, next_quit := Suc q\<rparr>
      in (reopenErr, fsWatch watcherErr filename q w3))"

definition SetFile :: "string \<Rightarrow> 'e option \<Rightarrow> bool \<Rightarrow> 'l log_world \<Rightarrow> 'e option \<times> 'l log_world" where
  "SetFile = Open"

definition Filename :: "'l log_world \<Rightarrow> string" where
  "Filename w = lg_filename (std w)"

definition SetLevel :: "(string \<Rightarrow> ('e, 'l) result) \<Rightarrow> string \<Rightarrow> 'l log_world \<Rightarrow> 'e option \<times> 'l log_world" where
  "SetLevel parseLevel lvl w = (case parseLevel lvl of Inl e \<Rightarrow> (Some e, w) | Inr l \<Rightarrow> (None, w\<lparr>log_level := l\<rparr>))"

text \<open>The goroutine of \<open>init\<close> reopens on HUP; a watching goroutine reopens on an event, until its channel is closed.\<close>

inductive log_step :: "'l log_world \<Rightarrow> 'l log_world \<Rightarrow> bool" where
  step_open: "log_step w (snd (SetFile filename (openErr :: string option) watcherErr w))"
| step_hup: "log_step w (snd (Reopen (openErr :: string option) w))"
| step_event: "(f, q) \<in> set (watchers w) \<Longrightarrow> log_step w (snd (Reopen (openErr :: string option) w))"
| step_quit: "(f, q) \<in> set (watchers w) \<Longrightarrow> q \<in> set (closed_quits w) \<Longrightarrow> log_step w (w\<lparr>watchers := remove1 (f, q) (watchers w)\<rparr>)"
| step_level: "log_step w (snd (SetLevel (parseLevel :: string \<Rightarrow> (string, 'l) result) lvl w))"

section \<open>Preparing the file\<close>

datatype fs_call = MkdirAll string | OpenCreate string | ChmodFile string | ChownFile string int int

datatype 'e prepare_error = FsError 'e | BadId string

text \<open>The calls that are made, in order, up to the first that fails.\<close>

fun run_calls :: "(fs_call \<Rightarrow> 'e option) \<Rightarrow> fs_call list \<Rightarrow> fs_call list \<times> 'e option" where
  "run_calls fs [] = ([], None)"
| "run_calls fs (c # cs) =
     (case fs c of Some e \<Rightarrow> ([c], Some e) | None \<Rightarrow> (case run_calls fs cs of (done, r) \<Rightarrow> (c # done, r)))"

text \<open>The owner is given by the texts of its ids.\<close>

definition chown_call :: "string \<Rightarrow> string \<times> string \<Rightarrow> ('e prepare_error, fs_call) result" where
  "chown_call filename owner =
     (case parse_int (fst owner) of
        None \<Rightarrow> Inl (BadId (fst owner))
      | Some uid \<Rightarrow> (case parse_int (snd owner) of None \<Rightarrow> Inl (BadId (snd owner)) | Some gid \<Rightarrow> Inr (ChownFile filename uid gid)))"

definition PrepareFile ::
  "(fs_call \<Rightarrow> 'e option) \<Rightarrow> string \<Rightarrow> (string \<times> string) option \<Rightarrow> fs_call list \<times> 'e prepare_error option" where
  "PrepareFile fs filename owner =
     (if filename = [] then ([], None)
      else (case run_calls fs [MkdirAll (Dir filename), OpenCreate filename, ChmodFile filename] of
              (done, Some e) \<Rightarrow> (done, Some (FsError e))
            | (done, None) \<Rightarrow>
                (case owner of
                   None \<Rightarrow> (done, None)
                 | Some ow \<Rightarrow>
                     (case chown_call filename ow of
                        Inl e \<Rightarrow> (done, Some e)
                      | Inr c \<Rightarrow> (done @ [c], map_option FsError (fs c))))))"

section \<open>Capturing the output in tests\<close>

definition Test :: "('l log_world \<Rightarrow> 'l log_world) \<Rightarrow> 'l log_world \<Rightarrow> 'l log_world" where
  "Test callable w = (let w1 = callable (w\<lparr>log_output := ToBuffer\<rparr>) in w1\<lparr>log_output := out_of (lg_fd (std w1))\<rparr>)"

definition TestWithLevel ::
  "(string \<Rightarrow> ('e, 'l) result) \<Rightarrow> string \<Rightarrow> ('l log_world \<Rightarrow> 'l log_world) \<Rightarrow> 'l log_world \<Rightarrow> 'l log_world" where
  "TestWithLevel parseLevel lvl callable w =
     (let originalLevel = log_level w in (Test callable (snd (SetLevel parseLevel lvl w)))\<lparr>log_level := originalLevel\<rparr>)"

section \<open>The text of a line\<close>

lemma map_of_prefix_field:
  "map_of (prefix_field k d) = (case map_of d k of None \<Rightarrow> map_of d | Some v \<Rightarrow> (map_of d)(''fields.'' @ k \<mapsto> v))"
  by (auto simp: prefix_field_def update_conv' split: option.splits)

lemma prefix_field_cong: "map_of d = map_of d' \<Longrightarrow> map_of (prefix_field k d) = map_of (prefix_field k d')"
  by (simp add: map_of_prefix_field split: option.splits)

lemma prefix_clashes_cong: "map_of d = map_of d' \<Longrightarrow> map_of (prefixFieldClashes d) = map_of (prefixFieldClashes d')"
  unfolding prefixFieldClashes_def by (intro prefix_field_cong)

lemma prefix_clashes_other:
  "k \<notin> {''fields.time'', ''fields.msg'', ''fields.level''} \<Longrightarrow> map_of (prefixFieldClashes d) k = map_of d k"
  by (auto simp: prefixFieldClashes_def map_of_prefix_field split: option.splits)

lemma format_fields_cong: "(\<And>k. k \<in> set ks \<Longrightarrow> map_of d k = map_of d' k) \<Longrightarrow> format_fields g d ks = format_fields g d' ks"
  by (induction g d ks rule: format_fields.induct) auto

lemma sort_keys_unique:
  assumes "distinct (map fst d)" "distinct (map fst d')" "map_of d = map_of d'"
  shows "sort (map fst d) = sort (map fst (d' :: (string \<times> 'v) list))"
proof (rule sorted_distinct_set_unique)
  show "set (sort (map fst d)) = set (sort (map fst d'))" using assms(3) by (simp flip: dom_map_of_conv_image_fst)
qed (use assms in auto)

text \<open>The text of a line does not depend on the order in which the map of the fields is visited.\<close>

lemma format_deterministic:
  assumes "distinct (map fst d)" "distinct (map fst d')" "map_of d = map_of d'"
  shows "map_option fst (Format ls g (e\<lparr>Fields := d\<rparr>)) = map_option fst (Format ls g (e\<lparr>Fields := d'\<rparr>))"
  using sort_keys_unique [OF assms] format_fields_cong [of _ "prefixFieldClashes d" "prefixFieldClashes d'"] prefix_clashes_cong [OF assms(3)]
  by (simp add: Format_def Let_def)

text \<open>The copies of clashing fields are not printed; a field of the user with the name of a copy is printed with the value of the other.\<close>

lemma copies_not_printed:
  assumes "set (map fst (Fields e)) \<inter> {''fields.time'', ''fields.msg'', ''fields.level''} = {}"
  shows "format_fields g (prefixFieldClashes (Fields e)) (sort (map fst (Fields e))) = format_fields g (Fields e) (sort (map fst (Fields e)))"
  proof (rule format_fields_cong, rule prefix_clashes_other)
  fix k assume "k \<in> set (sort (map fst (Fields e)))"
  then have "k \<in> set (map fst (Fields e))" by simp
  with assms show "k \<notin> {''fields.time'', ''fields.msg'', ''fields.level''}" by blast
qed

lemma clash_replaces:
  "format_fields g (prefixFieldClashes [(''time'', a), (''fields.time'', b)]) (sort [''time'', ''fields.time''])
     = ''fields.time='' @ g (Some a) @ '', time='' @ g (Some a)"
  by (simp add: prefixFieldClashes_def prefix_field_def)

text \<open>Plain words are the ones for which \<open>needsQuoting\<close> holds, and a nine is not plain.\<close>

lemma quoting_inverted: "needsQuoting ''abc''" "\<not> needsQuoting ''a b''" "\<not> needsQuoting ''9''"
  by (simp_all add: needsQuoting_def)

section \<open>Descriptors and watchers\<close>

definition log_inv :: "'l log_world \<Rightarrow> bool" where
  "log_inv w \<longleftrightarrow>
     log_output w = out_of (lg_fd (std w))
     \<and> open_fds w = (case lg_fd (std w) of None \<Rightarrow> [] | Some f \<Rightarrow> [f])
     \<and> (\<forall>f \<in> set (open_fds w). f < next_fd w)
     \<and> (\<forall>q \<in> set (closed_quits w). q < next_quit w \<and> lg_watcherDone (std w) \<noteq> Some q)
     \<and> (\<forall>q. lg_watcherDone (std w) = Some q \<longrightarrow> q < next_quit w)
     \<and> distinct (closed_quits w) \<and> distinct (map snd (watchers w))
     \<and> (\<forall>fq \<in> set (watchers w). snd fq < next_quit w \<and> (snd fq \<in> set (closed_quits w) \<or> lg_watcherDone (std w) = Some (snd fq)))"

lemma log_inv_reopen: "log_inv w \<Longrightarrow> log_inv (snd (Reopen openErr w))"
  by (auto simp: log_inv_def Reopen_def swap_fd_def out_of_def split: option.splits)

lemma log_inv_name: "log_inv (w\<lparr>std := (std w)\<lparr>lg_filename := f\<rparr>\<rparr>) = log_inv w"
  by (simp add: log_inv_def)

lemma log_inv_quit:
  assumes "log_inv w" "(f, q) \<in> set (watchers w)" "q \<in> set (closed_quits w)"
  shows "log_inv (w\<lparr>watchers := remove1 (f, q) (watchers w)\<rparr>)"
proof -
  have "distinct (map snd (remove1 x xs))" if "distinct (map snd xs)" for x :: "string \<times> nat" and xs
    using that by (induction xs) (fastforce dest: subsetD [OF set_remove1_subset])+
  then show ?thesis using assms by (auto simp: log_inv_def dest: set_remove1_subset [THEN subsetD])
qed

lemma log_inv_watch:
  assumes "log_inv w1"
  defines "w2 \<equiv> (case lg_watcherDone (std w1) of None \<Rightarrow> w1 | Some q \<Rightarrow> w1\<lparr>closed_quits := q # closed_quits w1\<rparr>)"
  shows "log_inv (fsWatch watcherErr filename (next_quit w2)
    (w2\<lparr>std := (std w2)\<lparr>lg_watcherDone := Some (next_quit w2)\<rparr>, next_quit := Suc (next_quit w2)\<rparr>))"
  using assms(1) unfolding w2_def
  by (cases "lg_watcherDone (std w1)") (fastforce simp: log_inv_def fsWatch_def split: option.splits)+

lemma log_inv_open:
  assumes "log_inv w"
  shows "log_inv (snd (SetFile filename openErr watcherErr w))"
proof -
  have "log_inv (snd (Reopen openErr (w\<lparr>std := (std w)\<lparr>lg_filename := filename\<rparr>\<rparr>)))"
    by (rule log_inv_reopen) (simp add: log_inv_name assms)
  from log_inv_watch [OF this, of watcherErr filename] show ?thesis
    by (simp add: SetFile_def Open_def Let_def case_prod_beta)
qed

lemma log_inv_level: "log_inv w \<Longrightarrow> log_inv (snd (SetLevel p lvl w))"
  by (simp add: SetLevel_def log_inv_def split: sum.splits)

interpretation logs: invariant_system "\<lambda>w. \<exists>l. w = log_init l" log_step log_inv
proof
  show "log_inv s" if "\<exists>l. s = log_init l" for s :: "'a log_world"
    using that by (auto simp: log_init_def NewFileLogger_def log_inv_def out_of_def)
  show "log_inv t" if "log_inv s" "log_step s t" for s t :: "'a log_world"
    using that(2,1) by cases (auto intro: log_inv_reopen log_inv_open log_inv_quit log_inv_level)
qed

text \<open>
  At any time the log goes to the descriptor of the logger or to the standard error, no other descriptor is open, no channel was closed twice, and at
  most one goroutine watches a file without having been told to end.
\<close>

lemma log_no_leak:
  assumes "reachable (\<lambda>w. \<exists>l. w = log_init l) log_step w"
  shows "log_output w = out_of (lg_fd (std w)) \<and> open_fds w = (case lg_fd (std w) of None \<Rightarrow> [] | Some f \<Rightarrow> [f])
    \<and> distinct (closed_quits w) \<and> length (filter (\<lambda>fq. snd fq \<notin> set (closed_quits w)) (watchers w)) \<le> 1"
proof -
  from logs.inv_reachable [OF assms] have inv: "log_inv w" .
  let ?live = "filter (\<lambda>fq. snd fq \<notin> set (closed_quits w)) (watchers w)"
  have "distinct (map snd ?live)" using inv by (auto simp: log_inv_def distinct_map inj_on_def)
  then have "length ?live = card (set (map snd ?live))" using distinct_card [of "map snd ?live"] by simp
  also have "\<dots> \<le> card (set_option (lg_watcherDone (std w)))"
    by (rule card_mono) (use inv in \<open>auto simp: log_inv_def\<close>)
  also have "\<dots> \<le> 1" by (cases "lg_watcherDone (std w)") auto
  finally show ?thesis using inv by (simp add: log_inv_def)
qed

text \<open>A failed open leaves the output where it was, under the new name; an empty name is the standard error and loses a watcher.\<close>

lemma open_failed: "f \<noteq> [] \<Longrightarrow> log_output (snd (SetFile f (Some e) we w)) = log_output w \<and> Filename (snd (SetFile f (Some e) we w)) = f"
  by (simp add: SetFile_def Open_def Reopen_def fsWatch_def Filename_def Let_def split: option.splits)

lemma open_empty_name:
  "log_output (snd (SetFile [] oe False w)) = Stderr \<and> watchers (snd (SetFile [] oe False w)) = watchers w
    \<and> lost_watchers (snd (SetFile [] oe False w)) = Suc (lost_watchers w)"
  by (simp add: SetFile_def Open_def Reopen_def swap_fd_def out_of_def fsWatch_def Let_def split: option.splits)

lemma open_succeeds:
  "f \<noteq> [] \<Longrightarrow> fst (SetFile f (None :: 'e option) we w) = None \<and> log_output (snd (SetFile f (None :: 'e option) we w)) = ToFd (next_fd w)"
  by (simp add: SetFile_def Open_def Reopen_def swap_fd_def out_of_def fsWatch_def Let_def split: option.splits)

section \<open>Preparing, levels and tests\<close>

lemma prepare_all_or_error:
  assumes "f \<noteq> []"
  shows "snd (PrepareFile fs f (Some (u, g))) = None \<longleftrightarrow>
    (\<exists>uid gid. parse_int u = Some uid \<and> parse_int g = Some gid
       \<and> (\<forall>c \<in> {MkdirAll (Dir f), OpenCreate f, ChmodFile f, ChownFile f uid gid}. fs c = None))"
  using assms by (auto simp: PrepareFile_def chown_call_def split: option.splits)

lemma test_restores: "log_level (TestWithLevel p lvl f w) = log_level w"
  by (simp add: TestWithLevel_def)

lemma test_output: "log_inv w \<Longrightarrow> (\<And>v. lg_fd (std (f v)) = lg_fd (std v)) \<Longrightarrow> log_output (Test f w) = log_output w"
  by (simp add: Test_def log_inv_def)

end
