(* ===== verification/Main_Program.thy ===== *)
theory Main_Program
  imports App_Props Logging
begin

text \<open>
  The main program, \<open>src/carbon-agent.go\<close>: the flags, the order of the steps from the configuration to the running application, and the signals.
  The operating system is the record \<open>main_env\<close>; what the program asks of it is a list of actions.
\<close>

section \<open>Flags, environment and outcome\<close>

definition Version :: string where
  "Version = ''0.8.1''"

record flags =
  fl_config :: string
  fl_printDefault :: bool
  fl_checkConfig :: bool
  fl_version :: bool
  fl_daemon :: bool
  fl_pidfile :: string

datatype 'e main_error = MConfig "'e config_error" | MPrint 'e | MUser 'e | MLevel 'e | MPrepare "'e prepare_error" | MLogFile 'e | MBadId string | MPprof 'e
  | MStart "'e new_error"

datatype main_action = PrintText string | FsCall fs_call | OpenLog string | RebornAs string "(uint32 \<times> uint32) option" | MaxProcs int | ServePprof string | StartApp

datatype 'e main_outcome = MainReturned | MainFatal "'e main_error" | MainPanic | MainBlocked | MainLoop

text \<open>
  A user is the pair of the texts of its ids. \<open>reborn\<close> is what becoming a daemon gives: an error, or whether the caller is the parent (it gets the child).
\<close>

record ('r, 't, 'e, 'a, 'i, 'l) main_env =
  cfgEnv :: "('r, 't, 'e) config_env"
  encodeConfig :: "('r, 't) Config \<Rightarrow> ('e, string) result"
  lookupUser :: "string \<Rightarrow> ('e, string \<times> string) result"
  parseLevel :: "string \<Rightarrow> ('e, 'l) result"
  fsResult :: "fs_call \<Rightarrow> 'e option"
  openErr :: "'e option"
  watcherErr :: bool
  reborn :: "('e, bool) result"
  pprofListen :: "'a \<Rightarrow> 'e option"
  startEnv :: "('e, 'a, 'i) start_env"

record ('r, 't, 'i, 'l) main_state =
  mapp :: "('r, 't, 'i) App"
  mlog :: "'l log_world"
  mhttp :: bool
  macts :: "main_action list"

section \<open>The steps\<close>

definition PrintConfig :: "('c \<Rightarrow> ('e, string) result) \<Rightarrow> 'c \<Rightarrow> ('e, string) result" where
  "PrintConfig encode cfg = encode cfg"

text \<open>\<open>TestConfig\<close>: the name of the configuration, and the files written, none when the encoder fails.\<close>

definition default_schemas :: string where
  "default_schemas = [CHR 0x0A] @ ''[default]'' @ [CHR 0x0A] @ ''priority = 1'' @ [CHR 0x0A] @ ''pattern = .*'' @ [CHR 0x0A] @ ''retentions = 60:43200,3600:43800''"

definition TestConfig :: "(('r, 't) Config \<Rightarrow> ('e, string) result) \<Rightarrow> string \<Rightarrow> string \<times> (string \<times> string) list" where
  "TestConfig encode rootDir =
     (let cfg0 = NewConfig;
          cfg = cfg0\<lparr>Common := (Common cfg0)\<lparr>cm_Logfile := Join rootDir ''go-carbon.log''\<rparr>,
                     WhisperC := (WhisperC cfg0)\<lparr>wh_DataDir := rootDir, wh_SchemasFilename := Join rootDir ''schemas.conf''\<rparr>\<rparr>;
          configFile = Join rootDir ''go-carbon.conf''
      in (configFile, case encode cfg of
            Inl _ \<Rightarrow> []
          | Inr s \<Rightarrow> [(wh_SchemasFilename (WhisperC cfg), default_schemas), (configFile, s)]))"

definition httpServe :: "(string \<Rightarrow> string \<Rightarrow> ('e, 'a) result) \<Rightarrow> ('a \<Rightarrow> 'e option) \<Rightarrow> string \<Rightarrow> 'e option" where
  "httpServe resolve listen addr = (case resolve ''tcp'' addr of Inl e \<Rightarrow> Some e | Inr a \<Rightarrow> listen a)"

definition act :: "main_action list \<Rightarrow> ('r, 't, 'i, 'l) main_state \<Rightarrow> ('r, 't, 'i, 'l) main_state" where
  "act as st = st\<lparr>macts := macts st @ as\<rparr>"

definition lookup_user :: "('r, 't, 'e, 'a, 'i, 'l) main_env \<Rightarrow> ('r, 't) Config \<Rightarrow> ('e, (string \<times> string) option) result" where
  "lookup_user env cfg =
     (if cm_User (Common cfg) \<noteq> [] then map_sum id Some (lookupUser env (cm_User (Common cfg))) else Inr None)"

text \<open>The credential of the daemon.\<close>

definition credential :: "(string \<times> string) option \<Rightarrow> (string, (uint32 \<times> uint32) option) result" where
  "credential u =
     (case u of
        None \<Rightarrow> Inr None
      | Some (uid, gid) \<Rightarrow>
          (case parse_int uid of
             None \<Rightarrow> Inl uid
           | Some i \<Rightarrow> (case parse_int gid of None \<Rightarrow> Inl gid | Some g \<Rightarrow> Inr (Some (word_of_int i, word_of_int g)))))"

text \<open>Becoming a daemon: Inr False is the parent, which returns. The error of \<open>Reborn\<close> is dropped.\<close>

definition daemonize :: "('r, 't, 'e, 'a, 'i, 'l) main_env \<Rightarrow> flags \<Rightarrow> (string \<times> string) option \<Rightarrow> ('e main_error, bool \<times> main_action list) result" where
  "daemonize env fl u =
     (if \<not> fl_daemon fl then Inr (True, [])
      else (case credential u of
              Inl s \<Rightarrow> Inl (MBadId s)
            | Inr cred \<Rightarrow> Inr (case reborn env of Inl _ \<Rightarrow> True | Inr parent \<Rightarrow> \<not> parent, [RebornAs (fl_pidfile fl) cred])))"

definition open_log ::
  "('r, 't, 'e, 'a, 'i, 'l) main_env \<Rightarrow> (string \<times> string) option \<Rightarrow> ('r, 't, 'i, 'l) main_state \<Rightarrow> 'e main_error option \<times> ('r, 't, 'i, 'l) main_state" where
  "open_log env u st =
     (let logfile = cm_Logfile (Common (AConfig (mapp st))) in
      case PrepareFile (fsResult env) logfile u of
        (calls, Some e) \<Rightarrow> (Some (MPrepare e), act (map FsCall calls) st)
      | (calls, None) \<Rightarrow>
          (case SetFile logfile (openErr env) (watcherErr env) (mlog st) of
             (err, l) \<Rightarrow> (map_option MLogFile err, (act (map FsCall calls @ [OpenLog logfile]) st)\<lparr>mlog := l\<rparr>)))"

text \<open>From the limit on processors to the main loop.\<close>

definition run_app :: "('r, 't, 'e, 'a, 'i, 'l) main_env \<Rightarrow> ('r, 't, 'i, 'l) main_state \<Rightarrow> 'e main_outcome \<times> ('r, 't, 'i, 'l) main_state" where
  "run_app env st =
     (let cfg = AConfig (mapp st);
          st1 = act [MaxProcs (cm_MaxCPU (Common cfg))] st;
          http = (if pp_Enabled (Pprof cfg) then httpServe (resolveAddr (startEnv env)) (pprofListen env) (pp_Listen (Pprof cfg)) else None);
          st2 = (if pp_Enabled (Pprof cfg) then (act [ServePprof (pp_Listen (Pprof cfg))] st1)\<lparr>mhttp := (http = None)\<rparr> else st1)
      in case http of
           Some e \<Rightarrow> (MainFatal (MPprof e), st2)
         | None \<Rightarrow>
             (case App_Start (startEnv env) (urlScheme (cfgEnv env)) (mapp st2) of
                (Started, a) \<Rightarrow> (MainLoop, (act [StartApp] st2)\<lparr>mapp := a\<rparr>)
              | (StartFailed e, a) \<Rightarrow> (MainFatal (MStart e), (act [StartApp] st2)\<lparr>mapp := a\<rparr>)
              | (StartPanic, a) \<Rightarrow> (MainPanic, (act [StartApp] st2)\<lparr>mapp := a\<rparr>)
              | (StartBlocked, a) \<Rightarrow> (MainBlocked, (act [StartApp] st2)\<lparr>mapp := a\<rparr>)))"

text \<open>The part that runs with a valid configuration: the user, the level, the log file, the daemon.\<close>

definition main_configured ::
  "('r, 't, 'e, 'a, 'i, 'l) main_env \<Rightarrow> flags \<Rightarrow> ('r, 't, 'i, 'l) main_state \<Rightarrow> 'e main_outcome \<times> ('r, 't, 'i, 'l) main_state" where
  "main_configured env fl st =
     (let cfg = AConfig (mapp st) in
      case lookup_user env cfg of
        Inl e \<Rightarrow> (MainFatal (MUser e), st)
      | Inr u \<Rightarrow>
          (case SetLevel (parseLevel env) (cm_LogLevel (Common cfg)) (mlog st) of
             (Some e, l) \<Rightarrow> (MainFatal (MLevel e), st\<lparr>mlog := l\<rparr>)
           | (None, l) \<Rightarrow>
               if fl_checkConfig fl then (MainReturned, st\<lparr>mlog := l\<rparr>)
               else (case open_log env u (st\<lparr>mlog := l\<rparr>) of
                       (Some e, st1) \<Rightarrow> (MainFatal e, st1)
                     | (None, st1) \<Rightarrow>
                         (case daemonize env fl u of
                            Inl e \<Rightarrow> (MainFatal e, st1)
                          | Inr (goesOn, as) \<Rightarrow> if goesOn then run_app env (act as st1) else (MainReturned, act as st1)))))"

definition main :: "('r, 't, 'e, 'a, 'i, 'l) main_env \<Rightarrow> flags \<Rightarrow> 'l \<Rightarrow> 'e main_outcome \<times> ('r, 't, 'i, 'l) main_state" where
  "main env fl level0 =
     (let st = \<lparr>mapp = App_New (fl_config fl), mlog = log_init level0, mhttp = False, macts = []\<rparr> in
      if fl_version fl then (MainReturned, act [PrintText Version] st)
      else if fl_printDefault fl
      then (case PrintConfig (encodeConfig env) NewConfig of Inl e \<Rightarrow> (MainFatal (MPrint e), st) | Inr s \<Rightarrow> (MainReturned, act [PrintText s] st))
      else (case configure (cfgEnv env) (mapp st) of
              (Some e, a) \<Rightarrow> (MainFatal (MConfig e), st\<lparr>mapp := a\<rparr>)
            | (None, a) \<Rightarrow> main_configured env fl (st\<lparr>mapp := a\<rparr>)))"

section \<open>Signals\<close>

text \<open>
  The first USR2 stops the application gracefully, later ones are not received. HUP reloads the configuration, and the goroutine of the logger
  reopens the log.
\<close>

definition on_usr2 :: "'e dump_result \<Rightarrow> (uint32 \<times> nat) list \<Rightarrow> ('r, 't, 'i, 'l) main_state \<Rightarrow> 'e grace_outcome \<times> ('r, 't, 'i, 'l) main_state" where
  "on_usr2 dump obs st = (case GraceStop dump obs (mapp st) of (r, a) \<Rightarrow> (r, st\<lparr>mapp := a, mhttp := False\<rparr>))"

definition on_hup :: "('r, 't, 'e, 'a, 'i, 'l) main_env \<Rightarrow> ('r, 't, 'i, 'l) main_state \<Rightarrow> 'e config_error option \<times> ('r, 't, 'i, 'l) main_state" where
  "on_hup env st =
     (case ReloadConfig (cfgEnv env) (mapp st) of (err, a) \<Rightarrow> (err, st\<lparr>mapp := a, mlog := snd (Reopen (openErr env) (mlog st))\<rparr>))"

section \<open>What reaches the main loop\<close>

lemma act_sel [simp]: "mapp (act as st) = mapp st" "mlog (act as st) = mlog st" "mhttp (act as st) = mhttp st" "macts (act as st) = macts st @ as"
  by (simp_all add: act_def)

lemma SetLevel_sel: "SetLevel p lvl w = (r, l) \<Longrightarrow> std l = std w \<and> log_output l = log_output w \<and> next_fd l = next_fd w"
  by (auto simp: SetLevel_def split: sum.splits)

lemma open_log_app: "open_log env u st = (r, st1) \<Longrightarrow> mapp st1 = mapp st \<and> StartApp \<notin> set (macts st1) - set (macts st)"
  by (auto simp: open_log_def Let_def split: prod.splits option.splits)

lemma open_log_done:
  assumes "open_log env u st = (None, st1)" "cm_Logfile (Common (AConfig (mapp st))) \<noteq> []"
  shows "log_output (mlog st1) = ToFd (next_fd (mlog st))"
proof -
  let ?f = "cm_Logfile (Common (AConfig (mapp st)))"
  from assms(1) obtain r l where l: "SetFile ?f (openErr env) (watcherErr env) (mlog st) = (r, l)" "r = None" "mlog st1 = l"
    by (auto simp: open_log_def Let_def split: prod.splits option.splits)
  have "openErr env = None"
  proof (rule ccontr)
    assume "openErr env \<noteq> None"
    with assms(2) l(1,2) show False by (auto simp: SetFile_def Open_def Reopen_def Let_def)
  qed
  with open_succeeds [OF assms(2)] l show ?thesis by (metis snd_conv)
qed

lemma daemonize_acts: "daemonize env fl u = Inr (b, as) \<Longrightarrow> StartApp \<notin> set as"
  by (auto simp: daemonize_def split: if_splits sum.splits)

lemma run_app_loop:
  assumes "run_app env st = (MainLoop, st')" "running_comps (mapp st) = {CExit}"
  shows "running_comps (mapp st') = enabled_comps (AConfig (mapp st)) \<and> AConfig (mapp st') = AConfig (mapp st) \<and> mlog st' = mlog st
    \<and> (\<exists>as. macts st' = macts st @ as @ [StartApp] \<and> StartApp \<notin> set as)"
proof -
  from assms(1) obtain a where a: "App_Start (startEnv env) (urlScheme (cfgEnv env)) (mapp st) = (Started, a)" "mapp st' = a" "mlog st' = mlog st"
    "\<exists>as. macts st' = macts st @ as @ [StartApp] \<and> StartApp \<notin> set as"
    unfolding run_app_def Let_def by (auto split: option.splits prod.splits start_outcome.splits if_splits)
  from started_runs_enabled [OF a(1) assms(2)] a(2-4) show ?thesis by simp
qed

lemma run_app_fatal:
  assumes "run_app env st = (MainFatal e, st')" "running_comps (mapp st) = {CExit}"
  shows "running_comps (mapp st') \<subseteq> {CExit}"
proof -
  from assms(1) consider "mapp st' = mapp st"
    | e' where "App_Start (startEnv env) (urlScheme (cfgEnv env)) (mapp st) = (StartFailed e', mapp st')"
    unfolding run_app_def Let_def by (auto split: option.splits prod.splits start_outcome.splits if_splits)
  then show ?thesis
  proof cases
    case 2
    from failed_start_stops [OF this] all_stopped_running show ?thesis by blast
  qed (use assms(2) in simp)
qed

lemma running_config: "running_comps (a\<lparr>AConfig := c\<rparr>) = running_comps a"
  by (simp add: running_comps_def cong: comp.case_cong)

lemma configured_running:
  assumes "configure env (App_New f) = (r, a)"
  shows "running_comps a = {CExit}"
proof -
  from assms obtain c where "a = App_New f \<or> a = (App_New f)\<lparr>AConfig := c\<rparr>" by (auto simp: configure_def split: sum.splits)
  then show ?thesis by (elim disjE) (simp_all only: running_config demo_running)
qed

lemma main_configured_run:
  assumes "main_configured env fl st = (MainLoop, st')"
  obtains u l st1 as where "SetLevel (parseLevel env) (cm_LogLevel (Common (AConfig (mapp st)))) (mlog st) = (None, l)"
    "open_log env u (st\<lparr>mlog := l\<rparr>) = (None, st1)" "StartApp \<notin> set as" "run_app env (act as st1) = (MainLoop, st')"
  using assms unfolding main_configured_def Let_def
  by (auto split: sum.splits prod.splits option.splits if_splits dest: daemonize_acts)

lemma main_configured_loop:
  assumes "main_configured env fl st = (MainLoop, st')" "running_comps (mapp st) = {CExit}" "macts st = []"
  shows "running_comps (mapp st') = enabled_comps (AConfig (mapp st)) \<and> AConfig (mapp st') = AConfig (mapp st)
    \<and> (cm_Logfile (Common (AConfig (mapp st))) \<noteq> [] \<longrightarrow> log_output (mlog st') = ToFd (next_fd (mlog st)))
    \<and> (\<exists>as. macts st' = as @ [StartApp] \<and> StartApp \<notin> set as)"
proof -
  obtain u l st1 as where s: "SetLevel (parseLevel env) (cm_LogLevel (Common (AConfig (mapp st)))) (mlog st) = (None, l)"
    "open_log env u (st\<lparr>mlog := l\<rparr>) = (None, st1)" "StartApp \<notin> set as" "run_app env (act as st1) = (MainLoop, st')"
    by (rule main_configured_run [OF assms(1)])
  have st1: "mapp st1 = mapp st" "StartApp \<notin> set (macts st1)" using open_log_app [OF s(2)] assms(3) by auto
  have log: "cm_Logfile (Common (AConfig (mapp st))) \<noteq> [] \<Longrightarrow> log_output (mlog st1) = ToFd (next_fd (mlog st))"
    using open_log_done [OF s(2)] SetLevel_sel [OF s(1)] by simp
  have "running_comps (mapp (act as st1)) = {CExit}" using st1(1) assms(2) by simp
  from run_app_loop [OF s(4) this] obtain as' where
    "running_comps (mapp st') = enabled_comps (AConfig (mapp st))" "AConfig (mapp st') = AConfig (mapp st)" "mlog st' = mlog st1"
    "macts st' = (macts st1 @ as @ as') @ [StartApp]" "StartApp \<notin> set as'" using st1(1) by auto
  with st1(2) s(3) log show ?thesis by auto
qed

lemma main_configured_fatal:
  assumes "main_configured env fl st = (MainFatal e, st')" "running_comps (mapp st) = {CExit}"
  shows "running_comps (mapp st') \<subseteq> {CExit}"
proof -
  from assms(1) consider "mapp st' = mapp st" | u l st1 as where "open_log env u (st\<lparr>mlog := l\<rparr>) = (None, st1)" "run_app env (act as st1) = (MainFatal e, st')"
    unfolding main_configured_def Let_def
    by (auto split: sum.splits prod.splits option.splits if_splits dest: open_log_app)
  then show ?thesis
  proof cases
    case 2
    have "running_comps (mapp (act as st1)) = {CExit}" using open_log_app [OF 2(1)] assms(2) by simp
    with run_app_fatal [OF 2(2)] show ?thesis by simp
  qed (use assms(2) in simp)
qed

lemma main_configured_check: "fl_checkConfig fl \<Longrightarrow> main_configured env fl st = (r, st') \<Longrightarrow> macts st' = macts st"
  unfolding main_configured_def Let_def by (auto split: sum.splits prod.splits option.splits)

lemma main_cases:
  fixes env :: "('r, 't, 'e, 'a, 'i, 'l) main_env"
  assumes "main env fl l0 = (r, st)"
  obtains (printed) s where "macts st = [PrintText s]" "mapp st = App_New (fl_config fl)" "r = MainReturned"
  | (early) "macts st = []" "mapp st = App_New (fl_config fl)" "\<exists>e. r = MainFatal e"
  | (configured) a where "configure (cfgEnv env) (App_New (fl_config fl)) = (None, a)"
      "main_configured env fl \<lparr>mapp = a, mlog = log_init l0, mhttp = False, macts = []\<rparr> = (r, st)"
proof -
  obtain c and a :: "('r, 't, 'i) App" where c: "configure (cfgEnv env) (App_New (fl_config fl)) = (c, a)" by fastforce
  have "c \<noteq> None \<Longrightarrow> a = App_New (fl_config fl)" using c by (auto simp: configure_def split: sum.splits)
  with assms c that show thesis unfolding main_def Let_def by (auto split: if_splits sum.splits option.splits)
qed

section \<open>Properties\<close>

text \<open>C26. The program reaches its main loop only with a configuration that passed the checks, with the log in the log file, after a single start, and it then runs exactly
  the components that the configuration enables. After a fatal error no component runs. With the flag to check the configuration it does nothing but print.\<close>

theorem main_runs_configured:
  assumes "main env fl l0 = (r, st)"
  shows "(r = MainLoop \<longrightarrow> running_comps (mapp st) = enabled_comps (AConfig (mapp st))
      \<and> load_config (cfgEnv env) (fl_config fl) = Inr (AConfig (mapp st))
      \<and> (cm_Logfile (Common (AConfig (mapp st))) \<noteq> [] \<longrightarrow> log_output (mlog st) = ToFd 0)
      \<and> (\<exists>as. macts st = as @ [StartApp] \<and> StartApp \<notin> set as))
    \<and> (\<forall>e. r = MainFatal e \<longrightarrow> running_comps (mapp st) \<subseteq> {CExit})
    \<and> (fl_checkConfig fl \<longrightarrow> (\<forall>x \<in> set (macts st). \<exists>s. x = PrintText s))"
  using assms
proof (cases rule: main_cases)
  case (configured a)
  let ?st = "\<lparr>mapp = a, mlog = log_init l0, mhttp = False, macts = []\<rparr>"
  have run: "running_comps (mapp ?st) = {CExit}" using configured_running [OF configured(1)] by simp
  have cfg: "load_config (cfgEnv env) (fl_config fl) = Inr (AConfig a)"
    using configured(1) by (auto simp: configure_def App_New_def split: sum.splits)
  from main_configured_loop [where env = env and fl = fl and st = ?st and st' = st] run configured(2) cfg
  have "r = MainLoop \<Longrightarrow> running_comps (mapp st) = enabled_comps (AConfig (mapp st))
      \<and> load_config (cfgEnv env) (fl_config fl) = Inr (AConfig (mapp st))
      \<and> (cm_Logfile (Common (AConfig (mapp st))) \<noteq> [] \<longrightarrow> log_output (mlog st) = ToFd 0)
      \<and> (\<exists>as. macts st = as @ [StartApp] \<and> StartApp \<notin> set as)" by (simp add: log_init_def)
  moreover have "r = MainFatal e \<Longrightarrow> running_comps (mapp st) \<subseteq> {CExit}" for e
    using main_configured_fatal [where env = env and fl = fl and st = ?st and st' = st] run configured(2) by simp
  moreover have "fl_checkConfig fl \<Longrightarrow> macts st = []" using main_configured_check [OF _ configured(2)] by simp
  ultimately show ?thesis by auto
qed (auto simp: demo_running)

text \<open>A failing \<open>Reborn\<close> is not noticed: the process goes on in the foreground.\<close>

lemma reborn_error_ignored: "fl_daemon fl \<Longrightarrow> reborn env = Inl e \<Longrightarrow> credential u = Inr c \<Longrightarrow> \<exists>as. daemonize env fl u = Inr (True, as)"
  by (simp add: daemonize_def)

section \<open>Witness\<close>

definition quiet_config :: "(unit, unit) Config" where
  "quiet_config = (let c = NewConfig in c\<lparr>WhisperC := (WhisperC c)\<lparr>wh_Enabled := False\<rparr>, Udp := (Udp c)\<lparr>ud_Enabled := False\<rparr>,
     Tcp := (Tcp c)\<lparr>tc_Enabled := False\<rparr>, Pickle := (Pickle c)\<lparr>pi_Enabled := False\<rparr>\<rparr>)"

definition quiet_env :: "(unit, unit, unit, unit, unit, unit) main_env" where
  "quiet_env = \<lparr>cfgEnv = demo_cfg_env\<lparr>decodeFile := \<lambda>_ _. Inr quiet_config\<rparr>, encodeConfig = \<lambda>_. Inr [], lookupUser = \<lambda>_. Inl (), parseLevel = \<lambda>_. Inr (),
     fsResult = \<lambda>_. None, openErr = None, watcherErr = False, reborn = Inr False, pprofListen = \<lambda>_. None, startEnv = demo_start_env\<rparr>"

definition quiet_flags :: flags where
  "quiet_flags = \<lparr>fl_config = ''carbon.conf'', fl_printDefault = False, fl_checkConfig = False, fl_version = False, fl_daemon = True, fl_pidfile = ''pid''\<rparr>"

lemmas quiet_simps = quiet_config_def quiet_env_def quiet_flags_def demo_cfg_env_def demo_start_env_def NewConfig_def App_New_def configure_def load_config_def
  ParseConfig_def configure_whisper_def check_endpoint_def MetricEndpointLocal_def

lemma quiet_configured:
  "\<exists>a. configure (cfgEnv quiet_env) (App_New ''carbon.conf'' :: (unit, unit, unit) App) = (None, a) \<and> mapp_cfg a"
  if "mapp_cfg = (\<lambda>a. \<not> wh_Enabled (WhisperC (AConfig a)) \<and> \<not> ud_Enabled (Udp (AConfig a)) \<and> \<not> tc_Enabled (Tcp (AConfig a))
    \<and> \<not> pi_Enabled (Pickle (AConfig a)) \<and> \<not> cs_Enabled (CarbonserverC (AConfig a)) \<and> cl_Enabled (Carbonlink (AConfig a))
    \<and> cm_User (Common (AConfig a)) = [] \<and> \<not> pp_Enabled (Pprof (AConfig a)) \<and> 0 \<le> ca_InputBuffer (CacheC (AConfig a)))"
  unfolding that by (simp add: quiet_simps Let_def)

lemma quiet_main: "\<exists>st. main quiet_env quiet_flags () = (MainLoop, st)"
proof -
  obtain a :: "(unit, unit, unit) App" where a: "configure (cfgEnv quiet_env) (App_New ''carbon.conf'') = (None, a)"
    "\<not> wh_Enabled (WhisperC (AConfig a))" "\<not> ud_Enabled (Udp (AConfig a))" "\<not> tc_Enabled (Tcp (AConfig a))"
    "\<not> pi_Enabled (Pickle (AConfig a))" "\<not> cs_Enabled (CarbonserverC (AConfig a))" "cl_Enabled (Carbonlink (AConfig a))"
    "cm_User (Common (AConfig a)) = []" "\<not> pp_Enabled (Pprof (AConfig a))" "\<not> ca_InputBuffer (CacheC (AConfig a)) < 0"
    using quiet_configured [OF refl] by auto
  have "\<exists>a'. App_Start demo_start_env (urlScheme demo_cfg_env) a = (Started, a')"
    using a by (simp add: App_Start_def startPersister_def start_udp_def start_tcp_def start_pickle_def start_carbonserver_def start_carbonlink_def
        demo_start_env_def Let_def)
  then obtain a' where "App_Start demo_start_env (urlScheme demo_cfg_env) a = (Started, a')" ..
  with a show ?thesis
    by (auto simp: main_def main_configured_def lookup_user_def SetLevel_def open_log_def PrepareFile_def SetFile_def Open_def Reopen_def
        daemonize_def credential_def run_app_def quiet_env_def quiet_flags_def Let_def split: prod.splits)
qed

theorem main_runs_configured_witness:
  "\<exists>st. main quiet_env quiet_flags () = (MainLoop, st) \<and> running_comps (mapp st) = enabled_comps (AConfig (mapp st)) \<and> CCache \<in> running_comps (mapp st)"
proof -
  from quiet_main obtain st where "main quiet_env quiet_flags () = (MainLoop, st)" by blast
  with main_runs_configured [OF this] show ?thesis by (auto simp: enabled_comps_def)
qed

end
